(* ===== verification/Prelude.thy ===== *)
theory Prelude
  imports Main "HOL-Library.Word" "HOL-Library.List_Lexorder" "HOL-Library.Char_ord"
begin

unbundle bit_operations_syntax

text \<open>
  Shared vocabulary of the StrongKV development: the machine integers and byte strings of the
  C++ sources, exceptions as values of a sum type with one sequencing operator, the characters
  and decimal numerals the text formats use, and the generic lemmas on big-endian words and
  digit loops that the component theories rest on.

  A \<^theory_text>\<open>std::string\<close> is a \<^typ>\<open>string\<close> (a list of 8-bit characters), a
  \<^theory_text>\<open>std::vector<std::uint8_t>\<close> is a list of 8-bit words. A signed 64-bit
  integer is the 64-bit word with the same bits, read with \<open>sint\<close>, so that
  \<^theory_text>\<open>static_cast<std::uint64_t>\<close> is the identity.
\<close>

section \<open>Types and collections\<close>

type_synonym u8 = "8 word"
type_synonym u16 = "16 word"
type_synonym u32 = "32 word"
type_synonym u64 = "64 word"
type_synonym i64 = "64 word"
type_synonym i32 = "32 word"
type_synonym bytes = "u8 list"

text \<open>The values of \<^theory_text>\<open>std::numeric_limits<T>::max()\<close> and \<open>min()\<close> the code uses.\<close>

abbreviation u32_max :: nat where "u32_max \<equiv> 4294967295"
abbreviation i32_max :: nat where "i32_max \<equiv> 2147483647"
abbreviation u64_max :: u64 where "u64_max \<equiv> 18446744073709551615"
abbreviation i64_max :: i64 where "i64_max \<equiv> 9223372036854775807"
abbreviation i64_min :: i64 where "i64_min \<equiv> 9223372036854775808"

named_theorems codec_simps \<open>laws of the binary writers and readers\<close>
named_theorems exn_simps \<open>rewriting and inversion of sequenced fallible computations\<close>
named_theorems inv_intros \<open>preservation of component invariants\<close>

section \<open>Exceptions\<close>

text \<open>
  The exception classes the sources throw. The payload is the text of \<^theory_text>\<open>what()\<close>,
  which is observable: \<^theory_text>\<open>KvStateMachine::commit\<close> stores it in the replicated result.
\<close>

datatype exn =
    DecodeError string
  | ProtocolError string
  | ClientError string
  | Invalid_argument string
  | Length_error string
  | Runtime_error string
  | Logic_error string
  | Out_of_range string

fun what :: "exn \<Rightarrow> string" where
  "what (DecodeError m) = m"
| "what (ProtocolError m) = m"
| "what (ClientError m) = m"
| "what (Invalid_argument m) = m"
| "what (Length_error m) = m"
| "what (Runtime_error m) = m"
| "what (Logic_error m) = m"
| "what (Out_of_range m) = m"

text \<open>Sequencing: the first exception leaves the enclosing function.\<close>

definition bindE :: "'e + 'a \<Rightarrow> ('a \<Rightarrow> 'e + 'b) \<Rightarrow> 'e + 'b" where
  "bindE m f = (case m of Inl e \<Rightarrow> Inl e | Inr x \<Rightarrow> f x)"

text \<open>A check that throws when its condition fails.\<close>

definition guardE :: "bool \<Rightarrow> 'e \<Rightarrow> 'e + unit" where
  "guardE b e = (if b then Inr () else Inl e)"

lemma bindE_Inl [simp]: "bindE (Inl e) f = Inl e"
  by (simp add: bindE_def)

lemma bindE_Inr [simp]: "bindE (Inr x) f = f x"
  by (simp add: bindE_def)

lemma bindE_eq_Inr_iff [exn_simps]:
  "bindE m f = Inr y \<longleftrightarrow> (\<exists>x. m = Inr x \<and> f x = Inr y)"
  by (cases m) auto

lemma bindE_eq_Inl_iff:
  "bindE m f = Inl e \<longleftrightarrow> m = Inl e \<or> (\<exists>x. m = Inr x \<and> f x = Inl e)"
  by (cases m) auto

lemma bindE_assoc: "bindE (bindE m f) g = bindE m (\<lambda>x. bindE (f x) g)"
  by (cases m) auto

lemma guardE_True [simp]: "guardE True e = Inr ()"
  by (simp add: guardE_def)

lemma guardE_False [simp]: "guardE False e = Inl e"
  by (simp add: guardE_def)

lemma guardE_eq_Inr_iff [exn_simps, simp]: "guardE b e = Inr u \<longleftrightarrow> b"
  by (simp add: guardE_def)

text \<open>A loop over a container whose body may throw.\<close>

fun foldE :: "('a \<Rightarrow> 's \<Rightarrow> 'e + 's) \<Rightarrow> 'a list \<Rightarrow> 's \<Rightarrow> 'e + 's" where
  "foldE f [] s = Inr s"
| "foldE f (x # xs) s = bindE (f x s) (foldE f xs)"

lemma foldE_cong [fundef_cong]:
  "xs = ys \<Longrightarrow> s = t \<Longrightarrow> (\<And>x s. x \<in> set ys \<Longrightarrow> f x s = g x s) \<Longrightarrow> foldE f xs s = foldE g ys t"
proof (induction xs arbitrary: ys s t)
  case (Cons x xs)
  have "foldE f xs = foldE g xs" by (rule ext) (use Cons in auto)
  then show ?case using Cons.prems by auto
qed simp

section \<open>Bytes and characters\<close>

definition byte_of_char :: "char \<Rightarrow> u8" where
  "byte_of_char c = of_nat (of_char c)"

definition char_of_byte :: "u8 \<Rightarrow> char" where
  "char_of_byte b = char_of (unat b)"

abbreviation string_bytes :: "string \<Rightarrow> bytes" where
  "string_bytes s \<equiv> map byte_of_char s"

abbreviation bytes_string :: "bytes \<Rightarrow> string" where
  "bytes_string bs \<equiv> map char_of_byte bs"

lemma unat_byte_of_char [simp]: "unat (byte_of_char c) = of_char c"
  by (simp add: byte_of_char_def unat_of_nat)

lemma char_of_byte_of_char [simp]: "char_of_byte (byte_of_char c) = c"
  by (simp add: char_of_byte_def)

lemma byte_of_char_of_byte [simp]: "byte_of_char (char_of_byte b) = b"
proof -
  have "unat b < 256" using unsigned_less [of b, where ?'a = nat] by simp
  then show ?thesis by (simp add: byte_of_char_def char_of_byte_def of_char_of)
qed

lemma byte_char_comp [simp]:
  "char_of_byte \<circ> byte_of_char = id" "byte_of_char \<circ> char_of_byte = id"
  by (simp_all add: fun_eq_iff)

lemma bytes_string_inverse [simp]: "bytes_string (string_bytes s) = s"
  by simp

lemma string_bytes_inverse [simp]: "string_bytes (bytes_string bs) = bs"
  by simp

section \<open>Big-endian words\<close>

text \<open>
  The reference encoding of a word as \<open>n\<close> big-endian bytes, and the shift-and-or loop that
  every reader of the code uses. The two are inverse when the bytes fit the word.
\<close>

primrec be_bytes :: "nat \<Rightarrow> 'a::len word \<Rightarrow> bytes" where
  "be_bytes 0 v = []"
| "be_bytes (Suc n) v = be_bytes n (drop_bit 8 v) @ [ucast v]"

definition be_value :: "bytes \<Rightarrow> 'a::len word" where
  "be_value bs = foldl (\<lambda>v b. push_bit 8 v OR ucast b) 0 bs"

lemma length_be_bytes [simp]: "length (be_bytes n v) = n"
  by (induction n arbitrary: v) auto

lemma be_value_Nil [simp]: "be_value [] = 0"
  by (simp add: be_value_def)

lemma be_value_snoc [simp]: "be_value (bs @ [b]) = push_bit 8 (be_value bs) OR ucast b"
  by (simp add: be_value_def)

lemma be_value_be_bytes_take_bit:
  "be_value (be_bytes n v) = take_bit (8 * n) (v :: 'a::len word)"
proof (induction n arbitrary: v)
  case 0
  then show ?case by simp
next
  case (Suc n)
  have "push_bit 8 (take_bit (8 * n) (drop_bit 8 v)) OR ucast (ucast v :: u8)
    = take_bit (8 * Suc n) v"
    by (rule bit_word_eqI) (auto simp: bit_simps)
  then show ?case by (simp add: Suc.IH)
qed

lemma be_value_be_bytes:
  "LENGTH('a) \<le> 8 * n \<Longrightarrow> be_value (be_bytes n (v :: 'a::len word)) = v"
  by (simp add: be_value_be_bytes_take_bit take_bit_word_eq_self)

lemma be_value_bound: "take_bit (8 * length bs) (be_value bs :: 'a::len word) = be_value bs"
proof (induction bs rule: rev_induct)
  case Nil
  then show ?case by simp
next
  case (snoc b bs)
  have "bit (be_value bs :: 'a word) i \<Longrightarrow> i < 8 * length bs" for i
    using snoc.IH by (metis bit_take_bit_iff)
  then have "bit (be_value bs :: 'a word) (i - 8) \<Longrightarrow> i < 8 + 8 * length bs" for i
    by (metis add.commute less_diff_conv less_diff_conv2 linorder_not_less trans_less_add1)
  then show ?case
    by - (rule bit_word_eqI, auto simp: bit_simps dest: bit_imp_le_length)
qed

lemma be_bytes_be_value:
  "8 * length bs \<le> LENGTH('a) \<Longrightarrow> be_bytes (length bs) (be_value bs :: 'a::len word) = bs"
proof (induction bs rule: rev_induct)
  case Nil
  then show ?case by simp
next
  case (snoc b bs)
  let ?v = "be_value bs :: 'a word"
  have bound: "bit ?v i \<Longrightarrow> i < 8 * length bs" for i
    using be_value_bound [of bs] by (metis bit_take_bit_iff)
  have hi: "drop_bit 8 (push_bit 8 ?v OR ucast b) = ?v"
    using snoc.prems
    by - (rule bit_word_eqI, auto simp: bit_simps dest: bound bit_imp_le_length)
  have lo: "ucast (push_bit 8 ?v OR ucast b) = b"
    using snoc.prems
    by - (rule bit_word_eqI, auto simp: bit_simps dest: bit_imp_le_length)
  have "be_bytes (length bs) ?v = bs" using snoc by simp
  then show ?case
    by (simp only: length_append_singleton be_value_snoc be_bytes.simps hi lo)
qed

lemma unat_plus_one:
  fixes x y :: "'a::len word"
  assumes "x < y"
  shows "unat (x + 1) = Suc (unat x)"
proof -
  have "unat x < unat y" using assms by (simp add: word_less_nat_alt)
  moreover have "unat y < 2 ^ LENGTH('a)" by (rule unsigned_less)
  ultimately have "Suc (unat x) < 2 ^ LENGTH('a)" by linarith
  then show ?thesis by (simp add: unat_word_ariths)
qed

section \<open>Decimal numerals\<close>

text \<open>
  \<^theory_text>\<open>std::to_string\<close> on the integers the code prints, and the digit test the
  parsers share (\<open>c < '0' || c > '9'\<close> on an \<^theory_text>\<open>unsigned char\<close>).
\<close>

definition is_digit :: "char \<Rightarrow> bool" where
  "is_digit c \<longleftrightarrow> 48 \<le> (of_char c :: nat) \<and> (of_char c :: nat) \<le> 57"

definition digit_value :: "char \<Rightarrow> nat" where
  "digit_value c = of_char c - 48"

definition digit_char :: "nat \<Rightarrow> char" where
  "digit_char d = char_of (48 + d)"

fun to_string_nat :: "nat \<Rightarrow> string" where
  "to_string_nat n =
     (if n < 10 then [digit_char n]
      else to_string_nat (n div 10) @ [digit_char (n mod 10)])"

declare to_string_nat.simps [simp del]

definition to_string_int :: "int \<Rightarrow> string" where
  "to_string_int i = (if i < 0 then CHR ''-'' # to_string_nat (nat (- i)) else to_string_nat (nat i))"

definition decimal_value :: "string \<Rightarrow> nat" where
  "decimal_value s = foldl (\<lambda>v c. v * 10 + digit_value c) 0 s"

lemma digit_char_facts [simp]:
  assumes "d < 10"
  shows "is_digit (digit_char d)" and "digit_value (digit_char d) = d"
  using assms by (simp_all add: is_digit_def digit_value_def digit_char_def)

lemma digit_value_le: "is_digit c \<Longrightarrow> digit_value c \<le> 9"
  unfolding is_digit_def digit_value_def by arith

lemma decimal_value_Nil [simp]: "decimal_value [] = 0"
  by (simp add: decimal_value_def)

lemma decimal_value_snoc [simp]: "decimal_value (s @ [c]) = decimal_value s * 10 + digit_value c"
  by (simp add: decimal_value_def)

lemma to_string_nat_neq_Nil [simp]: "to_string_nat n \<noteq> []"
  by (subst to_string_nat.simps) simp

lemma digits_to_string_nat: "c \<in> set (to_string_nat n) \<Longrightarrow> is_digit c"
proof (induction n arbitrary: c rule: to_string_nat.induct)
  case (1 n)
  then show ?case
    by (cases "n < 10") (auto simp: to_string_nat.simps [of n])
qed

lemma decimal_value_to_string_nat [simp]: "decimal_value (to_string_nat n) = n"
proof (induction n rule: to_string_nat.induct)
  case (1 n)
  show ?case
  proof (cases "n < 10")
    case True
    then have "to_string_nat n = [] @ [digit_char n]" by (simp add: to_string_nat.simps)
    with True show ?thesis by (simp only: decimal_value_snoc) simp
  next
    case False
    with 1 show ?thesis by (simp add: to_string_nat.simps [of n])
  qed
qed

lemma to_string_nat_hd_digit: "is_digit (hd (to_string_nat n))"
  by (rule digits_to_string_nat [of _ n]) simp

section \<open>The bounded digit loop\<close>

text \<open>
  Four parsers of the code (\<^theory_text>\<open>KvStateMachine::parse_int64\<close>,
  \<^theory_text>\<open>RespParser::parse_number\<close>, \<^theory_text>\<open>parse_request_number\<close> and
  \<^theory_text>\<open>parse_unsigned\<close>) run the same loop over an unsigned 64-bit accumulator and
  differ in the error they raise; the loop reports which of its two tests failed.
\<close>

datatype digit_error = Non_digit | Too_large

fun digit_loop :: "u64 \<Rightarrow> u64 \<Rightarrow> string \<Rightarrow> digit_error + u64" where
  "digit_loop limit value [] = Inr value"
| "digit_loop limit value (c # cs) =
     (if \<not> is_digit c then Inl Non_digit
      else let digit = of_nat (digit_value c) in
        if value > (limit - digit) div 10 then Inl Too_large
        else digit_loop limit (value * 10 + digit) cs)"

lemma digit_loop_step:
  fixes limit v :: u64
  assumes "9 \<le> unat limit" and "d \<le> 9"
  shows "v \<le> (limit - of_nat d) div 10 \<longleftrightarrow> unat v * 10 + d \<le> unat limit"
    and "unat v * 10 + d \<le> unat limit \<Longrightarrow>
      unat (v * 10 + of_nat d) = unat v * 10 + d"
proof -
  have d: "unat (of_nat d :: u64) = d"
    using assms(2) by (simp add: unat_of_nat)
  have sub: "unat (limit - of_nat d) = unat limit - d"
    using assms d by (subst unat_sub) (simp_all add: word_le_nat_alt)
  show "v \<le> (limit - of_nat d) div 10 \<longleftrightarrow> unat v * 10 + d \<le> unat limit"
    using assms by (simp add: word_le_nat_alt unat_div sub, arith)
  have "unat limit < 2 ^ 64" using unsigned_less [of limit, where ?'a = nat] by simp
  then show "unat v * 10 + d \<le> unat limit \<Longrightarrow>
      unat (v * 10 + of_nat d) = unat v * 10 + d"
    by (simp add: unat_word_ariths d)
qed

lemma foldl_decimal_mono: "v \<le> foldl (\<lambda>v c. v * 10 + digit_value c) v cs"
proof (induction cs arbitrary: v)
  case (Cons c cs)
  have "v \<le> v * 10 + digit_value c" by simp
  also have "\<dots> \<le> foldl (\<lambda>v c. v * 10 + digit_value c) (v * 10 + digit_value c) cs"
    by (rule Cons.IH)
  finally show ?case by simp
qed simp

lemma digit_loop_foldl:
  assumes "9 \<le> unat limit" and "unat v \<le> unat limit" and "\<forall>c\<in>set cs. is_digit c"
  shows "digit_loop limit v cs =
    (let r = foldl (\<lambda>v c. v * 10 + digit_value c) (unat v) cs
     in if r \<le> unat limit then Inr (of_nat r) else Inl Too_large)"
  using assms(2,3)
proof (induction cs arbitrary: v)
  case Nil
  then show ?case by simp
next
  case (Cons c cs)
  let ?d = "digit_value c"
  have d: "?d \<le> 9" using Cons.prems digit_value_le by simp
  note step = digit_loop_step [OF assms(1) d, of v]
  show ?case
  proof (cases "unat v * 10 + ?d \<le> unat limit")
    case True
    then have "\<not> v > (limit - of_nat ?d) div 10" using step(1) by simp
    with True show ?thesis using Cons.IH [of "v * 10 + of_nat ?d"] Cons.prems step(2)
      by (simp add: Let_def)
  next
    case False
    then have "\<not> foldl (\<lambda>v c. v * 10 + digit_value c) (unat v * 10 + ?d) cs \<le> unat limit"
      using foldl_decimal_mono [of "unat v * 10 + ?d" cs] by linarith
    then show ?thesis using False Cons.prems step by (auto simp: Let_def not_less [symmetric])
  qed
qed

lemma digit_loop_non_digit:
  "\<exists>c\<in>set cs. \<not> is_digit c \<Longrightarrow> \<exists>e. digit_loop limit v cs = Inl e"
  by (induction cs arbitrary: v) (auto simp: Let_def)

lemma digit_loop_Inr_iff:
  assumes "9 \<le> unat limit"
  shows "digit_loop limit 0 cs = Inr r \<longleftrightarrow>
    (\<forall>c\<in>set cs. is_digit c) \<and> decimal_value cs \<le> unat limit \<and> r = of_nat (decimal_value cs)"
proof (cases "\<forall>c\<in>set cs. is_digit c")
  case True
  then show ?thesis
    using digit_loop_foldl [OF assms, of 0 cs] by (auto simp: Let_def decimal_value_def)
next
  case False
  then obtain e where "digit_loop limit 0 cs = Inl e"
    using digit_loop_non_digit by blast
  with False show ?thesis by auto
qed

end
