(* ===== verification/Binary_Codec.thy ===== *)
theory Binary_Codec
  imports Prelude
begin

text \<open>
  The binary codec of \<^verbatim>\<open>src/src/common/binary_codec.{h,cpp}\<close>: \<open>BinaryWriter\<close>, an
  appending byte buffer, \<open>BinaryReader\<close>, a bounds-checked cursor over a byte range, and the
  FNV-1a checksum. The locale \<open>field_codec\<close> is the contract between a writer operation and the
  reader operation that undoes it (round trip, and canonicity: what the reader accepts is what
  the writer produces); it is interpreted for every field type of the formats, and the
  record formats of the other theories rest on its facts.
\<close>

section \<open>BinaryWriter\<close>

record BinaryWriter =
  wdata :: bytes

definition new_writer :: BinaryWriter where
  "new_writer = \<lparr>wdata = []\<rparr>"

definition put_u8 :: "BinaryWriter \<Rightarrow> u8 \<Rightarrow> BinaryWriter" where
  "put_u8 w v = w\<lparr>wdata := wdata w @ [v]\<rparr>"

definition put_u16 :: "BinaryWriter \<Rightarrow> u16 \<Rightarrow> BinaryWriter" where
  "put_u16 w v = put_u8 (put_u8 w (ucast (drop_bit 8 v))) (ucast v)"

text \<open>The loops \<open>for (shift = 24; shift >= 0; shift -= 8)\<close> and the one from 56.\<close>

definition put_u32 :: "BinaryWriter \<Rightarrow> u32 \<Rightarrow> BinaryWriter" where
  "put_u32 w v = foldl (\<lambda>w shift. put_u8 w (ucast (drop_bit shift v))) w [24, 16, 8, 0]"

definition put_u64 :: "BinaryWriter \<Rightarrow> u64 \<Rightarrow> BinaryWriter" where
  "put_u64 w v = foldl (\<lambda>w shift. put_u8 w (ucast (drop_bit shift v))) w
     [56, 48, 40, 32, 24, 16, 8, 0]"

definition put_i64 :: "BinaryWriter \<Rightarrow> i64 \<Rightarrow> BinaryWriter" where
  "put_i64 w v = put_u64 w v"

text \<open>
  A pointer and a size: \<^const>\<open>None\<close> is the null pointer, \<open>Some bs\<close> a pointer to the
  bytes \<open>bs\<close>, of which the first \<open>n\<close> are copied.
\<close>

definition put_raw :: "BinaryWriter \<Rightarrow> bytes option \<Rightarrow> nat \<Rightarrow> exn + BinaryWriter" where
  "put_raw w p n =
     (if n = 0 then Inr w
      else case p of
        None \<Rightarrow> Inl (Invalid_argument ''BinaryWriter::put_raw received null data'')
      | Some bs \<Rightarrow> Inr (w\<lparr>wdata := wdata w @ take n bs\<rparr>))"

definition put_string :: "BinaryWriter \<Rightarrow> string \<Rightarrow> exn + BinaryWriter" where
  "put_string w s =
     (if length s > u32_max
      then Inl (Length_error ''string is too large for binary encoding'')
      else put_raw (put_u32 w (of_nat (length s))) (Some (string_bytes s)) (length s))"

section \<open>BinaryReader\<close>

text \<open>The byte range the constructor was given, and the cursor \<open>rpos\<close>.\<close>

record BinaryReader =
  rdata :: bytes
  rpos :: nat

definition new_reader :: "bytes option \<Rightarrow> nat \<Rightarrow> exn + BinaryReader" where
  "new_reader p n =
     (case p of
        None \<Rightarrow> (if n \<noteq> 0 then Inl (Invalid_argument ''BinaryReader received null data'')
                 else Inr \<lparr>rdata = [], rpos = 0\<rparr>)
      | Some bs \<Rightarrow> Inr \<lparr>rdata = take n bs, rpos = 0\<rparr>)"

definition remaining :: "BinaryReader \<Rightarrow> nat" where
  "remaining r = length (rdata r) - rpos r"

definition require_bytes :: "BinaryReader \<Rightarrow> nat \<Rightarrow> exn + unit" where
  "require_bytes r n = guardE (n \<le> remaining r) (DecodeError ''truncated binary payload'')"

definition get_u8 :: "BinaryReader \<Rightarrow> exn + u8 \<times> BinaryReader" where
  "get_u8 r = bindE (require_bytes r 1) (\<lambda>_.
     Inr (rdata r ! rpos r, r\<lparr>rpos := rpos r + 1\<rparr>))"

definition get_u16 :: "BinaryReader \<Rightarrow> exn + u16 \<times> BinaryReader" where
  "get_u16 r = bindE (require_bytes r 2) (\<lambda>_.
     Inr (ucast (push_bit 8 (ucast (rdata r ! rpos r) :: u32) OR ucast (rdata r ! (rpos r + 1))),
          r\<lparr>rpos := rpos r + 2\<rparr>))"

text \<open>The loop \<open>value = (value << 8U) | wdata[rpos++]\<close>, run \<open>n\<close> times.\<close>

fun shift_in :: "nat \<Rightarrow> 'a::len word \<Rightarrow> BinaryReader \<Rightarrow> 'a word \<times> BinaryReader" where
  "shift_in 0 v r = (v, r)"
| "shift_in (Suc n) v r =
     shift_in n (push_bit 8 v OR ucast (rdata r ! rpos r)) (r\<lparr>rpos := rpos r + 1\<rparr>)"

definition get_u32 :: "BinaryReader \<Rightarrow> exn + u32 \<times> BinaryReader" where
  "get_u32 r = bindE (require_bytes r 4) (\<lambda>_. Inr (shift_in 4 0 r))"

definition get_u64 :: "BinaryReader \<Rightarrow> exn + u64 \<times> BinaryReader" where
  "get_u64 r = bindE (require_bytes r 8) (\<lambda>_. Inr (shift_in 8 0 r))"

definition get_i64 :: "BinaryReader \<Rightarrow> exn + i64 \<times> BinaryReader" where
  "get_i64 r = get_u64 r"

definition get_bytes :: "BinaryReader \<Rightarrow> nat \<Rightarrow> exn + bytes \<times> BinaryReader" where
  "get_bytes r n = bindE (require_bytes r n) (\<lambda>_.
     Inr (take n (drop (rpos r) (rdata r)), r\<lparr>rpos := rpos r + n\<rparr>))"

definition get_string :: "BinaryReader \<Rightarrow> nat \<Rightarrow> exn + string \<times> BinaryReader" where
  "get_string r max_size = bindE (get_u32 r) (\<lambda>(len, r).
     bindE (guardE (\<not> unat len > max_size)
              (DecodeError ''binary string exceeds configured limit'')) (\<lambda>_.
     bindE (require_bytes r (unat len)) (\<lambda>_.
     Inr (bytes_string (take (unat len) (drop (rpos r) (rdata r))),
          r\<lparr>rpos := rpos r + unat len\<rparr>))))"

definition require_end :: "BinaryReader \<Rightarrow> exn + unit" where
  "require_end r = guardE (remaining r = 0) (DecodeError ''trailing bytes in binary payload'')"

section \<open>Checksum\<close>

definition fnv1a64 :: "bytes \<Rightarrow> u64" where
  "fnv1a64 bs = foldl (\<lambda>v b. (v XOR ucast b) * 1099511628211) 14695981039346656037 bs"

section \<open>Writers append the reference encoding\<close>

lemma put_u8_data [codec_simps]: "put_u8 w v = w\<lparr>wdata := wdata w @ be_bytes 1 v\<rparr>"
  by (simp add: put_u8_def)

lemma put_u16_data [codec_simps]: "put_u16 w v = w\<lparr>wdata := wdata w @ be_bytes 2 v\<rparr>"
  by (simp add: put_u16_def put_u8_def numeral_2_eq_2)

lemma put_u32_data [codec_simps]: "put_u32 w v = w\<lparr>wdata := wdata w @ be_bytes 4 v\<rparr>"
  by (simp add: put_u32_def put_u8_def numeral_eq_Suc)

lemma put_u64_data [codec_simps]: "put_u64 w v = w\<lparr>wdata := wdata w @ be_bytes 8 v\<rparr>"
  by (simp add: put_u64_def put_u8_def numeral_eq_Suc)

lemma put_i64_data [codec_simps]: "put_i64 w v = w\<lparr>wdata := wdata w @ be_bytes 8 v\<rparr>"
  by (simp add: put_i64_def put_u64_data)

lemma put_raw_data [codec_simps]:
  "put_raw w (Some bs) (length bs) = Inr (w\<lparr>wdata := wdata w @ bs\<rparr>)"
  by (simp add: put_raw_def)

definition string_field :: "string \<Rightarrow> bytes" where
  "string_field s = be_bytes 4 (of_nat (length s) :: u32) @ string_bytes s"

lemma length_string_field [simp]: "length (string_field s) = 4 + length s"
  by (simp add: string_field_def)

lemma put_string_data [codec_simps]:
  "put_string w s =
     (if length s < 2 ^ 32 then Inr (w\<lparr>wdata := wdata w @ string_field s\<rparr>)
      else Inl (Length_error ''string is too large for binary encoding''))"
  using put_raw_data [of _ "string_bytes s"]
  by (auto simp: put_string_def put_u32_data string_field_def)

section \<open>Readers, over a split input\<close>

text \<open>A reader that has consumed \<open>pre\<close> and has \<open>suf\<close> in front of it.\<close>

definition reader_at :: "bytes \<Rightarrow> bytes \<Rightarrow> BinaryReader" where
  "reader_at pre suf = \<lparr>rdata = pre @ suf, rpos = length pre\<rparr>"

lemma new_reader_at [codec_simps]: "new_reader (Some bs) (length bs) = Inr (reader_at [] bs)"
  by (simp add: new_reader_def reader_at_def)

lemma reader_at_proj [simp]:
  "rdata (reader_at pre suf) = pre @ suf" "rpos (reader_at pre suf) = length pre"
  "remaining (reader_at pre suf) = length suf"
  by (simp_all add: reader_at_def remaining_def)

lemma reader_at_advance [simp]:
  "(reader_at pre (a @ b))\<lparr>rpos := length pre + length a\<rparr> = reader_at (pre @ a) b"
  by (simp add: reader_at_def)

lemma reader_at_advance_one [simp]:
  "(reader_at pre (x # b))\<lparr>rpos := Suc (length pre)\<rparr> = reader_at (pre @ [x]) b"
  by (simp add: reader_at_def)

lemma require_bytes_at [codec_simps]:
  "require_bytes (reader_at pre suf) n =
     (if n \<le> length suf then Inr () else Inl (DecodeError ''truncated binary payload''))"
  by (simp add: require_bytes_def guardE_def)

lemma require_end_at [codec_simps]:
  "require_end (reader_at pre suf) =
     (if suf = [] then Inr () else Inl (DecodeError ''trailing bytes in binary payload''))"
  by (simp add: require_end_def guardE_def)

lemma shift_in_at:
  "shift_in (length a) v (reader_at pre (a @ b)) =
     (foldl (\<lambda>v b. push_bit 8 v OR ucast b) v a, reader_at (pre @ a) b)"
proof (induction a arbitrary: v pre)
  case Nil
  then show ?case by simp
next
  case (Cons x a)
  then show ?case using Cons [of "push_bit 8 v OR ucast x" "pre @ [x]"]
    by (simp add: nth_append)
qed

lemma take_drop_split: "n \<le> length suf \<Longrightarrow> \<exists>a b. suf = a @ b \<and> length a = n"
  by (rule exI [of _ "take n suf"], rule exI [of _ "drop n suf"]) simp

section \<open>The contract of a field\<close>

locale field_codec =
  fixes enc :: "'a \<Rightarrow> bytes"
    and get :: "BinaryReader \<Rightarrow> exn + 'a \<times> BinaryReader"
    and ok :: "'a \<Rightarrow> bool"
  assumes get_enc: "ok x \<Longrightarrow> get (reader_at pre (enc x @ post)) = Inr (x, reader_at (pre @ enc x) post)"
    and get_canonical: "get (reader_at pre suf) = Inr (x, r) \<Longrightarrow>
      ok x \<and> (\<exists>post. suf = enc x @ post \<and> r = reader_at (pre @ enc x) post)"
begin

lemma get_iff:
  "get (reader_at pre suf) = Inr (x, r) \<longleftrightarrow>
     ok x \<and> (\<exists>post. suf = enc x @ post \<and> r = reader_at (pre @ enc x) post)"
  using get_enc get_canonical by blast

lemma bind_get_iff:
  "bindE (get (reader_at pre suf)) f = Inr y \<longleftrightarrow>
     (\<exists>x post. ok x \<and> suf = enc x @ post \<and> f (x, reader_at (pre @ enc x) post) = Inr y)"
  by (auto simp: bindE_eq_Inr_iff get_iff)

text \<open>The field is self-delimiting: equal inputs start with equal values.\<close>

lemma enc_inject:
  assumes "ok x" and "ok y" and "enc x @ p = enc y @ q"
  shows "x = y \<and> p = q"
proof -
  have "Inr (x, reader_at ([] @ enc x) p) = (Inr (y, reader_at ([] @ enc y) q) :: exn + _)"
    using get_enc [OF assms(1), of "[]" p] get_enc [OF assms(2), of "[]" q] assms(3) by simp
  then show ?thesis using assms(3) by simp
qed

text \<open>A truncated field is never accepted.\<close>

lemma get_truncated:
  assumes "ok x" and "enc x = p @ q" and "q \<noteq> []"
  shows "\<exists>e. get (reader_at pre p) = Inl e"
proof (cases "get (reader_at pre p)")
  case (Inr vr)
  obtain y r where vr: "vr = (y, r)" by fastforce
  with Inr get_canonical obtain post where y: "ok y" "p = enc y @ post"
    by blast
  then have "enc x @ [] = enc y @ (post @ q)" using assms(2) by simp
  then have "[] = post @ q" using enc_inject [OF assms(1) y(1)] by blast
  with assms(3) show ?thesis by simp
qed simp

end

section \<open>Interpretations for the code's field types\<close>

lemma get_u8_at: "get_u8 (reader_at pre (b # post)) = Inr (b, reader_at (pre @ [b]) post)"
  by (simp add: get_u8_def codec_simps nth_append)

lemma be_bytes_1 [simp]: "be_bytes 1 (v :: u8) = [v]" "be_bytes (Suc 0) (v :: u8) = [v]"
  by simp_all

interpretation u8_field: field_codec "be_bytes 1 :: u8 \<Rightarrow> bytes" get_u8 "\<lambda>_. True"
proof unfold_locales
  fix x :: u8 and pre post
  show "get_u8 (reader_at pre (be_bytes 1 x @ post)) =
    Inr (x, reader_at (pre @ be_bytes 1 x) post)"
    by (simp add: get_u8_at)
next
  fix pre suf and x :: u8 and r
  assume "get_u8 (reader_at pre suf) = Inr (x, r)"
  then show "True \<and> (\<exists>post. suf = be_bytes 1 x @ post \<and> r = reader_at (pre @ be_bytes 1 x) post)"
    by (cases suf) (auto simp: get_u8_at get_u8_def codec_simps)
qed

lemma shift_in_field:
  assumes "\<And>r. get r = bindE (require_bytes r n) (\<lambda>_. Inr (shift_in n (0 :: 'a::len word) r))"
    and "LENGTH('a) = 8 * n"
  shows "field_codec (be_bytes n :: 'a word \<Rightarrow> bytes) get (\<lambda>_. True)"
proof unfold_locales
  fix x :: "'a word" and pre post
  show "get (reader_at pre (be_bytes n x @ post)) = Inr (x, reader_at (pre @ be_bytes n x) post)"
    using shift_in_at [of "be_bytes n x" "0 :: 'a word" pre post] be_value_be_bytes [of n x] assms(2)
    by (simp add: assms(1) codec_simps be_value_def)
next
  fix pre suf and x :: "'a word" and r
  assume get: "get (reader_at pre suf) = Inr (x, r)"
  then have "n \<le> length suf" by (auto simp: assms(1) codec_simps split: if_splits)
  then obtain a b where ab: "suf = a @ b" "length a = n" using take_drop_split by blast
  then have "x = be_value a" "r = reader_at (pre @ a) b"
    using get shift_in_at [of a "0 :: 'a word" pre b] by (auto simp: assms(1) codec_simps be_value_def)
  moreover have "be_bytes n (be_value a :: 'a word) = a"
    using be_bytes_be_value [of a, where ?'a = 'a] ab(2) assms(2) by simp
  ultimately show "True \<and> (\<exists>post. suf = be_bytes n x @ post \<and> r = reader_at (pre @ be_bytes n x) post)"
    using ab(1) by auto
qed

interpretation u32_field: field_codec "be_bytes 4 :: u32 \<Rightarrow> bytes" get_u32 "\<lambda>_. True"
  by (rule shift_in_field) (simp_all add: get_u32_def)

interpretation u64_field: field_codec "be_bytes 8 :: u64 \<Rightarrow> bytes" get_u64 "\<lambda>_. True"
  by (rule shift_in_field) (simp_all add: get_u64_def)

interpretation i64_field: field_codec "be_bytes 8 :: i64 \<Rightarrow> bytes" get_i64 "\<lambda>_. True"
  by (rule shift_in_field) (simp_all add: get_i64_def get_u64_def)

interpretation u16_field: field_codec "be_bytes 2 :: u16 \<Rightarrow> bytes" get_u16 "\<lambda>_. True"
proof (rule shift_in_field)
  fix r
  have "ucast (push_bit 8 (ucast a :: u32) OR ucast b) = (push_bit 8 (ucast a) OR ucast b :: u16)"
    for a b :: u8
    by (rule bit_word_eqI) (auto simp: bit_simps)
  then show "get_u16 r = bindE (require_bytes r 2) (\<lambda>_. Inr (shift_in 2 (0 :: u16) r))"
    by (simp add: get_u16_def numeral_2_eq_2)
qed simp

lemma get_bytes_at [codec_simps]:
  "get_bytes (reader_at pre (a @ post)) (length a) = Inr (a, reader_at (pre @ a) post)"
  by (simp add: get_bytes_def codec_simps)

lemma get_bytes_canonical:
  assumes "get_bytes (reader_at pre suf) n = Inr (a, r)"
  shows "length a = n \<and> (\<exists>post. suf = a @ post \<and> r = reader_at (pre @ a) post)"
proof -
  have "n \<le> length suf" using assms by (auto simp: get_bytes_def codec_simps split: if_splits)
  then obtain a' b where "suf = a' @ b" "length a' = n" using take_drop_split by blast
  then show ?thesis using assms get_bytes_at [of pre a' b] by auto
qed

interpretation string_codec:
  field_codec string_field "\<lambda>r. get_string r max_size" "\<lambda>s. length s \<le> max_size \<and> length s < 2 ^ 32"
  for max_size
proof unfold_locales
  fix x :: string and pre post
  assume ok: "length x \<le> max_size \<and> length x < 2 ^ 32"
  have n: "unat (of_nat (length x) :: u32) = length x" using ok by (simp add: unat_of_nat)
  let ?len = "be_bytes 4 (of_nat (length x) :: u32)"
  have "get_u32 (reader_at pre (?len @ (string_bytes x @ post)))
      = Inr (of_nat (length x), reader_at (pre @ ?len) (string_bytes x @ post))"
    by (rule u32_field.get_enc) simp
  moreover have "(reader_at (pre @ ?len) (string_bytes x @ post))
      \<lparr>rpos := length (pre @ ?len) + length (string_bytes x)\<rparr>
      = reader_at ((pre @ ?len) @ string_bytes x) post"
    by (rule reader_at_advance)
  ultimately show "get_string (reader_at pre (string_field x @ post)) max_size =
      Inr (x, reader_at (pre @ string_field x) post)"
    using ok n by (simp add: get_string_def string_field_def codec_simps not_less)
next
  fix pre suf and x :: string and r
  assume get: "get_string (reader_at pre suf) max_size = Inr (x, r)"
  then obtain len r1 where g: "get_u32 (reader_at pre suf) = Inr (len, r1)"
    and rest: "bindE (guardE (\<not> unat len > max_size) (DecodeError ''binary string exceeds configured limit''))
      (\<lambda>_. bindE (require_bytes r1 (unat len)) (\<lambda>_.
         Inr (bytes_string (take (unat len) (drop (rpos r1) (rdata r1))),
              r1\<lparr>rpos := rpos r1 + unat len\<rparr>))) = Inr (x, r)"
    by (auto simp: get_string_def exn_simps)
  from u32_field.get_canonical [OF g] obtain post
    where suf: "suf = be_bytes 4 len @ post" and r1: "r1 = reader_at (pre @ be_bytes 4 len) post"
    by blast
  from rest r1 have le: "unat len \<le> max_size" and "unat len \<le> length post"
    by (auto simp: exn_simps codec_simps split: if_splits)
  then obtain a b where ab: "post = a @ b" "length a = unat len" using take_drop_split by blast
  have "r1\<lparr>rpos := rpos r1 + unat len\<rparr> = reader_at (pre @ be_bytes 4 len @ a) b"
    using reader_at_advance [of "pre @ be_bytes 4 len" a b] ab r1 by simp
  then have x: "x = bytes_string a" and r: "r = reader_at (pre @ be_bytes 4 len @ a) b"
    using rest r1 ab by (auto simp: exn_simps)
  have enc: "string_field x = be_bytes 4 len @ a"
    using ab x by (simp add: string_field_def)
  have "unat len < 2 ^ 32" using unsigned_less [of len, where ?'a = nat] by simp
  then show "(length x \<le> max_size \<and> length x < 2 ^ 32) \<and>
      (\<exists>post. suf = string_field x @ post \<and> r = reader_at (pre @ string_field x) post)"
    using le ab x r suf enc by auto
qed

lemma get_bytes_iff:
  "get_bytes (reader_at pre suf) n = Inr (a, r) \<longleftrightarrow>
     length a = n \<and> (\<exists>post. suf = a @ post \<and> r = reader_at (pre @ a) post)"
  using get_bytes_at get_bytes_canonical by blast

text \<open>What a successful read says of the input: the inversions the record formats use.\<close>

lemma bind_get_bytes_iff:
  "bindE (get_bytes (reader_at pre suf) n) f = Inr y \<longleftrightarrow>
     (\<exists>a post. length a = n \<and> suf = a @ post \<and> f (a, reader_at (pre @ a) post) = Inr y)"
  by (auto simp: bindE_eq_Inr_iff get_bytes_iff)

lemma bind_require_end_iff:
  "bindE (require_end (reader_at pre suf)) f = Inr y \<longleftrightarrow> suf = [] \<and> f () = Inr y"
  by (simp add: codec_simps)

lemma bind_guardE_iff: "bindE (guardE b e) f = Inr y \<longleftrightarrow> b \<and> f () = Inr y"
  by (simp add: guardE_def)

lemmas field_iffs =
  u8_field.bind_get_iff u16_field.bind_get_iff u32_field.bind_get_iff u64_field.bind_get_iff
  i64_field.bind_get_iff string_codec.bind_get_iff bind_get_bytes_iff bind_require_end_iff
  bind_guardE_iff

lemmas field_get_enc [codec_simps] =
  u8_field.get_enc [OF TrueI] u16_field.get_enc [OF TrueI] u32_field.get_enc [OF TrueI]
  u64_field.get_enc [OF TrueI] i64_field.get_enc [OF TrueI]

section \<open>The checksum separates inputs that differ in one byte\<close>

text \<open>
  The FNV prime is odd, hence invertible modulo \<open>2 ^ 64\<close>: every step of the checksum is
  injective in the running value and in the byte.
\<close>

lemma fnv_prime_inject: "(a :: u64) * 1099511628211 = b * 1099511628211 \<longleftrightarrow> a = b"
proof
  assume "a * 1099511628211 = b * 1099511628211"
  then have "a * (1099511628211 * 14886173955864302971) = b * (1099511628211 * 14886173955864302971)"
    by (simp only: mult.assoc [symmetric])
  moreover have "1099511628211 * 14886173955864302971 = (1 :: u64)"
    by (simp add: word_unat_eq_iff)
  ultimately show "a = b" by (simp only: mult_1_right)
qed simp

lemma xor_left_inject: "(v :: 'a::len word) XOR x = v XOR y \<longleftrightarrow> x = y"
proof
  assume "v XOR x = v XOR y"
  then have "v XOR (v XOR x) = v XOR (v XOR y)" by simp
  then show "x = y" by (simp only: xor.assoc [symmetric] xor_self_eq xor.left_neutral)
qed simp

lemma ucast_ucast_id_8: "ucast (ucast (b :: u8) :: u64) = b"
  by (rule bit_word_eqI) (simp add: bit_simps)

lemma fnv_step_inject:
  "((v :: u64) XOR ucast b) * 1099511628211 = (v XOR ucast (c :: u8)) * 1099511628211 \<longleftrightarrow> b = c"
proof -
  have "v XOR ucast b = v XOR ucast c \<longleftrightarrow> (ucast b :: u64) = ucast c"
    by (rule xor_left_inject)
  also have "\<dots> \<longleftrightarrow> b = c"
    by (metis ucast_ucast_id_8)
  finally show ?thesis by (simp only: fnv_prime_inject)
qed

lemma fnv_foldl_inject:
  "foldl (\<lambda>v b. (v XOR ucast b) * 1099511628211) (u :: u64) (bs :: bytes) =
   foldl (\<lambda>v b. (v XOR ucast b) * 1099511628211) v bs \<longleftrightarrow> u = v"
proof (induction bs arbitrary: u v)
  case (Cons b bs)
  have "u XOR ucast b = v XOR ucast b \<longleftrightarrow> u = v"
    using xor_left_inject [of "ucast b" u v] by (simp add: xor.commute)
  then show ?case by (simp add: Cons.IH fnv_prime_inject)
qed simp

lemma fnv1a64_one_byte: "fnv1a64 (xs @ x # ys) = fnv1a64 (xs @ y # ys) \<longleftrightarrow> x = y"
  by (simp add: fnv1a64_def fnv_foldl_inject fnv_step_inject)

lemma fnv1a64_update:
  assumes "i < length bs" and "b \<noteq> bs ! i"
  shows "fnv1a64 (bs[i := b]) \<noteq> fnv1a64 bs"
  using assms fnv1a64_one_byte [of "take i bs" b "drop (Suc i) bs" "bs ! i"]
  by (simp add: upd_conv_take_nth_drop flip: id_take_nth_drop)

end
