(* ===== verification/Command.thy ===== *)
theory Command
  imports Binary_Codec
begin

text \<open>
  The replicated command and its result, \<^verbatim>\<open>src/src/state_machine/command.{h,cpp}\<close>: the
  versioned binary envelopes that cross the Raft log and the state image. A
  \<^theory_text>\<open>nuraft::buffer\<close> is the bytes it holds. The theorems say that each decoder accepts
  exactly the images its encoder produces for values within the field limit.
\<close>

section \<open>Data\<close>

datatype CommandType = kSet | kDel | kIncr | kDecr | kReadBarrier

record Command =
  version :: u16
  cmd_type :: CommandType
  cmd_key :: string
  cmd_value :: string
  client_id :: u64
  request_id :: u64

datatype ResultCode =
  kOk | kNotFound | kNotInteger | kOverflow | kStaleRequest | kBadCommand | kStorageError

datatype ResultKind = kNone | kString | kInteger

record ApplyResult =
  res_code :: ResultCode
  res_kind :: ResultKind
  res_value :: string
  res_integer :: i64

text \<open>The numeric values of the enumerators, and the casts to and from them.\<close>

fun command_type_raw :: "CommandType \<Rightarrow> u8" where
  "command_type_raw kSet = 1"
| "command_type_raw kDel = 2"
| "command_type_raw kIncr = 3"
| "command_type_raw kDecr = 4"
| "command_type_raw kReadBarrier = 5"

definition valid_command_type :: "u8 \<Rightarrow> bool" where
  "valid_command_type t \<longleftrightarrow>
     command_type_raw kSet \<le> t \<and> t \<le> command_type_raw kReadBarrier"

definition command_type_cast :: "u8 \<Rightarrow> CommandType" where
  "command_type_cast t =
     (if t = 1 then kSet else if t = 2 then kDel else if t = 3 then kIncr
      else if t = 4 then kDecr else kReadBarrier)"

fun result_code_raw :: "ResultCode \<Rightarrow> u8" where
  "result_code_raw kOk = 0"
| "result_code_raw kNotFound = 1"
| "result_code_raw kNotInteger = 2"
| "result_code_raw kOverflow = 3"
| "result_code_raw kStaleRequest = 4"
| "result_code_raw kBadCommand = 5"
| "result_code_raw kStorageError = 6"

definition valid_result_code :: "u8 \<Rightarrow> bool" where
  "valid_result_code c \<longleftrightarrow> c \<le> result_code_raw kStorageError"

definition result_code_cast :: "u8 \<Rightarrow> ResultCode" where
  "result_code_cast c =
     (if c = 0 then kOk else if c = 1 then kNotFound else if c = 2 then kNotInteger
      else if c = 3 then kOverflow else if c = 4 then kStaleRequest
      else if c = 5 then kBadCommand else kStorageError)"

fun result_kind_raw :: "ResultKind \<Rightarrow> u8" where
  "result_kind_raw kNone = 0"
| "result_kind_raw kString = 1"
| "result_kind_raw kInteger = 2"

definition valid_result_kind :: "u8 \<Rightarrow> bool" where
  "valid_result_kind k \<longleftrightarrow> k \<le> result_kind_raw kInteger"

definition result_kind_cast :: "u8 \<Rightarrow> ResultKind" where
  "result_kind_cast k = (if k = 0 then kNone else if k = 1 then kString else kInteger)"

section \<open>Result constructors\<close>

definition ApplyResult_ok :: ApplyResult where
  "ApplyResult_ok = \<lparr>res_code = kOk, res_kind = kNone, res_value = '''', res_integer = 0\<rparr>"

definition ApplyResult_string :: "string \<Rightarrow> ApplyResult" where
  "ApplyResult_string s = ApplyResult_ok\<lparr>res_kind := kString, res_value := s\<rparr>"

definition ApplyResult_integer_value :: "i64 \<Rightarrow> ApplyResult" where
  "ApplyResult_integer_value i = ApplyResult_ok\<lparr>res_kind := kInteger, res_integer := i\<rparr>"

definition ApplyResult_error :: "ResultCode \<Rightarrow> string \<Rightarrow> ApplyResult" where
  "ApplyResult_error c m = ApplyResult_ok\<lparr>res_code := c, res_kind := kString, res_value := m\<rparr>"

definition ApplyResult_equal :: "ApplyResult \<Rightarrow> ApplyResult \<Rightarrow> bool" where
  "ApplyResult_equal a b \<longleftrightarrow>
     res_code a = res_code b \<and> res_kind a = res_kind b \<and>
     res_value a = res_value b \<and> res_integer a = res_integer b"

lemma ApplyResult_equal_iff: "ApplyResult_equal a b \<longleftrightarrow> a = b"
  by (cases a; cases b) (simp add: ApplyResult_equal_def)

definition result_code_name :: "ResultCode \<Rightarrow> string" where
  "result_code_name c =
     (case c of kOk \<Rightarrow> ''OK'' | kNotFound \<Rightarrow> ''NOT_FOUND'' | kNotInteger \<Rightarrow> ''NOT_INTEGER''
      | kOverflow \<Rightarrow> ''OVERFLOW'' | kStaleRequest \<Rightarrow> ''STALE_REQUEST''
      | kBadCommand \<Rightarrow> ''BAD_COMMAND'' | kStorageError \<Rightarrow> ''STORAGE_ERROR'')"

section \<open>Envelopes\<close>

definition kCommandMagic :: bytes where "kCommandMagic = string_bytes ''SKVC''"
definition kResultMagic :: bytes where "kResultMagic = string_bytes ''SKVR''"
definition kCommandVersion :: u16 where "kCommandVersion = 1"
definition kResultVersion :: u16 where "kResultVersion = 1"

definition put_magic :: "BinaryWriter \<Rightarrow> bytes \<Rightarrow> exn + BinaryWriter" where
  "put_magic w magic = put_raw w (Some magic) (length magic)"

definition expect_magic :: "BinaryReader \<Rightarrow> bytes \<Rightarrow> exn + BinaryReader" where
  "expect_magic r expected = bindE (get_bytes r (length expected)) (\<lambda>(actual, r).
     bindE (guardE (actual = expected) (DecodeError ''invalid binary envelope magic'')) (\<lambda>_.
     Inr r))"

definition encode_command_bytes :: "Command \<Rightarrow> exn + bytes" where
  "encode_command_bytes c =
     (if version c \<noteq> kCommandVersion then Inl (Invalid_argument ''unsupported command version'')
      else bindE (put_magic new_writer kCommandMagic) (\<lambda>w.
        let w = put_u16 w (version c);
            w = put_u8 w (command_type_raw (cmd_type c));
            w = put_u8 w 0;
            w = put_u64 w (client_id c);
            w = put_u64 w (request_id c)
        in bindE (put_string w (cmd_key c)) (\<lambda>w.
           bindE (put_string w (cmd_value c)) (\<lambda>w.
           Inr (wdata w)))))"

definition decode_command_bytes :: "bytes option \<Rightarrow> nat \<Rightarrow> nat \<Rightarrow> exn + Command" where
  "decode_command_bytes p n max_field_size =
     bindE (new_reader p n) (\<lambda>r.
     bindE (expect_magic r kCommandMagic) (\<lambda>r.
     bindE (get_u16 r) (\<lambda>(ver, r).
     bindE (guardE (ver = kCommandVersion) (DecodeError ''unsupported command version'')) (\<lambda>_.
     bindE (get_u8 r) (\<lambda>(raw_type, r).
     bindE (guardE (valid_command_type raw_type) (DecodeError ''unknown command type'')) (\<lambda>_.
     bindE (get_u8 r) (\<lambda>(reserved, r).
     bindE (guardE (reserved = 0) (DecodeError ''non-zero reserved command byte'')) (\<lambda>_.
     bindE (get_u64 r) (\<lambda>(client, r).
     bindE (get_u64 r) (\<lambda>(request, r).
     bindE (get_string r max_field_size) (\<lambda>(key, r).
     bindE (get_string r max_field_size) (\<lambda>(val, r).
     bindE (require_end r) (\<lambda>_.
     Inr \<lparr>version = ver, cmd_type = command_type_cast raw_type, cmd_key = key,
          cmd_value = val, client_id = client, request_id = request\<rparr>)))))))))))))"

definition encode_result_bytes :: "ApplyResult \<Rightarrow> exn + bytes" where
  "encode_result_bytes res =
     bindE (put_magic new_writer kResultMagic) (\<lambda>w.
       let w = put_u16 w kResultVersion;
           w = put_u8 w (result_code_raw (res_code res));
           w = put_u8 w (result_kind_raw (res_kind res));
           w = put_i64 w (res_integer res)
       in bindE (put_string w (res_value res)) (\<lambda>w. Inr (wdata w)))"

definition decode_result_bytes :: "bytes option \<Rightarrow> nat \<Rightarrow> nat \<Rightarrow> exn + ApplyResult" where
  "decode_result_bytes p n max_field_size =
     bindE (new_reader p n) (\<lambda>r.
     bindE (expect_magic r kResultMagic) (\<lambda>r.
     bindE (get_u16 r) (\<lambda>(ver, r).
     bindE (guardE (ver = kResultVersion) (DecodeError ''unsupported result version'')) (\<lambda>_.
     bindE (get_u8 r) (\<lambda>(raw_code, r).
     bindE (get_u8 r) (\<lambda>(raw_kind, r).
     bindE (guardE (valid_result_code raw_code \<and> valid_result_kind raw_kind)
              (DecodeError ''invalid result enum'')) (\<lambda>_.
     bindE (get_i64 r) (\<lambda>(int, r).
     bindE (get_string r max_field_size) (\<lambda>(val, r).
     bindE (require_end r) (\<lambda>_.
     let res = \<lparr>res_code = result_code_cast raw_code, res_kind = result_kind_cast raw_kind,
                res_value = val, res_integer = int\<rparr>
     in bindE (guardE (\<not> (res_kind res = kNone \<and> res_value res \<noteq> ''''))
                 (DecodeError ''result with no payload contains string data'')) (\<lambda>_.
        Inr res)))))))))))"

text \<open>The wrappers over \<^theory_text>\<open>nuraft::buffer\<close>, a byte sequence read from its start.\<close>

type_synonym buffer = bytes

definition vector_to_buffer :: "bytes \<Rightarrow> buffer" where
  "vector_to_buffer bs = bs"

definition encode_command :: "Command \<Rightarrow> exn + buffer" where
  "encode_command c = bindE (encode_command_bytes c) (\<lambda>bs. Inr (vector_to_buffer bs))"

definition decode_command :: "buffer \<Rightarrow> nat \<Rightarrow> exn + Command" where
  "decode_command b max_field_size = decode_command_bytes (Some b) (length b) max_field_size"

definition encode_result :: "ApplyResult \<Rightarrow> exn + buffer" where
  "encode_result res = bindE (encode_result_bytes res) (\<lambda>bs. Inr (vector_to_buffer bs))"

definition decode_result :: "buffer \<Rightarrow> nat \<Rightarrow> exn + ApplyResult" where
  "decode_result b max_field_size = decode_result_bytes (Some b) (length b) max_field_size"

section \<open>Enumerators\<close>

lemma u8_le_cases:
  fixes t :: u8
  assumes "t \<le> 6"
  shows "t = 0 \<or> t = 1 \<or> t = 2 \<or> t = 3 \<or> t = 4 \<or> t = 5 \<or> t = 6"
proof -
  have "unat t \<le> 6" using assms by (simp add: word_le_nat_alt)
  then have "unat t \<in> {0, 1, 2, 3, 4, 5, 6}" by auto
  then show ?thesis by (auto simp: word_unat_eq_iff)
qed

lemma command_type_cast_raw [simp]:
  "valid_command_type (command_type_raw t)" "command_type_cast (command_type_raw t) = t"
  by (cases t; simp add: valid_command_type_def command_type_cast_def)+

lemma command_type_raw_cast [simp]:
  assumes "valid_command_type t"
  shows "command_type_raw (command_type_cast t) = t"
proof -
  have "t \<le> 6" and "t \<noteq> 0" and "t \<noteq> 6"
    using assms by (auto simp: valid_command_type_def word_le_nat_alt)
  then show ?thesis using u8_le_cases [of t] by (auto simp: command_type_cast_def)
qed

lemma result_code_cast_raw [simp]:
  "valid_result_code (result_code_raw c)" "result_code_cast (result_code_raw c) = c"
  by (cases c; simp add: valid_result_code_def result_code_cast_def)+

lemma result_code_raw_cast [simp]:
  "valid_result_code c \<Longrightarrow> result_code_raw (result_code_cast c) = c"
  using u8_le_cases [of c] by (auto simp: valid_result_code_def result_code_cast_def)

lemma result_kind_cast_raw [simp]:
  "valid_result_kind (result_kind_raw k)" "result_kind_cast (result_kind_raw k) = k"
  by (cases k; simp add: valid_result_kind_def result_kind_cast_def)+

lemma result_kind_raw_cast [simp]:
  assumes "valid_result_kind k"
  shows "result_kind_raw (result_kind_cast k) = k"
proof -
  have "k \<le> 6" and "unat k \<le> 2"
    using assms by (auto simp: valid_result_kind_def word_le_nat_alt)
  then show ?thesis using u8_le_cases [of k] by (auto simp: result_kind_cast_def)
qed

section \<open>Images\<close>

definition command_image :: "Command \<Rightarrow> bytes" where
  "command_image c =
     kCommandMagic @ be_bytes 2 (version c) @ be_bytes 1 (command_type_raw (cmd_type c)) @
     be_bytes 1 (0 :: u8) @ be_bytes 8 (client_id c) @ be_bytes 8 (request_id c) @
     string_field (cmd_key c) @ string_field (cmd_value c)"

definition result_image :: "ApplyResult \<Rightarrow> bytes" where
  "result_image res =
     kResultMagic @ be_bytes 2 kResultVersion @ be_bytes 1 (result_code_raw (res_code res)) @
     be_bytes 1 (result_kind_raw (res_kind res)) @ be_bytes 8 (res_integer res) @
     string_field (res_value res)"

text \<open>A result without payload has no text.\<close>

definition result_payload_ok :: "ApplyResult \<Rightarrow> bool" where
  "result_payload_ok res \<longleftrightarrow> \<not> (res_kind res = kNone \<and> res_value res \<noteq> '''')"

lemma put_magic_data [codec_simps]: "put_magic w m = Inr (w\<lparr>wdata := wdata w @ m\<rparr>)"
  by (simp add: put_magic_def codec_simps)

lemma encode_command_bytes_image:
  "encode_command_bytes c = Inr bs \<longleftrightarrow>
     version c = kCommandVersion \<and> length (cmd_key c) < 2 ^ 32 \<and> length (cmd_value c) < 2 ^ 32 \<and>
     bs = command_image c"
  by (auto simp: encode_command_bytes_def codec_simps new_writer_def command_image_def Let_def
      split: if_splits)

lemma encode_result_bytes_image:
  "encode_result_bytes res = Inr bs \<longleftrightarrow> length (res_value res) < 2 ^ 32 \<and> bs = result_image res"
  by (auto simp: encode_result_bytes_def codec_simps new_writer_def result_image_def Let_def
      split: if_splits)

lemma bind_expect_magic_iff:
  "bindE (expect_magic (reader_at pre suf) m) f = Inr y \<longleftrightarrow>
     (\<exists>post. suf = m @ post \<and> f (reader_at (pre @ m) post) = Inr y)"
  by (auto simp: expect_magic_def field_iffs bindE_assoc split_def)

lemmas envelope_iffs = new_reader_at bindE_Inr bind_expect_magic_iff field_iffs prod.case

text \<open>The decoders undo the images \<dots>\<close>

lemma expect_magic_at: "expect_magic (reader_at pre (m @ post)) m = Inr (reader_at (pre @ m) post)"
  by (simp add: expect_magic_def codec_simps)

lemmas envelope_gets = expect_magic_at field_get_enc get_u8_at string_codec.get_enc codec_simps

lemma decode_command_image:
  assumes "version c = kCommandVersion"
    and "length (cmd_key c) \<le> max_size \<and> length (cmd_key c) < 2 ^ 32"
    and "length (cmd_value c) \<le> max_size \<and> length (cmd_value c) < 2 ^ 32"
  shows "decode_command_bytes (Some (command_image c)) (length (command_image c)) max_size = Inr c"
  using assms string_codec.get_enc [OF assms(3), of _ "[]"]
  unfolding decode_command_bytes_def new_reader_at bindE_Inr
  by (simp add: command_image_def envelope_gets)

text \<open>\<dots> and accept nothing else.\<close>

lemma decode_command_inv:
  assumes "decode_command_bytes (Some bs) (length bs) max_size = Inr c"
  shows "version c = kCommandVersion \<and>
     length (cmd_key c) < 2 ^ 32 \<and> length (cmd_value c) < 2 ^ 32 \<and>
     length (cmd_key c) \<le> max_size \<and> length (cmd_value c) \<le> max_size \<and> bs = command_image c"
  using assms unfolding decode_command_bytes_def envelope_iffs
  by (auto simp: command_image_def)

lemma decode_result_image:
  assumes "length (res_value res) \<le> max_size \<and> length (res_value res) < 2 ^ 32"
    and "result_payload_ok res"
  shows "decode_result_bytes (Some (result_image res)) (length (result_image res)) max_size = Inr res"
  using assms string_codec.get_enc [OF assms(1), of _ "[]"]
  unfolding decode_result_bytes_def new_reader_at bindE_Inr
  by (simp add: result_image_def envelope_gets result_payload_ok_def)

lemma decode_result_inv:
  assumes "decode_result_bytes (Some bs) (length bs) max_size = Inr res"
  shows "length (res_value res) < 2 ^ 32 \<and> length (res_value res) \<le> max_size \<and>
     result_payload_ok res \<and> bs = result_image res"
  using assms unfolding decode_result_bytes_def envelope_iffs Let_def
  by (auto simp: result_image_def result_payload_ok_def)

section \<open>Properties\<close>

text \<open>
  C26. The command decoder accepts exactly the encoder's output: a byte string decodes to a
  command precisely when the command encodes to that byte string and its key and value are
  within the field limit. So encoding followed by decoding is the identity, every accepted
  image is canonical (no two images decode to the same command), and unknown versions and types,
  non-zero reserved bytes, truncated images and trailing bytes are all refused.
\<close>

theorem decode_command_iff_encode:
  "decode_command b max_field_size = Inr c \<longleftrightarrow>
     encode_command c = Inr b \<and>
     length (cmd_key c) \<le> max_field_size \<and> length (cmd_value c) \<le> max_field_size"
  unfolding decode_command_def encode_command_def vector_to_buffer_def
  using decode_command_image [of c max_field_size] decode_command_inv [of b max_field_size c]
  by (auto simp: exn_simps encode_command_bytes_image)

text \<open>
  The same for results: a byte string decodes to a result precisely when the result encodes to
  that byte string, its text is within the field limit, and it has no text when it has no
  payload.
\<close>

theorem decode_result_iff_encode:
  "decode_result b max_field_size = Inr res \<longleftrightarrow>
     encode_result res = Inr b \<and> length (res_value res) \<le> max_field_size \<and> result_payload_ok res"
  unfolding decode_result_def encode_result_def vector_to_buffer_def
  using decode_result_image [of res max_field_size] decode_result_inv [of b max_field_size res]
  by (auto simp: exn_simps encode_result_bytes_image)

end
