(* ===== verification/Ordered_Map.thy ===== *)
theory Ordered_Map
  imports Prelude
begin

text \<open>
  \<^theory_text>\<open>std::map\<close> as the sources use it: the entries in iteration order, strictly
  increasing in the key. The iteration order matters to the program (the state image, the
  write-ahead log and the eviction of cached results walk the map), so the model keeps it. The
  locale \<open>finite_map\<close> states what a client relies on, \<open>finite_map_ext\<close> adds that maps with the
  same lookups are equal; both are interpreted on the operations below.
\<close>

section \<open>Operations\<close>

type_synonym ('k, 'v) omap = "('k \<times> 'v) list"

definition om_invar :: "('k::linorder, 'v) omap \<Rightarrow> bool" where
  "om_invar m \<longleftrightarrow> sorted_wrt (<) (map fst m)"

definition om_find :: "('k, 'v) omap \<Rightarrow> 'k \<Rightarrow> 'v option" where
  "om_find m k = map_of m k"

text \<open>\<open>m[k] = v\<close>\<close>

fun om_insert :: "'k::linorder \<Rightarrow> 'v \<Rightarrow> ('k, 'v) omap \<Rightarrow> ('k, 'v) omap" where
  "om_insert k v [] = [(k, v)]"
| "om_insert k v ((k', v') # m) =
     (if k < k' then (k, v) # (k', v') # m
      else if k = k' then (k, v) # m
      else (k', v') # om_insert k v m)"

text \<open>\<open>m.erase(k)\<close>\<close>

definition om_erase :: "'k \<Rightarrow> ('k, 'v) omap \<Rightarrow> ('k, 'v) omap" where
  "om_erase k m = filter (\<lambda>(k', _). k' \<noteq> k) m"

text \<open>\<open>m.erase(m.lower_bound(k), m.end())\<close> and \<open>m.erase(m.begin(), m.upper_bound(k))\<close>\<close>

definition om_erase_from :: "'k::linorder \<Rightarrow> ('k, 'v) omap \<Rightarrow> ('k, 'v) omap" where
  "om_erase_from k m = filter (\<lambda>(k', _). k' < k) m"

definition om_erase_upto :: "'k::linorder \<Rightarrow> ('k, 'v) omap \<Rightarrow> ('k, 'v) omap" where
  "om_erase_upto k m = filter (\<lambda>(k', _). k < k') m"

section \<open>The client's view\<close>

locale finite_map =
  fixes emp :: 'm
    and find :: "'m \<Rightarrow> 'k \<Rightarrow> 'v option"
    and ins :: "'k \<Rightarrow> 'v \<Rightarrow> 'm \<Rightarrow> 'm"
    and del :: "'k \<Rightarrow> 'm \<Rightarrow> 'm"
    and invar :: "'m \<Rightarrow> bool"
  assumes find_emp: "find emp k = None"
    and find_ins: "invar m \<Longrightarrow> find (ins k v m) k' = (if k' = k then Some v else find m k')"
    and find_del: "invar m \<Longrightarrow> find (del k m) k' = (if k' = k then None else find m k')"
    and invar_emp: "invar emp"
    and invar_ins: "invar m \<Longrightarrow> invar (ins k v m)"
    and invar_del: "invar m \<Longrightarrow> invar (del k m)"
begin

lemma find_ins_same: "invar m \<Longrightarrow> find (ins k v m) k = Some v"
  by (simp add: find_ins)

lemma find_ins_other: "invar m \<Longrightarrow> k' \<noteq> k \<Longrightarrow> find (ins k v m) k' = find m k'"
  by (simp add: find_ins)

lemma find_ins_fun: "invar m \<Longrightarrow> find (ins k v m) = (find m)(k \<mapsto> v)"
  by (simp add: fun_eq_iff find_ins)

lemma find_del_fun: "invar m \<Longrightarrow> find (del k m) = (find m)(k := None)"
  by (simp add: fun_eq_iff find_del)

end

text \<open>Maps that are determined by their lookups, so that equal contents is equality.\<close>

locale finite_map_ext = finite_map +
  assumes ext: "invar m \<Longrightarrow> invar n \<Longrightarrow> (\<And>k. find m k = find n k) \<Longrightarrow> m = n"
begin

lemma ins_same: "invar m \<Longrightarrow> find m k = Some v \<Longrightarrow> ins k v m = m"
  by (rule ext) (auto simp: find_ins invar_ins)

lemma ins_ins: "invar m \<Longrightarrow> ins k v (ins k w m) = ins k v m"
  by (rule ext) (auto simp: find_ins invar_ins)

lemma ins_commute: "invar m \<Longrightarrow> k \<noteq> k' \<Longrightarrow> ins k v (ins k' w m) = ins k' w (ins k v m)"
  by (rule ext) (auto simp: find_ins invar_ins)

lemma del_ins: "invar m \<Longrightarrow> find m k = None \<Longrightarrow> del k (ins k v m) = m"
  by (rule ext) (auto simp: find_ins find_del invar_ins invar_del)

lemma del_absent: "invar m \<Longrightarrow> find m k = None \<Longrightarrow> del k m = m"
  by (rule ext) (auto simp: find_del invar_del)

end

section \<open>The ordered entries satisfy it\<close>

lemma om_invar_Nil [simp]: "om_invar []"
  by (simp add: om_invar_def)

lemma om_invar_Cons [simp]:
  "om_invar ((k, v) # m) \<longleftrightarrow> (\<forall>k'\<in>fst ` set m. k < k') \<and> om_invar m"
  by (auto simp: om_invar_def)

lemma om_invar_append:
  "om_invar (a @ b) \<longleftrightarrow> om_invar a \<and> om_invar b \<and> (\<forall>x\<in>fst ` set a. \<forall>y\<in>fst ` set b. x < y)"
  by (auto simp: om_invar_def sorted_wrt_append)

lemma om_invar_distinct: "om_invar m \<Longrightarrow> distinct (map fst m)"
  unfolding om_invar_def by (simp add: strict_sorted_iff)

lemma om_invar_filter [intro]: "om_invar m \<Longrightarrow> om_invar (filter P m)"
  by (induction m) auto

lemma om_find_Nil [simp]: "om_find [] k = None"
  by (simp add: om_find_def)

lemma om_find_Cons: "om_find ((k, v) # m) k' = (if k' = k then Some v else om_find m k')"
  by (simp add: om_find_def)

lemma om_find_None_iff: "om_find m k = None \<longleftrightarrow> k \<notin> fst ` set m"
  by (simp add: om_find_def map_of_eq_None_iff)

lemma om_find_in_set: "om_find m k = Some v \<Longrightarrow> (k, v) \<in> set m"
  by (simp add: om_find_def map_of_SomeD)

lemma om_find_Some_iff: "om_invar m \<Longrightarrow> om_find m k = Some v \<longleftrightarrow> (k, v) \<in> set m"
  by (simp add: om_find_def om_invar_distinct)

lemma fst_set_om_insert [simp]: "fst ` set (om_insert k v m) = insert k (fst ` set m)"
  by (induction k v m rule: om_insert.induct) auto

lemma set_om_insert_subset: "set (om_insert k v m) \<subseteq> insert (k, v) (set m)"
  by (induction k v m rule: om_insert.induct) auto

lemma om_find_insert: "om_find (om_insert k v m) k' = (if k' = k then Some v else om_find m k')"
  by (induction k v m rule: om_insert.induct) (auto simp: om_find_def)

lemma om_invar_insert [intro]: "om_invar m \<Longrightarrow> om_invar (om_insert k v m)"
  by (induction k v m rule: om_insert.induct) auto

lemma om_find_filter:
  "om_find (filter (\<lambda>(k, _). P k) m) k' = (if P k' then om_find m k' else None)"
  by (induction m) (auto simp: om_find_def)

lemma om_invar_erase [intro]: "om_invar m \<Longrightarrow> om_invar (om_erase k m)"
  by (simp add: om_erase_def om_invar_filter)

lemma om_find_erase: "om_find (om_erase k m) k' = (if k' = k then None else om_find m k')"
  by (simp add: om_erase_def om_find_filter)

lemma om_find_less:
  assumes "om_invar ((k, v) # m)" and "k' \<le> k"
  shows "om_find m k' = None"
  using assms by (force simp: om_find_None_iff)

lemma om_ext:
  assumes "om_invar m" and "om_invar n" and "\<And>k. om_find m k = om_find n k"
  shows "m = n"
  using assms
proof (induction m arbitrary: n)
  case Nil
  have none: "om_find n k = None" for k using Nil.prems(3) by simp
  show ?case
  proof (cases n)
    case (Cons kv n2)
    then show ?thesis using none [of "fst kv"] by (cases kv) (simp add: om_find_Cons)
  qed simp
next
  case (Cons kv m)
  obtain k v where kv: "kv = (k, v)" by fastforce
  have "om_find n k = Some v" using Cons.prems(3) [of k] by (simp add: kv om_find_Cons)
  then obtain k2 v2 n2 where n: "n = (k2, v2) # n2" by (cases n) auto
  have m_less: "om_find m k' = None" if "k' \<le> k" for k'
    using Cons.prems(1) that unfolding kv by (rule om_find_less)
  have n_less: "om_find n2 k' = None" if "k' \<le> k2" for k'
    using Cons.prems(2) that unfolding n by (rule om_find_less)
  have "\<not> k2 < k"
    using Cons.prems(3) [of k2] m_less [OF less_imp_le, of k2]
    by (auto simp: kv n om_find_Cons split: if_splits)
  moreover have "\<not> k < k2"
    using Cons.prems(3) [of k] n_less [OF less_imp_le, of k]
    by (auto simp: kv n om_find_Cons split: if_splits)
  ultimately have k: "k2 = k" by simp
  have "om_find m k' = om_find n2 k'" for k'
    using Cons.prems(3) [of k'] k m_less [of k'] n_less [of k']
    by (cases "k' = k") (simp_all add: kv n om_find_Cons)
  then have "m = n2" using Cons.IH Cons.prems(1,2) by (simp add: kv n)
  moreover have "v2 = v" using Cons.prems(3) [of k] by (simp add: kv n k om_find_Cons)
  ultimately show ?case by (simp add: kv n k)
qed

interpretation om: finite_map_ext "[]" om_find om_insert om_erase om_invar
  by unfold_locales (auto simp: om_find_insert om_find_erase intro: om_ext)

section \<open>Counting and range erasure\<close>

lemma length_om_insert:
  "om_invar m \<Longrightarrow> length (om_insert k v m) = (if om_find m k = None then Suc (length m) else length m)"
proof (induction k v m rule: om_insert.induct)
  case (2 k v k' v' m)
  then show ?case using om_find_less [of k' v' m k] by (auto simp: om_find_Cons)
qed simp

lemma length_om_erase:
  "om_invar m \<Longrightarrow> length (om_erase k m) = (if om_find m k = None then length m else length m - 1)"
proof (induction m)
  case (Cons kv m)
  obtain a b where kv: "kv = (a, b)" by fastforce
  show ?case
  proof (cases "a = k")
    case True
    then have "k \<notin> fst ` set m" using Cons.prems by (auto simp: kv)
    then have "filter (\<lambda>(k', _). k' \<noteq> k) m = m" by (force simp: filter_id_conv)
    with True show ?thesis by (simp add: kv om_erase_def om_find_Cons)
  next
    case False
    have "om_find m k \<noteq> None \<Longrightarrow> m \<noteq> []" by auto
    with False Cons show ?thesis
      by (cases m) (auto simp: kv om_erase_def om_find_Cons split: if_splits)
  qed
qed (simp add: om_erase_def)

text \<open>Inserting above every key appends at the end of the iteration order.\<close>

lemma om_insert_append:
  "\<forall>k'\<in>fst ` set m. k' < k \<Longrightarrow> om_insert k v m = m @ [(k, v)]"
  by (induction k v m rule: om_insert.induct) auto

lemma om_find_append:
  "om_find (a @ b) k = (case om_find a k of None \<Rightarrow> om_find b k | Some v \<Rightarrow> Some v)"
  by (simp add: om_find_def map_add_def split: option.splits)

lemma om_find_erase_from:
  "om_find (om_erase_from k m) k' = (if k' < k then om_find m k' else None)"
  by (simp add: om_erase_from_def om_find_filter)

lemma om_find_erase_upto:
  "om_find (om_erase_upto k m) k' = (if k < k' then om_find m k' else None)"
  by (simp add: om_erase_upto_def om_find_filter)

lemma om_invar_erase_from [intro]: "om_invar m \<Longrightarrow> om_invar (om_erase_from k m)"
  by (simp add: om_erase_from_def om_invar_filter)

lemma om_invar_erase_upto [intro]: "om_invar m \<Longrightarrow> om_invar (om_erase_upto k m)"
  by (simp add: om_erase_upto_def om_invar_filter)

end
