(* ===== verification/Decimal.thy ===== *)
theory Decimal
  imports Prelude
begin

text \<open>
  Signed 64-bit integers in decimal text: the specification of the accepted numerals with unbounded
  arithmetic, and the lemma that the code's digit loop with its sign-dependent limit computes it.
  The state machine and the RESP parser have the same loop and share it.
\<close>

text \<open>The specification of the accepted numerals, with unbounded arithmetic.\<close>

definition numeral_value :: "string \<Rightarrow> int option" where
  "numeral_value s =
     (let ds = (if s \<noteq> [] \<and> (hd s = CHR ''-'' \<or> hd s = CHR ''+'') then tl s else s)
      in if ds \<noteq> [] \<and> list_all is_digit ds
         then Some (if hd s = CHR ''-'' then - int (decimal_value ds) else int (decimal_value ds))
         else None)"

definition int64_range :: "int \<Rightarrow> bool" where
  "int64_range v \<longleftrightarrow> - (2 ^ 63) \<le> v \<and> v < 2 ^ 63"

definition int_text :: "string \<Rightarrow> int option" where
  "int_text s = (case numeral_value s of None \<Rightarrow> None | Some v \<Rightarrow> if int64_range v then Some v else None)"

lemma int64_range_sint [simp]: "int64_range (sint (i :: i64))"
  using sint_ge [of i] sint_lt [of i] by (simp add: int64_range_def)

lemma sint_of_int64: "int64_range v \<Longrightarrow> sint (of_int v :: i64) = v"
  by (simp add: int64_range_def signed_of_int signed_take_bit_int_eq_self)

text \<open>The loop over the digits behind the sign, with the sign applied to its result.\<close>

definition signed_digits_value :: "bool \<Rightarrow> string \<Rightarrow> i64 option" where
  "signed_digits_value negative ds =
     (let limit = (if negative then i64_max + 1 else i64_max) in
      case digit_loop limit 0 ds of
        Inl _ \<Rightarrow> None
      | Inr magnitude \<Rightarrow>
          Some (if negative then (if magnitude = limit then i64_min else - magnitude) else magnitude))"

lemma signed_digits:
  "signed_digits_value negative ds =
     (let v = (if negative then - int (decimal_value ds) else int (decimal_value ds)) in
      if list_all is_digit ds \<and> int64_range v then Some (of_int v) else None)"
proof -
  define limit :: u64 where "limit = (if negative then i64_max + 1 else i64_max)"
  let ?d = "decimal_value ds"
  have lim: "unat limit = (if negative then 2 ^ 63 else 2 ^ 63 - 1)"
    by (simp add: limit_def)
  have loop: "digit_loop limit 0 ds = Inr r \<longleftrightarrow> list_all is_digit ds \<and> ?d \<le> unat limit \<and> r = of_nat ?d" for r
    using digit_loop_Inr_iff [of limit ds r] lim by (simp add: list_all_iff split: if_splits)
  have rng: "int64_range (if negative then - int ?d else int ?d) \<longleftrightarrow> ?d \<le> unat limit"
    by (auto simp: int64_range_def lim)
  have neg: "negative \<Longrightarrow> (of_nat ?d :: u64) = limit \<Longrightarrow> - of_nat ?d = i64_min"
    by (simp add: limit_def)
  show ?thesis
  proof (cases "digit_loop limit 0 ds")
    case (Inl e)
    then show ?thesis using loop rng by (auto simp: signed_digits_value_def Let_def simp flip: limit_def)
  next
    case (Inr r)
    then show ?thesis
      using loop [of r] rng neg by (auto simp: signed_digits_value_def Let_def simp flip: limit_def)
  qed
qed

lemma int_text_range: "int_text s = Some v \<Longrightarrow> int64_range v"
  by (auto simp: int_text_def split: option.splits if_splits)

lemma hd_to_string_nat: "hd (to_string_nat n) \<noteq> CHR ''-''" "hd (to_string_nat n) \<noteq> CHR ''+''"
  using to_string_nat_hd_digit [of n] by (auto simp: is_digit_def)

lemma int_text_to_string_int: "int64_range v \<Longrightarrow> int_text (to_string_int v) = Some v"
proof -
  assume r: "int64_range v"
  have d: "list_all is_digit (to_string_nat n)" for n
    by (simp add: list_all_iff digits_to_string_nat)
  have "numeral_value (to_string_int v) = Some v"
    using d hd_to_string_nat by (simp add: numeral_value_def to_string_int_def)
  then show ?thesis using r by (simp add: int_text_def)
qed

end
