(* ===== verification/Kv_State_Machine.thy ===== *)
theory Kv_State_Machine
  imports Command Ordered_Map Decimal
begin

text \<open>
  The replicated state machine, \<^verbatim>\<open>src/src/state_machine/kv_state_machine.{h,cpp}\<close>: applying
  committed commands, the per-client deduplication records and the cache of recent results. The
  type of Raft snapshots is a parameter \<open>'snap\<close> of the machine; its persistence is in
  \<open>Kv_Persistence\<close>. Operations run under one mutex, so each is one function from the machine to
  its result and the new machine. Log lines are not modelled.

  The abstract specification is a partial map from keys to texts with, per client, the last
  request and its result; counters are mathematical integers. The theorems show that the code
  refines it, that a retried write is applied once, and that no increment is lost.
\<close>

section \<open>Data\<close>

record DedupRecord =
  dr_request_id :: u64
  dr_result :: ApplyResult

record StateData =
  sd_last_commit_index :: u64
  kv :: "(string, string) omap"
  dedup :: "(u64, DedupRecord) omap"

definition initial_state :: StateData where
  "initial_state = \<lparr>sd_last_commit_index = 0, kv = [], dedup = []\<rparr>"

record 'snap KvStateMachine =
  state_file :: string
  snapshot_file :: string
  max_field_size :: nat
  state :: StateData
  recent_results :: "(u64, ApplyResult) omap"
  sm_last_snapshot :: "'snap option"

definition kMaximumCachedResults :: nat where
  "kMaximumCachedResults = 65536"

section \<open>Operations\<close>

definition is_write :: "CommandType \<Rightarrow> bool" where
  "is_write t \<longleftrightarrow> t = kSet \<or> t = kDel \<or> t = kIncr \<or> t = kDecr"

text \<open>\<open>None\<close> is the return value \<^theory_text>\<open>false\<close>.\<close>

definition parse_int64 :: "string \<Rightarrow> i64 option" where
  "parse_int64 s =
     (if s = [] then None
      else
        let signed = (hd s = CHR ''-'' \<or> hd s = CHR ''+'');
            negative = (hd s = CHR ''-'');
            digits = (if signed then tl s else s)
        in if signed \<and> digits = [] then None
           else
             let limit = (if negative then i64_max + 1 else i64_max) in
             case digit_loop limit 0 digits of
               Inl _ \<Rightarrow> None
             | Inr magnitude \<Rightarrow>
                 Some (if negative then (if magnitude = limit then i64_min else - magnitude)
                       else magnitude))"

definition apply_new_request_locked :: "Command \<Rightarrow> StateData \<Rightarrow> ApplyResult \<times> StateData" where
  "apply_new_request_locked c s =
     (case cmd_type c of
        kSet \<Rightarrow> (ApplyResult_ok, s\<lparr>kv := om_insert (cmd_key c) (cmd_value c) (kv s)\<rparr>)
      | kDel \<Rightarrow>
          (let erased = (if om_find (kv s) (cmd_key c) = None then 0 else 1)
           in (ApplyResult_integer_value erased, s\<lparr>kv := om_erase (cmd_key c) (kv s)\<rparr>))
      | kReadBarrier \<Rightarrow> (ApplyResult_ok, s)
      | t \<Rightarrow>
          (case (case om_find (kv s) (cmd_key c) of None \<Rightarrow> Some 0 | Some v \<Rightarrow> parse_int64 v) of
             None \<Rightarrow> (ApplyResult_error kNotInteger ''value is not a valid int64'', s)
           | Some current \<Rightarrow>
               if t = kIncr \<and> current = i64_max
               then (ApplyResult_error kOverflow ''int64 overflow'', s)
               else if t \<noteq> kIncr \<and> current = i64_min
               then (ApplyResult_error kOverflow ''int64 underflow'', s)
               else
                 let current = (if t = kIncr then current + 1 else current - 1)
                 in (ApplyResult_integer_value current,
                     s\<lparr>kv := om_insert (cmd_key c) (to_string_int (sint current)) (kv s)\<rparr>)))"

definition apply_locked :: "Command \<Rightarrow> StateData \<Rightarrow> ApplyResult \<times> StateData" where
  "apply_locked c s =
     (if \<not> is_write (cmd_type c) then
        (if cmd_type c = kReadBarrier then (ApplyResult_ok, s)
         else (ApplyResult_error kBadCommand ''unknown command type'', s))
      else if client_id c = 0 then apply_new_request_locked c s
      else if request_id c = 0 then
        (ApplyResult_error kBadCommand ''request_id must be non-zero when client_id is set'', s)
      else
        let fresh =
          (let (res, s') = apply_new_request_locked c s
           in (res, s'\<lparr>dedup := om_insert (client_id c)
                 \<lparr>dr_request_id = request_id c, dr_result = res\<rparr> (dedup s')\<rparr>))
        in case om_find (dedup s) (client_id c) of
             None \<Rightarrow> fresh
           | Some found \<Rightarrow>
               if request_id c = dr_request_id found then (dr_result found, s)
               else if request_id c < dr_request_id found then
                 (ApplyResult_error kStaleRequest
                    ''request_id is older than the last applied request'', s)
               else fresh)"

text \<open>The loop that drops the oldest cached results.\<close>

function evict_results :: "(u64, ApplyResult) omap \<Rightarrow> (u64, ApplyResult) omap" where
  "evict_results m = (if length m > kMaximumCachedResults then evict_results (tl m) else m)"
  by pat_completeness auto

termination
  by (relation "measure length") (auto simp: kMaximumCachedResults_def)

declare evict_results.simps [simp del]

text \<open>The \<^theory_text>\<open>try\<close> block of \<^theory_text>\<open>commit\<close> and its handler.\<close>

definition commit_outcome :: "buffer \<Rightarrow> 'snap KvStateMachine \<Rightarrow> ApplyResult \<times> StateData" where
  "commit_outcome data m =
     (case decode_command data (max_field_size m) of
        Inl e \<Rightarrow> (ApplyResult_error kBadCommand (''invalid replicated command: '' @ what e), state m)
      | Inr c \<Rightarrow> apply_locked c (state m))"

definition commit :: "u64 \<Rightarrow> buffer \<Rightarrow> 'snap KvStateMachine \<Rightarrow> (exn + buffer) \<times> 'snap KvStateMachine" where
  "commit log_index data m =
     (let (res, s) = commit_outcome data m
      in (encode_result res,
          m\<lparr>state := s\<lparr>sd_last_commit_index := log_index\<rparr>,
            recent_results := evict_results (om_insert log_index res (recent_results m))\<rparr>))"

definition commit_config :: "u64 \<Rightarrow> 'snap KvStateMachine \<Rightarrow> 'snap KvStateMachine" where
  "commit_config log_index m = m\<lparr>state := (state m)\<lparr>sd_last_commit_index := log_index\<rparr>\<rparr>"

definition kv_get :: "string \<Rightarrow> 'snap KvStateMachine \<Rightarrow> string option" where
  "kv_get key m = om_find (kv (state m)) key"

definition get_many :: "string list \<Rightarrow> 'snap KvStateMachine \<Rightarrow> string option list" where
  "get_many keys m = map (\<lambda>key. om_find (kv (state m)) key) keys"

definition take_result :: "u64 \<Rightarrow> 'snap KvStateMachine \<Rightarrow> ApplyResult option \<times> 'snap KvStateMachine" where
  "take_result log_index m =
     (case om_find (recent_results m) log_index of
        None \<Rightarrow> (None, m)
      | Some res \<Rightarrow> (Some res, m\<lparr>recent_results := om_erase log_index (recent_results m)\<rparr>))"

definition kv_size :: "'snap KvStateMachine \<Rightarrow> nat" where
  "kv_size m = length (kv (state m))"

definition last_commit_index :: "'snap KvStateMachine \<Rightarrow> u64" where
  "last_commit_index m = sd_last_commit_index (state m)"

definition last_snapshot :: "'snap KvStateMachine \<Rightarrow> 'snap option" where
  "last_snapshot m = sm_last_snapshot m"

text \<open>The state after a sequence of commands, and after a sequence of committed entries.\<close>

definition apply_all :: "Command list \<Rightarrow> StateData \<Rightarrow> StateData" where
  "apply_all cs s = fold (\<lambda>c s. snd (apply_locked c s)) cs s"

definition commit_all :: "(u64 \<times> buffer) list \<Rightarrow> 'snap KvStateMachine \<Rightarrow> 'snap KvStateMachine" where
  "commit_all es m = fold (\<lambda>(i, data) m. snd (commit i data m)) es m"

section \<open>Integers in text\<close>

lemma parse_int64_int_text: "parse_int64 s = map_option of_int (int_text s)"
proof (cases s)
  case Nil
  then show ?thesis by (simp add: parse_int64_def int_text_def numeral_value_def)
next
  case (Cons c cs)
  have "\<not> is_digit CHR ''-''" "\<not> is_digit CHR ''+''" by (simp_all add: is_digit_def)
  then show ?thesis
    using Cons signed_digits [of "c = CHR ''-''" "if c = CHR ''-'' \<or> c = CHR ''+'' then cs else s"]
    by (auto simp: parse_int64_def int_text_def numeral_value_def signed_digits_value_def Let_def
        split: if_splits sum.splits)
qed

section \<open>The specification\<close>

record Spec_State =
  sp_kv :: "string \<rightharpoonup> string"
  sp_last :: "u64 \<rightharpoonup> u64 \<times> ApplyResult"

definition counter_of :: "string option \<Rightarrow> int option" where
  "counter_of old = (case old of None \<Rightarrow> Some 0 | Some t \<Rightarrow> int_text t)"

lemma counter_of_None [simp]: "counter_of None = Some 0"
  by (simp add: counter_of_def)

lemma counter_of_range: "counter_of old = Some v \<Longrightarrow> int64_range v"
  by (auto simp: counter_of_def int64_range_def dest!: int_text_range split: option.splits)

definition spec_count :: "int \<Rightarrow> string option \<Rightarrow> ApplyResult \<times> string option" where
  "spec_count d old =
     (case counter_of old of
        None \<Rightarrow> (ApplyResult_error kNotInteger ''value is not a valid int64'', old)
      | Some v \<Rightarrow>
          if int64_range (v + d)
          then (ApplyResult_integer_value (of_int (v + d)), Some (to_string_int (v + d)))
          else (ApplyResult_error kOverflow (if 0 < d then ''int64 overflow'' else ''int64 underflow''), old))"

definition spec_write :: "CommandType \<Rightarrow> string \<Rightarrow> string option \<Rightarrow> ApplyResult \<times> string option" where
  "spec_write t val old =
     (case t of
        kSet \<Rightarrow> (ApplyResult_ok, Some val)
      | kDel \<Rightarrow> (ApplyResult_integer_value (if old = None then 0 else 1), None)
      | kIncr \<Rightarrow> spec_count 1 old
      | kDecr \<Rightarrow> spec_count (- 1) old
      | kReadBarrier \<Rightarrow> (ApplyResult_ok, old))"

definition spec_apply :: "Command \<Rightarrow> Spec_State \<Rightarrow> ApplyResult \<times> Spec_State" where
  "spec_apply c sp =
     (let (res, new) = spec_write (cmd_type c) (cmd_value c) (sp_kv sp (cmd_key c));
          written = sp\<lparr>sp_kv := (sp_kv sp)(cmd_key c := new)\<rparr>
      in if cmd_type c = kReadBarrier then (ApplyResult_ok, sp)
         else if client_id c = 0 then (res, written)
         else if request_id c = 0 then
           (ApplyResult_error kBadCommand ''request_id must be non-zero when client_id is set'', sp)
         else case sp_last sp (client_id c) of
             Some (prev, old_res) \<Rightarrow>
               if request_id c = prev then (old_res, sp)
               else if request_id c < prev then
                 (ApplyResult_error kStaleRequest ''request_id is older than the last applied request'', sp)
               else (res, written\<lparr>sp_last := (sp_last sp)(client_id c \<mapsto> (request_id c, res))\<rparr>)
           | None \<Rightarrow> (res, written\<lparr>sp_last := (sp_last sp)(client_id c \<mapsto> (request_id c, res))\<rparr>))"

definition abs_state :: "StateData \<Rightarrow> Spec_State" where
  "abs_state s =
     \<lparr>sp_kv = om_find (kv s),
      sp_last = (\<lambda>cl. map_option (\<lambda>r. (dr_request_id r, dr_result r)) (om_find (dedup s) cl))\<rparr>"

text \<open>One counter step of the code against the specification.\<close>

lemma of_int64_eq_iff: "int64_range v \<Longrightarrow> (of_int v :: i64) = w \<longleftrightarrow> v = sint w"
  using sint_of_int64 [of v] by auto

lemma sint_extremes [simp]: "sint i64_max = 2 ^ 63 - 1" "sint i64_min = - (2 ^ 63)"
  by simp_all

lemma om_find_insert_fun: "om_find (om_insert k v m) = (om_find m)(k \<mapsto> v)"
  by (simp add: fun_eq_iff om_find_insert)

lemma om_find_erase_fun: "om_find (om_erase k m) = (om_find m)(k := None)"
  by (simp add: fun_eq_iff om_find_erase)

text \<open>The signed bounds test of the code is the range test of the specification.\<close>

lemma apply_counter:
  assumes t: "cmd_type c = kIncr \<or> cmd_type c = kDecr"
  defines "d \<equiv> (if cmd_type c = kIncr then 1 else - 1 :: int)"
  shows "apply_new_request_locked c s =
    (case counter_of (om_find (kv s) (cmd_key c)) of
       None \<Rightarrow> (ApplyResult_error kNotInteger ''value is not a valid int64'', s)
     | Some v \<Rightarrow>
         if int64_range (v + d)
         then (ApplyResult_integer_value (of_int (v + d)),
               s\<lparr>kv := om_insert (cmd_key c) (to_string_int (v + d)) (kv s)\<rparr>)
         else (ApplyResult_error kOverflow (if 0 < d then ''int64 overflow'' else ''int64 underflow''), s))"
proof -
  have cur: "(case om_find (kv s) (cmd_key c) of None \<Rightarrow> Some 0 | Some v \<Rightarrow> parse_int64 v)
      = map_option of_int (counter_of (om_find (kv s) (cmd_key c)))"
    by (auto simp: counter_of_def parse_int64_int_text split: option.splits)
  show ?thesis
  proof (cases "counter_of (om_find (kv s) (cmd_key c))")
    case None
    then show ?thesis using t cur by (auto simp: apply_new_request_locked_def)
  next
    case (Some v)
    then have r: "int64_range v" by (rule counter_of_range)
    have "int64_range (v + 1) \<longleftrightarrow> v \<noteq> 2 ^ 63 - 1" "int64_range (v - 1) \<longleftrightarrow> v \<noteq> - (2 ^ 63)"
      using r by (auto simp: int64_range_def)
    then show ?thesis
      using t Some cur of_int64_eq_iff [OF r, of i64_max] of_int64_eq_iff [OF r, of i64_min]
      by (auto simp: apply_new_request_locked_def d_def
          sint_of_int64 [of "v + 1", simplified] sint_of_int64 [of "v - 1", simplified])
  qed
qed

lemma apply_new_request_spec:
  assumes "apply_new_request_locked c s = (res, s')"
  shows "spec_write (cmd_type c) (cmd_value c) (om_find (kv s) (cmd_key c)) =
      (res, om_find (kv s') (cmd_key c))"
    and "k \<noteq> cmd_key c \<Longrightarrow> om_find (kv s') k = om_find (kv s) k"
    and "dedup s' = dedup s" and "sd_last_commit_index s' = sd_last_commit_index s"
proof -
  have "spec_write (cmd_type c) (cmd_value c) (om_find (kv s) (cmd_key c)) = (res, om_find (kv s') (cmd_key c)) \<and>
    (k \<noteq> cmd_key c \<longrightarrow> om_find (kv s') k = om_find (kv s) k) \<and> dedup s' = dedup s \<and>
    sd_last_commit_index s' = sd_last_commit_index s"
  proof (cases "cmd_type c = kIncr \<or> cmd_type c = kDecr")
    case True
    then show ?thesis
      using assms
      by (cases "om_find (kv s) (cmd_key c)"; cases "counter_of (om_find (kv s) (cmd_key c))")
        (auto simp: apply_counter spec_write_def spec_count_def om_find_insert split: if_splits)
  next
    case False
    then show ?thesis
      using assms by (cases "cmd_type c")
        (auto simp: apply_new_request_locked_def spec_write_def om_find_insert om_find_erase)
  qed
  then show "spec_write (cmd_type c) (cmd_value c) (om_find (kv s) (cmd_key c)) =
      (res, om_find (kv s') (cmd_key c))"
    and "k \<noteq> cmd_key c \<Longrightarrow> om_find (kv s') k = om_find (kv s) k"
    and "dedup s' = dedup s" and "sd_last_commit_index s' = sd_last_commit_index s"
    by blast+
qed

lemma apply_locked_spec: "spec_apply c (abs_state s) = map_prod id abs_state (apply_locked c s)"
proof -
  obtain res s' where new: "apply_new_request_locked c s = (res, s')" by fastforce
  note facts = apply_new_request_spec [OF new]
  have kv': "om_find (kv s') = (om_find (kv s))(cmd_key c := om_find (kv s') (cmd_key c))"
    using facts(2) by (auto simp: fun_eq_iff)
  show ?thesis
  proof (cases "cmd_type c = kReadBarrier")
    case True
    then show ?thesis by (simp add: spec_apply_def apply_locked_def is_write_def split_def Let_def)
  next
    case False
    then have "is_write (cmd_type c)" by (cases "cmd_type c") (simp_all add: is_write_def)
    with False show ?thesis
      by (auto simp: spec_apply_def apply_locked_def new facts(1,3) abs_state_def kv' [symmetric]
          Let_def fun_eq_iff om_find_insert split: option.splits)
  qed
qed

section \<open>Deduplication\<close>

lemma apply_locked_hit:
  assumes "is_write (cmd_type c)" and "client_id c \<noteq> 0" and "request_id c \<noteq> 0"
    and "om_find (dedup s) (client_id c) = Some r"
  shows "request_id c = dr_request_id r \<Longrightarrow> apply_locked c s = (dr_result r, s)"
    and "request_id c \<le> dr_request_id r \<Longrightarrow> snd (apply_locked c s) = s"
  using assms by (auto simp: apply_locked_def Let_def)

lemma apply_locked_records:
  assumes "is_write (cmd_type c)" and "client_id c \<noteq> 0" and "request_id c \<noteq> 0"
    and "\<forall>r. om_find (dedup s) (client_id c) = Some r \<longrightarrow> dr_request_id r \<le> request_id c"
    and "apply_locked c s = (res, s')"
  shows "om_find (dedup s') (client_id c) = Some \<lparr>dr_request_id = request_id c, dr_result = res\<rparr>"
  using assms
  by (auto simp: apply_locked_def Let_def om_find_insert split: option.splits prod.splits if_splits)

text \<open>A command touches the record of its own client only, and never lowers the request id.\<close>

lemma apply_locked_dedup:
  "client_id c \<noteq> cl \<Longrightarrow> om_find (dedup (snd (apply_locked c s))) cl = om_find (dedup s) cl"
  "om_find (dedup s) cl = Some r \<Longrightarrow>
     om_find (dedup (snd (apply_locked c s))) cl = Some r \<or>
     (client_id c = cl \<and> dr_request_id r < request_id c \<and>
      (\<exists>res. om_find (dedup (snd (apply_locked c s))) cl = Some \<lparr>dr_request_id = request_id c, dr_result = res\<rparr>))"
proof -
  obtain res s' where new: "apply_new_request_locked c s = (res, s')" by fastforce
  note d = apply_new_request_spec(3) [OF new]
  show "client_id c \<noteq> cl \<Longrightarrow> om_find (dedup (snd (apply_locked c s))) cl = om_find (dedup s) cl"
    by (auto simp: apply_locked_def Let_def new d om_find_insert split: option.splits)
  show "om_find (dedup s) cl = Some r \<Longrightarrow>
     om_find (dedup (snd (apply_locked c s))) cl = Some r \<or>
     (client_id c = cl \<and> dr_request_id r < request_id c \<and>
      (\<exists>res. om_find (dedup (snd (apply_locked c s))) cl = Some \<lparr>dr_request_id = request_id c, dr_result = res\<rparr>))"
    by (auto simp: apply_locked_def Let_def new d om_find_insert split: option.splits)
qed

lemma apply_all_simps [simp]:
  "apply_all [] s = s" "apply_all (c # cs) s = apply_all cs (snd (apply_locked c s))"
  by (simp_all add: apply_all_def)

lemma apply_all_append: "apply_all (cs @ ds) s = apply_all ds (apply_all cs s)"
  by (simp add: apply_all_def)

lemma dedup_monotone:
  "om_find (dedup s) cl = Some r \<Longrightarrow>
     \<exists>r'. om_find (dedup (apply_all cs s)) cl = Some r' \<and> dr_request_id r \<le> dr_request_id r'"
proof (induction cs arbitrary: s r)
  case (Cons c cs)
  obtain r1 where "om_find (dedup (snd (apply_locked c s))) cl = Some r1"
    and "dr_request_id r \<le> dr_request_id r1"
    using apply_locked_dedup(2) [OF Cons.prems, of c] by fastforce
  then show ?case using Cons.IH by (fastforce intro: order_trans)
qed simp

lemma dedup_stays:
  "om_find (dedup s) cl = Some r \<Longrightarrow>
   \<forall>c\<in>set cs. client_id c = cl \<longrightarrow> request_id c \<le> dr_request_id r \<Longrightarrow>
     om_find (dedup (apply_all cs s)) cl = Some r"
proof (induction cs arbitrary: s)
  case (Cons c cs)
  then have "om_find (dedup (snd (apply_locked c s))) cl = Some r"
    using apply_locked_dedup(2) [OF Cons.prems(1), of c] by fastforce
  then show ?case using Cons by simp
qed simp

section \<open>Counting increments\<close>

definition incr_of :: "string \<Rightarrow> u64 \<Rightarrow> Command \<Rightarrow> bool" where
  "incr_of k cl c \<longleftrightarrow> cmd_type c = kIncr \<and> cmd_key c = k \<and> client_id c = cl \<and> request_id c \<noteq> 0"

definition last_id :: "StateData \<Rightarrow> u64 \<Rightarrow> u64" where
  "last_id s cl = (case om_find (dedup s) cl of None \<Rightarrow> 0 | Some r \<Rightarrow> dr_request_id r)"

definition counter :: "StateData \<Rightarrow> string \<Rightarrow> int option" where
  "counter s k = counter_of (om_find (kv s) k)"

lemma apply_locked_kv_other:
  "cmd_key c \<noteq> k \<Longrightarrow> om_find (kv (snd (apply_locked c s))) k = om_find (kv s) k"
proof -
  assume k: "cmd_key c \<noteq> k"
  obtain res s' where new: "apply_new_request_locked c s = (res, s')" by fastforce
  show ?thesis
    using apply_new_request_spec(2) [OF new, of k] k
    by (auto simp: apply_locked_def Let_def new split: option.splits)
qed

lemma incr_duplicate:
  "incr_of k cl c \<Longrightarrow> cl \<noteq> 0 \<Longrightarrow> request_id c = last_id s cl \<Longrightarrow> snd (apply_locked c s) = s"
  by (auto simp: incr_of_def last_id_def apply_locked_def is_write_def Let_def split: option.splits)

lemma incr_fresh:
  assumes "incr_of k cl c" and "cl \<noteq> 0" and "last_id s cl < request_id c"
    and "counter s k = Some v" and "int64_range (v + 1)"
  shows "counter (snd (apply_locked c s)) k = Some (v + 1)"
    and "last_id (snd (apply_locked c s)) cl = request_id c"
proof -
  let ?s = "s\<lparr>kv := om_insert k (to_string_int (v + 1)) (kv s)\<rparr>"
  let ?r = "ApplyResult_integer_value (of_int (v + 1))"
  have new: "apply_new_request_locked c s = (?r, ?s)"
    using assms by (simp add: apply_counter incr_of_def counter_def)
  have "apply_locked c s =
      (?r, ?s\<lparr>dedup := om_insert cl \<lparr>dr_request_id = request_id c, dr_result = ?r\<rparr> (dedup s)\<rparr>)"
    using assms(1-3) new
    by (auto simp: apply_locked_def incr_of_def is_write_def last_id_def Let_def split: option.splits)
  then show "counter (snd (apply_locked c s)) k = Some (v + 1)"
    and "last_id (snd (apply_locked c s)) cl = request_id c"
    using int_text_to_string_int [OF assms(5)]
    by (simp_all add: counter_def counter_of_def last_id_def om_find_insert)
qed

definition request_ids :: "u64 \<Rightarrow> Command list \<Rightarrow> u64 list" where
  "request_ids cl cs = map request_id (filter (\<lambda>c. client_id c = cl) cs)"

lemma increments_counted_from:
  assumes "cl \<noteq> 0"
  shows "\<forall>c\<in>set cs. incr_of k cl c \<or> client_id c \<noteq> cl \<and> cmd_key c \<noteq> k \<Longrightarrow>
    sorted (last_id s cl # request_ids cl cs) \<Longrightarrow> counter s k = Some v \<Longrightarrow>
    int64_range (v + int (card (set (request_ids cl cs) - {last_id s cl}))) \<Longrightarrow>
    counter (apply_all cs s) k = Some (v + int (card (set (request_ids cl cs) - {last_id s cl})))"
proof (induction cs arbitrary: s v)
  case Nil
  then show ?case by (simp add: request_ids_def)
next
  case (Cons c cs)
  let ?s = "snd (apply_locked c s)" and ?p = "last_id s cl"
  consider (other) "client_id c \<noteq> cl" "cmd_key c \<noteq> k"
    | (dup) "incr_of k cl c" "request_id c = ?p"
    | (new) "incr_of k cl c" "?p < request_id c"
    using Cons.prems(1,2) by (fastforce simp: request_ids_def incr_of_def)
  then show ?case
  proof cases
    case other
    then have "last_id ?s cl = ?p" "counter ?s k = counter s k"
      by (simp_all add: last_id_def counter_def apply_locked_dedup(1) apply_locked_kv_other)
    with other Cons show ?thesis by (simp add: request_ids_def)
  next
    case dup
    then have "?s = s" using incr_duplicate assms by blast
    moreover have "request_ids cl (c # cs) = ?p # request_ids cl cs"
      using dup by (simp add: request_ids_def incr_of_def)
    ultimately show ?thesis using Cons by simp
  next
    case new
    let ?q = "request_id c" and ?ids = "request_ids cl cs"
    have ids: "request_ids cl (c # cs) = ?q # ?ids"
      using new by (simp add: request_ids_def incr_of_def)
    have notin: "?p \<notin> set (?q # ?ids)" using Cons.prems(2) new(2) ids by fastforce
    then have "set (request_ids cl (c # cs)) - {?p} = insert ?q (set ?ids - {?q})"
      using ids by auto
    then have card: "card (set (request_ids cl (c # cs)) - {?p}) = Suc (card (set ?ids - {?q}))"
      by (simp add: card.insert_remove)
    have r: "int64_range v" using Cons.prems(3) counter_of_range by (simp add: counter_def)
    then have "int64_range (v + 1)" using Cons.prems(4) card by (simp add: int64_range_def)
    note st = incr_fresh [OF new(1) assms new(2) Cons.prems(3) this]
    show ?thesis
      using Cons.IH [of ?s "v + 1"] Cons.prems st ids card by (simp add: algebra_simps)
  qed
qed

section \<open>Invariants\<close>

definition result_fits :: "nat \<Rightarrow> ApplyResult \<Rightarrow> bool" where
  "result_fits n res \<longleftrightarrow> length (res_value res) \<le> n \<and> result_payload_ok res"

text \<open>
  The state between two commands: keys and values within the field limit, dedup records of real
  clients and requests whose recorded result has a text within the limit too. The limit is at
  least 26, the longest text the machine records, and at most 1 GiB; the configuration bounds
  it by 64 and 1 GiB.
\<close>

definition state_ok :: "nat \<Rightarrow> StateData \<Rightarrow> bool" where
  "state_ok n s \<longleftrightarrow>
     om_invar (kv s) \<and> om_invar (dedup s) \<and>
     (\<forall>(k, v)\<in>set (kv s). length k \<le> n \<and> length v \<le> n) \<and>
     (\<forall>(cl, r)\<in>set (dedup s). cl \<noteq> 0 \<and> dr_request_id r \<noteq> 0 \<and> result_fits n (dr_result r))"

definition machine_ok :: "'snap KvStateMachine \<Rightarrow> bool" where
  "machine_ok m \<longleftrightarrow>
     26 \<le> max_field_size m \<and> max_field_size m \<le> 2 ^ 30 \<and>
     state_ok (max_field_size m) (state m) \<and> om_invar (recent_results m) \<and>
     length (recent_results m) \<le> kMaximumCachedResults \<and>
     (\<forall>(i, res)\<in>set (recent_results m). result_fits (max 66 (max_field_size m)) res)"

lemma length_to_string_nat: "n < 10 ^ d \<Longrightarrow> 0 < d \<Longrightarrow> length (to_string_nat n) \<le> d"
proof (induction n arbitrary: d rule: to_string_nat.induct)
  case (1 n)
  show ?case
  proof (cases "n < 10")
    case True
    then show ?thesis using 1(3) by (simp add: to_string_nat.simps [of n])
  next
    case False
    then obtain d' where d: "d = Suc d'" "0 < d'" using 1(2,3) by (cases d; cases "d - 1") auto
    then have "n div 10 < 10 ^ d'" using 1(2) by auto
    then have "length (to_string_nat (n div 10)) \<le> d'" using 1(1) False d by simp
    then show ?thesis using False d by (simp add: to_string_nat.simps [of n])
  qed
qed

lemma length_to_string_int: "int64_range v \<Longrightarrow> length (to_string_int v) \<le> 20"
proof -
  assume r: "int64_range v"
  have "length (to_string_nat n) \<le> 19" if "n \<le> 2 ^ 63" for n
    using length_to_string_nat [of n 19] that by simp
  moreover have "nat v \<le> 2 ^ 63" "nat (- v) \<le> 2 ^ 63"
    using r by (auto simp: int64_range_def nat_le_iff)
  ultimately show ?thesis by (fastforce simp: to_string_int_def)
qed

lemma result_fits_simps [simp]:
  "result_fits n ApplyResult_ok" "result_fits n (ApplyResult_integer_value i)"
  "result_fits n (ApplyResult_error code msg) \<longleftrightarrow> length msg \<le> n"
  by (simp_all add: result_fits_def result_payload_ok_def ApplyResult_ok_def
      ApplyResult_integer_value_def ApplyResult_error_def)

lemma result_fits_mono: "result_fits a res \<Longrightarrow> a \<le> b \<Longrightarrow> result_fits b res"
  by (simp add: result_fits_def)

lemma spec_write_fits:
  "spec_write t v old = (res, new) \<Longrightarrow> length v \<le> n \<Longrightarrow> (\<And>x. old = Some x \<Longrightarrow> length x \<le> n) \<Longrightarrow> 26 \<le> n \<Longrightarrow>
     result_fits 26 res \<and> (\<forall>x. new = Some x \<longrightarrow> length x \<le> n)"
  by (cases t) (auto simp: spec_write_def spec_count_def dest!: length_to_string_int
      split: option.splits if_splits)

lemma apply_new_request_invar:
  "om_invar (kv s) \<Longrightarrow> om_invar (kv (snd (apply_new_request_locked c s)))"
  by (cases "cmd_type c")
    (auto simp: apply_new_request_locked_def Let_def split: option.splits if_splits)

lemma state_ok_find:
  "state_ok n s \<Longrightarrow> om_find (kv s) k = Some v \<Longrightarrow> length k \<le> n \<and> length v \<le> n"
  "state_ok n s \<Longrightarrow> om_find (dedup s) cl = Some r \<Longrightarrow>
     cl \<noteq> 0 \<and> dr_request_id r \<noteq> 0 \<and> result_fits n (dr_result r)"
  by (auto simp: state_ok_def dest!: om_find_in_set)

text \<open>The invariant in terms of lookups, the form in which the operations preserve it.\<close>

lemma state_ok_iff_find:
  "state_ok n s \<longleftrightarrow>
     om_invar (kv s) \<and> om_invar (dedup s) \<and>
     (\<forall>k v. om_find (kv s) k = Some v \<longrightarrow> length k \<le> n \<and> length v \<le> n) \<and>
     (\<forall>cl r. om_find (dedup s) cl = Some r \<longrightarrow>
        cl \<noteq> 0 \<and> dr_request_id r \<noteq> 0 \<and> result_fits n (dr_result r))"
proof (cases "om_invar (kv s) \<and> om_invar (dedup s)")
  case True
  then have "om_find (kv s) k = Some v \<longleftrightarrow> (k, v) \<in> set (kv s)"
    "om_find (dedup s) cl = Some r \<longleftrightarrow> (cl, r) \<in> set (dedup s)" for k v cl r
    by (simp_all add: om_find_Some_iff)
  then show ?thesis using True by (simp add: state_ok_def Ball_def)
qed (auto simp: state_ok_def)

lemma apply_new_request_ok:
  assumes "state_ok n s" and "length (cmd_key c) \<le> n" and "length (cmd_value c) \<le> n" and "26 \<le> n"
    and "apply_new_request_locked c s = (res, s')"
  shows "state_ok n s' \<and> result_fits n res"
proof -
  note f = apply_new_request_spec [OF assms(5)]
  have w: "result_fits n res \<and> (\<forall>x. om_find (kv s') (cmd_key c) = Some x \<longrightarrow> length x \<le> n)"
    using spec_write_fits [OF f(1) assms(3)] state_ok_find(1) [OF assms(1)] assms(4)
    by (blast intro: result_fits_mono)
  have "om_invar (kv s')" using apply_new_request_invar [of s c] assms by (simp add: state_ok_def)
  moreover have "length k \<le> n \<and> length v \<le> n" if "om_find (kv s') k = Some v" for k v
    using that w f(2) [of k] assms(1,2) state_ok_find(1) by (cases "k = cmd_key c") auto
  ultimately show ?thesis using assms(1) f(3) w by (simp add: state_ok_iff_find)
qed

lemma apply_locked_ok:
  assumes "state_ok n s" and "length (cmd_key c) \<le> n" and "length (cmd_value c) \<le> n" and "26 \<le> n"
  shows "state_ok n (snd (apply_locked c s)) \<and> result_fits (max 66 n) (fst (apply_locked c s))"
proof -
  obtain res s' where new: "apply_new_request_locked c s = (res, s')" by fastforce
  have ok: "state_ok n s'" "result_fits n res" using apply_new_request_ok [OF assms new] by auto
  have ins: "state_ok n (s'\<lparr>dedup := om_insert (client_id c)
      \<lparr>dr_request_id = request_id c, dr_result = res\<rparr> (dedup s')\<rparr>)"
    if "client_id c \<noteq> 0" "request_id c \<noteq> 0"
    using that ok by (auto simp: state_ok_iff_find om_find_insert split: if_splits)
  show ?thesis
    using assms(1) ok ins result_fits_mono [of n _ "max 66 n"] state_ok_find(2) [OF assms(1)]
    by (auto simp: apply_locked_def new Let_def split: option.splits)
qed

section \<open>Committing\<close>

text \<open>The texts of decoding errors are short.\<close>

definition short_fail :: "exn + 'a \<Rightarrow> bool" where
  "short_fail m \<longleftrightarrow> (\<forall>e. m = Inl e \<longrightarrow> length (what e) \<le> 38)"

lemma short_fail_bindE: "short_fail m \<Longrightarrow> (\<And>x. short_fail (f x)) \<Longrightarrow> short_fail (bindE m f)"
  by (auto simp: short_fail_def bindE_eq_Inl_iff)

lemma short_fail_Inr: "short_fail (Inr x)"
  by (simp add: short_fail_def)

lemma short_fail_guardE: "length (what e) \<le> 38 \<Longrightarrow> short_fail (guardE b e)"
  by (simp add: short_fail_def guardE_def)

lemmas short_fail_basic = short_fail_bindE short_fail_Inr short_fail_guardE

lemma short_fail_gets:
  "short_fail (get_u8 r)" "short_fail (get_u16 r)" "short_fail (get_u32 r)" "short_fail (get_u64 r)"
  "short_fail (get_bytes r n)"
  unfolding get_u8_def get_u16_def get_u32_def get_u64_def get_bytes_def require_bytes_def
  by (intro short_fail_basic; simp)+

lemma short_fail_get_string: "short_fail (get_string r n)"
  unfolding get_string_def require_bytes_def case_prod_beta
  by (intro short_fail_basic short_fail_gets; simp)

lemma short_fail_decode_command: "short_fail (decode_command b n)"
  unfolding decode_command_def decode_command_bytes_def new_reader_at bindE_Inr expect_magic_def
    require_end_def case_prod_beta
  by (intro short_fail_basic short_fail_gets short_fail_get_string; simp)

lemma commit_outcome_ok:
  assumes "machine_ok m"
  shows "state_ok (max_field_size m) (snd (commit_outcome data m)) \<and>
    result_fits (max 66 (max_field_size m)) (fst (commit_outcome data m))"
proof (cases "decode_command data (max_field_size m)")
  case (Inl e)
  then have "length (what e) \<le> 38" using short_fail_decode_command by (simp add: short_fail_def)
  then show ?thesis using Inl assms by (simp add: commit_outcome_def machine_ok_def)
next
  case (Inr c)
  then have "length (cmd_key c) \<le> max_field_size m \<and> length (cmd_value c) \<le> max_field_size m"
    using decode_command_inv by (auto simp: decode_command_def)
  then show ?thesis
    using Inr assms apply_locked_ok [of "max_field_size m" "state m" c]
    by (simp add: commit_outcome_def machine_ok_def)
qed

lemma evict_results_drop: "evict_results m = drop (length m - kMaximumCachedResults) m"
proof (induction m rule: evict_results.induct)
  case (1 m)
  then show ?case
    by (subst evict_results.simps) (cases m; auto simp: Suc_diff_le less_Suc_eq_le)
qed

lemma om_invar_drop: "om_invar m \<Longrightarrow> om_invar (drop n m)"
  by (simp add: om_invar_def flip: drop_map)

lemma commit_result:
  "fst (commit i data m) = encode_result (fst (commit_outcome data m))"
  "snd (commit i data m) =
     m\<lparr>state := (snd (commit_outcome data m))\<lparr>sd_last_commit_index := i\<rparr>,
       recent_results := evict_results (om_insert i (fst (commit_outcome data m)) (recent_results m))\<rparr>"
  by (simp_all add: commit_def split_def Let_def)

lemma state_ok_index [simp]: "state_ok n (s\<lparr>sd_last_commit_index := i\<rparr>) = state_ok n s"
  by (simp add: state_ok_def)

lemma abs_state_index [simp]: "abs_state (s\<lparr>sd_last_commit_index := i\<rparr>) = abs_state s"
  by (simp add: abs_state_def)

lemma commit_machine_ok [inv_intros]:
  assumes "machine_ok m"
  shows "machine_ok (snd (commit i data m))"
proof -
  let ?res = "fst (commit_outcome data m)"
  let ?rr = "om_insert i ?res (recent_results m)"
  have ok: "state_ok (max_field_size m) (snd (commit_outcome data m))" "result_fits (max 66 (max_field_size m)) ?res"
    using commit_outcome_ok [OF assms] by auto
  have "om_invar ?rr" using assms by (auto simp: machine_ok_def)
  moreover have "\<forall>(i, res)\<in>set ?rr. result_fits (max 66 (max_field_size m)) res"
    using assms(1) ok(2) set_om_insert_subset [of i ?res "recent_results m"]
    by (fastforce simp: machine_ok_def)
  ultimately show ?thesis
    using ok(1) assms by (auto simp: machine_ok_def commit_result evict_results_drop om_invar_drop
        kMaximumCachedResults_def dest!: in_set_dropD)
qed

lemma commit_config_machine_ok [inv_intros]: "machine_ok m \<Longrightarrow> machine_ok (commit_config i m)"
  by (simp add: machine_ok_def commit_config_def)

lemma take_result_machine_ok [inv_intros]: "machine_ok m \<Longrightarrow> machine_ok (snd (take_result i m))"
  by (auto simp: machine_ok_def take_result_def om_erase_def split: option.splits
      intro: le_trans [OF length_filter_le])

text \<open>Encoding never fails on results the machine produces, and the client can read them.\<close>

lemma encode_result_fits:
  assumes "result_fits n res" and "n < 2 ^ 32"
  obtains b where "encode_result res = Inr b" and "decode_result b n = Inr res"
proof
  show e: "encode_result res = Inr (result_image res)"
    using assms encode_result_bytes_image [of res "result_image res"]
    by (simp add: encode_result_def vector_to_buffer_def result_fits_def)
  show "decode_result (result_image res) n = Inr res"
    using assms decode_result_image [of res n] by (simp add: decode_result_def result_fits_def)
qed

lemma commit_all_simps [simp]:
  "commit_all [] m = m" "commit_all ((i, data) # es) m = commit_all es (snd (commit i data m))"
  by (simp_all add: commit_all_def)

lemma commit_all_machine_ok [inv_intros]:
  "machine_ok m \<Longrightarrow> machine_ok (commit_all es m)"
proof (induction es arbitrary: m)
  case (Cons e es)
  then show ?case using commit_machine_ok [of m] by (cases e) (simp add: commit_result(2))
qed simp

text \<open>A cached result survives the following commits as long as the cache is not full of newer ones.\<close>

lemma commit_appends:
  assumes "\<forall>k\<in>fst ` set (recent_results m). k < i"
  shows "recent_results (snd (commit i data m)) =
    drop (Suc (length (recent_results m)) - kMaximumCachedResults)
      (recent_results m @ [(i, fst (commit_outcome data m))])"
  using assms by (simp add: commit_result evict_results_drop om_insert_append)

lemma commit_all_keeps_result:
  assumes "recent_results m = ys @ (j, res) # xs" and "sorted_wrt (<) (map fst es)"
    and "\<forall>i\<in>fst ` set es. \<forall>k\<in>fst ` set (recent_results m). k < i"
    and "length xs + length es < kMaximumCachedResults"
  shows "\<exists>ys' xs'. recent_results (commit_all es m) = ys' @ (j, res) # xs'"
  using assms
proof (induction es arbitrary: m ys xs)
  case (Cons e es)
  obtain i data where e: "e = (i, data)" by fastforce
  let ?m = "snd (commit i data m)" and ?r = "fst (commit_outcome data m)"
  let ?n = "Suc (length (recent_results m)) - kMaximumCachedResults"
  have app: "recent_results ?m = drop ?n (recent_results m @ [(i, ?r)])"
    using Cons.prems(3) e by (intro commit_appends) simp
  have "?n \<le> length ys" using Cons.prems(1,4) by simp
  then have rr: "recent_results ?m = drop ?n ys @ (j, res) # (xs @ [(i, ?r)])"
    using app Cons.prems(1) by simp
  have "fst ` set (recent_results ?m) \<subseteq> insert i (fst ` set (recent_results m))"
    using app by (auto dest!: in_set_dropD)
  then have "\<forall>i\<in>fst ` set es. \<forall>k\<in>fst ` set (recent_results ?m). k < i"
    using Cons.prems(2,3) e by (fastforce simp: image_iff)
  then show ?case using Cons.IH [OF rr] Cons.prems(2,4) e by simp
qed auto

lemma om_find_middle: "om_invar (ys @ (j, res) # xs) \<Longrightarrow> om_find (ys @ (j, res) # xs) j = Some res"
  by (simp add: om_find_Some_iff)

section \<open>Properties\<close>

text \<open>
  C33. The parser of stored counters accepts exactly the decimal numerals with an optional sign whose
  value fits a signed 64-bit integer, including the most negative one, and returns that value; the
  accumulator never wraps around.
\<close>

theorem parse_int64_exact: "map_option sint (parse_int64 s) = int_text s"
  by (cases "int_text s") (simp_all add: parse_int64_int_text sint_of_int64 int_text_range)

text \<open>Every integer the machine stores is read back as the same integer.\<close>

theorem parse_int64_to_string: "parse_int64 (to_string_int (sint i)) = Some i"
  by (simp add: parse_int64_int_text int_text_to_string_int)

text \<open>
  C2. Refinement: one application of a command in the code is one step of the specification, a
  partial map with mathematical counters and one remembered request per client, with the same
  result on every branch (writes, counters with their type and range errors, barriers, missing
  request ids, repeated and stale requests).
\<close>

theorem apply_locked_refines:
  "(fst (apply_locked c s), abs_state (snd (apply_locked c s))) = spec_apply c (abs_state s)"
  by (simp add: apply_locked_spec map_prod_def split_def)

text \<open>
  C3. A retried write is applied once: after a client's write has been applied, and after any further
  commands in which that client sent nothing newer, applying the same write again changes nothing
  and returns the result of the first application.
\<close>

theorem retried_write_applied_once:
  assumes "is_write (cmd_type c)" and "client_id c \<noteq> 0" and "request_id c \<noteq> 0"
    and "\<forall>r. om_find (dedup s) (client_id c) = Some r \<longrightarrow> dr_request_id r \<le> request_id c"
    and "apply_locked c s = (res, s')"
    and "\<forall>c'\<in>set cs. client_id c' = client_id c \<longrightarrow> request_id c' \<le> request_id c"
  shows "apply_locked c (apply_all cs s') = (res, apply_all cs s')"
proof -
  have "om_find (dedup (apply_all cs s')) (client_id c)
      = Some \<lparr>dr_request_id = request_id c, dr_result = res\<rparr>"
    using apply_locked_records [OF assms(1-5)] assms(6) by (intro dedup_stays) simp_all
  then show ?thesis using apply_locked_hit(1) [OF assms(1-3)] by simp
qed

definition example_incr :: "u64 \<Rightarrow> Command" where
  "example_incr rid = \<lparr>version = 1, cmd_type = kIncr, cmd_key = ''n'', cmd_value = '''',
     client_id = 7, request_id = rid\<rparr>"

definition example_set :: Command where
  "example_set = \<lparr>version = 1, cmd_type = kSet, cmd_key = ''k'', cmd_value = ''v'',
     client_id = 8, request_id = 5\<rparr>"

theorem retried_write_applied_once_witness:
  "let (res, s') = apply_locked (example_incr 1) initial_state in
     res = ApplyResult_integer_value 1 \<and>
     apply_locked (example_incr 1) (apply_all [example_set] s') = (res, apply_all [example_set] s')"
proof -
  obtain res s' where r: "apply_locked (example_incr 1) initial_state = (res, s')" by fastforce
  then have "res = ApplyResult_integer_value 1"
    by (auto simp: apply_locked_def apply_new_request_locked_def is_write_def example_incr_def
        initial_state_def Let_def)
  then show ?thesis
    using retried_write_applied_once [OF _ _ _ _ r, of "[example_set]"] r
    by (simp add: example_incr_def example_set_def initial_state_def is_write_def)
qed

text \<open>
  Nothing old is ever applied: once a client's request has been recorded, no later delivery from
  that client with the same or a smaller request id changes the state, whatever was applied in
  between.
\<close>

theorem old_request_never_applied:
  assumes "om_find (dedup s) (client_id c) = Some r" and "request_id c \<le> dr_request_id r"
    and "is_write (cmd_type c)" and "client_id c \<noteq> 0"
  shows "snd (apply_locked c (apply_all cs s)) = apply_all cs s"
proof (cases "request_id c = 0")
  case True
  then show ?thesis using assms(3,4) by (simp add: apply_locked_def)
next
  case False
  obtain r' where "om_find (dedup (apply_all cs s)) (client_id c) = Some r'"
    and "dr_request_id r \<le> dr_request_id r'"
    using dedup_monotone [OF assms(1)] by blast
  then show ?thesis using apply_locked_hit(2) [OF assms(3,4) False] assms(2) by (simp add: order_trans)
qed

theorem old_request_never_applied_witness:
  "let s = apply_all [example_incr 2] initial_state in
     snd (apply_locked (example_incr 1) (apply_all [example_set] s)) = apply_all [example_set] s"
proof -
  let ?c = "example_incr 1" and ?s = "snd (apply_locked (example_incr 2) initial_state)"
  have "\<exists>res. om_find (dedup ?s) (client_id ?c) = Some \<lparr>dr_request_id = 2, dr_result = res\<rparr>"
    using apply_locked_records [of "example_incr 2" initial_state]
    by (cases "apply_locked (example_incr 2) initial_state")
      (simp add: example_incr_def initial_state_def is_write_def)
  then obtain res where rec: "om_find (dedup ?s) (client_id ?c) = Some \<lparr>dr_request_id = 2, dr_result = res\<rparr>" ..
  have "request_id ?c \<le> 2" "is_write (cmd_type ?c)" "client_id ?c \<noteq> 0"
    by (simp_all add: example_incr_def is_write_def word_le_nat_alt)
  then show ?thesis using old_request_never_applied [OF rec, of "[example_set]"] by simp
qed

text \<open>
  C5. No increment is lost or counted twice: a client that numbers its increments of a key in
  increasing order and delivers each one any number of times, interleaved with any commands of
  others on other keys, advances the counter by exactly the number of distinct requests, as long
  as the result is representable.
\<close>

theorem increments_counted_once:
  assumes "cl \<noteq> 0" and "om_find (dedup s) cl = None" and "counter s k = Some v"
    and "\<forall>c\<in>set cs. incr_of k cl c \<or> client_id c \<noteq> cl \<and> cmd_key c \<noteq> k"
    and "sorted (request_ids cl cs)"
    and "int64_range (v + int (card (set (request_ids cl cs))))"
  shows "counter (apply_all cs s) k = Some (v + int (card (set (request_ids cl cs))))"
proof -
  have "last_id s cl = 0" using assms(2) by (simp add: last_id_def)
  moreover have "0 \<notin> set (request_ids cl cs)"
    using assms(4) by (auto simp: request_ids_def incr_of_def)
  ultimately show ?thesis
    using increments_counted_from [OF assms(1,4), of s v] assms(3,5,6) by simp
qed

theorem increments_counted_once_witness:
  "counter (apply_all [example_incr 1, example_incr 1, example_set, example_incr 2] initial_state) ''n''
     = Some 2"
  using increments_counted_once [of 7 initial_state "''n''" 0
      "[example_incr 1, example_incr 1, example_set, example_incr 2]"]
  by (simp add: example_incr_def example_set_def initial_state_def incr_of_def request_ids_def
      counter_def int64_range_def)

text \<open>
  A command that was encoded by a client and fits the field limit is what the machine applies
  when its log entry is committed: the state is the specified successor at the new index, and the
  buffer that is returned decodes to the specified result.
\<close>

theorem commit_encoded_command:
  assumes "encode_command c = Inr data" and "machine_ok m"
    and "length (cmd_key c) \<le> max_field_size m" and "length (cmd_value c) \<le> max_field_size m"
  shows "\<exists>b. fst (commit i data m) = Inr b \<and>
      decode_result b (max 66 (max_field_size m)) = Inr (fst (spec_apply c (abs_state (state m)))) \<and>
      abs_state (state (snd (commit i data m))) = snd (spec_apply c (abs_state (state m))) \<and>
      last_commit_index (snd (commit i data m)) = i \<and> machine_ok (snd (commit i data m))"
proof -
  have "decode_command data (max_field_size m) = Inr c"
    using assms decode_command_image [of c "max_field_size m"]
    by (auto simp: decode_command_def encode_command_def vector_to_buffer_def exn_simps
        encode_command_bytes_image)
  then have out: "commit_outcome data m = apply_locked c (state m)"
    by (simp add: commit_outcome_def)
  obtain b where "encode_result (fst (commit_outcome data m)) = Inr b"
    and "decode_result b (max 66 (max_field_size m)) = Inr (fst (commit_outcome data m))"
    using encode_result_fits [of "max 66 (max_field_size m)" "fst (commit_outcome data m)"] commit_outcome_ok [OF assms(2)] assms(2)
    by (auto simp: machine_ok_def)
  then show ?thesis
    using commit_machine_ok [OF assms(2), of i data]
    by (simp add: commit_result out apply_locked_spec last_commit_index_def)
qed

definition example_machine :: "nat KvStateMachine" where
  "example_machine = \<lparr>state_file = ''s'', snapshot_file = ''t'', max_field_size = 64,
     state = initial_state, recent_results = [], sm_last_snapshot = None\<rparr>"

lemma example_machine_ok: "machine_ok example_machine"
  by (simp add: machine_ok_def example_machine_def state_ok_def initial_state_def)

theorem commit_encoded_command_witness:
  "\<exists>data b. encode_command example_set = Inr data \<and> fst (commit 4 data example_machine) = Inr b \<and>
     decode_result b 66 = Inr (fst (spec_apply example_set (abs_state initial_state)))"
proof -
  have "encode_command example_set = Inr (command_image example_set)"
    using encode_command_bytes_image [of example_set "command_image example_set"]
    by (simp add: encode_command_def vector_to_buffer_def example_set_def kCommandVersion_def)
  then show ?thesis
    using commit_encoded_command [of example_set "command_image example_set" example_machine 4]
      example_machine_ok
    by (auto simp: example_machine_def example_set_def)
qed

text \<open>
  C27. A committed entry that is not a well-formed command changes neither the keys nor the dedup
  records; it still advances the applied index, and its result, an error with the decoder's
  message, reaches the caller.
\<close>

theorem commit_malformed_entry:
  assumes "decode_command data (max_field_size m) = Inl e"
  shows "state (snd (commit i data m)) = (state m)\<lparr>sd_last_commit_index := i\<rparr> \<and>
    (\<exists>b. fst (commit i data m) = Inr b \<and>
       decode_result b 66 = Inr (ApplyResult_error kBadCommand (''invalid replicated command: '' @ what e)))"
proof -
  let ?res = "ApplyResult_error kBadCommand (''invalid replicated command: '' @ what e)"
  have "length (what e) \<le> 38"
    using assms short_fail_decode_command by (auto simp: short_fail_def)
  then obtain b where "encode_result ?res = Inr b" "decode_result b 66 = Inr ?res"
    using encode_result_fits [of 66 ?res] by auto
  then show ?thesis using assms by (simp add: commit_result commit_outcome_def)
qed

theorem commit_malformed_entry_witness:
  "state (snd (commit 4 [] example_machine)) = initial_state\<lparr>sd_last_commit_index := 4\<rparr>"
proof -
  have "decode_command [] (max_field_size example_machine) =
      Inl (DecodeError ''truncated binary payload'')"
    by (simp add: decode_command_def decode_command_bytes_def new_reader_def expect_magic_def
        get_bytes_def require_bytes_def remaining_def kCommandMagic_def guardE_def)
  then show ?thesis using commit_malformed_entry [of "[]" example_machine _ 4]
    by (auto simp: example_machine_def)
qed

text \<open>
  The result of a commit waits in the cache for the request that produced it, through up to
  65535 later commits, and is handed out once.
\<close>

theorem result_waits_for_request:
  assumes "machine_ok m"
    and "sorted_wrt (<) (i # map fst es)" and "\<forall>k\<in>fst ` set (recent_results m). k < i"
    and "length es < kMaximumCachedResults"
  shows "let m' = commit_all es (snd (commit i data m)) in
    fst (take_result i m') = Some (fst (commit_outcome data m)) \<and>
    fst (take_result i (snd (take_result i m'))) = None"
proof -
  let ?m = "snd (commit i data m)" and ?res = "fst (commit_outcome data m)"
  let ?rr = "recent_results m"
  have app: "recent_results ?m = drop (Suc (length ?rr) - kMaximumCachedResults) (?rr @ [(i, ?res)])"
    using assms(3) by (rule commit_appends)
  then have rr: "recent_results ?m = drop (Suc (length ?rr) - kMaximumCachedResults) ?rr @ (i, ?res) # []"
    using assms(1) by (simp add: kMaximumCachedResults_def machine_ok_def)
  have "\<forall>j\<in>fst ` set es. \<forall>k\<in>fst ` set (recent_results ?m). k < j"
    using assms(2,3) app by (auto dest!: in_set_dropD) (metis fst_conv order.strict_trans image_eqI)+
  then obtain ys xs where fin: "recent_results (commit_all es ?m) = ys @ (i, ?res) # xs"
    using commit_all_keeps_result [OF rr, of es] assms(2,4) by auto
  have "machine_ok (commit_all es ?m)"
    using commit_machine_ok [OF assms(1)] by (rule commit_all_machine_ok)
  then have "om_invar (ys @ (i, ?res) # xs)" unfolding machine_ok_def fin by blast
  then have "om_find (recent_results (commit_all es ?m)) i = Some ?res"
    unfolding fin by (rule om_find_middle)
  then show ?thesis by (simp add: take_result_def om_find_erase Let_def)
qed

theorem result_waits_for_request_witness:
  "fst (take_result 4 (commit_all [(5, [])] (snd (commit 4 [] example_machine)))) =
     Some (fst (commit_outcome [] example_machine))"
  using result_waits_for_request [of example_machine 4 "[(5, [])]" "[]"] example_machine_ok
  by (simp add: example_machine_def kMaximumCachedResults_def Let_def)

end
