(* ===== verification/Posix_World.thy ===== *)
theory Posix_World
  imports Prelude
begin

text \<open>
  The operating system as the storage code sees it. A world holds the files (their contents and
  how much of them has been forced to stable storage), the renames a power loss could still undo
  because their directory has not been synced, and a script of the outcomes of the coming system calls: success, an error, a short or interrupted write, or the death of the process in
  the middle of the call. An exhausted script means that the remaining calls succeed, so a
  theorem about every script is a theorem about every finite pattern of failures and about every
  crash point. Programs over a state return normally, throw, or die; a handler sees exceptions
  only. The Windows branches of the sources are not modelled.
\<close>

section \<open>Stateful programs\<close>

datatype 'a outcome = Ret 'a | Throw exn | Died

type_synonym ('s, 'a) prog = "'s \<Rightarrow> 'a outcome \<times> 's"

definition retP :: "'a \<Rightarrow> ('s, 'a) prog" where
  "retP x s = (Ret x, s)"

definition throwP :: "exn \<Rightarrow> ('s, 'a) prog" where
  "throwP e s = (Throw e, s)"

definition bindP :: "('s, 'a) prog \<Rightarrow> ('a \<Rightarrow> ('s, 'b) prog) \<Rightarrow> ('s, 'b) prog" where
  "bindP m f s =
     (case m s of
        (Ret x, s') \<Rightarrow> f x s'
      | (Throw e, s') \<Rightarrow> (Throw e, s')
      | (Died, s') \<Rightarrow> (Died, s'))"

definition catchP :: "('s, 'a) prog \<Rightarrow> (exn \<Rightarrow> ('s, 'a) prog) \<Rightarrow> ('s, 'a) prog" where
  "catchP m h s = (case m s of (Throw e, s') \<Rightarrow> h e s' | r \<Rightarrow> r)"

definition liftP :: "exn + 'a \<Rightarrow> ('s, 'a) prog" where
  "liftP m s = (case m of Inl e \<Rightarrow> (Throw e, s) | Inr x \<Rightarrow> (Ret x, s))"

definition getP :: "('s \<Rightarrow> 'a) \<Rightarrow> ('s, 'a) prog" where
  "getP f s = (Ret (f s), s)"

definition modifyP :: "('s \<Rightarrow> 's) \<Rightarrow> ('s, unit) prog" where
  "modifyP f s = (Ret (), f s)"

lemma retP_apply [simp]: "retP x s = (Ret x, s)"
  by (simp add: retP_def)

lemma throwP_apply [simp]: "throwP e s = (Throw e, s)"
  by (simp add: throwP_def)

lemma liftP_apply [simp]: "liftP (Inl e) s = (Throw e, s)" "liftP (Inr x) s = (Ret x, s)"
  by (simp_all add: liftP_def)

lemma getP_apply [simp]: "getP f s = (Ret (f s), s)"
  by (simp add: getP_def)

lemma modifyP_apply [simp]: "modifyP f s = (Ret (), f s)"
  by (simp add: modifyP_def)

lemma bindP_eq:
  "m s = (Ret x, s') \<Longrightarrow> bindP m f s = f x s'"
  "m s = (Throw e, s') \<Longrightarrow> bindP m f s = (Throw e, s')"
  "m s = (Died, s') \<Longrightarrow> bindP m f s = (Died, s')"
  by (simp_all add: bindP_def)

lemma catchP_eq:
  "m s = (Ret x, s') \<Longrightarrow> catchP m h s = (Ret x, s')"
  "m s = (Throw e, s') \<Longrightarrow> catchP m h s = h e s'"
  "m s = (Died, s') \<Longrightarrow> catchP m h s = (Died, s')"
  by (simp_all add: catchP_def)

lemma bindP_Ret_iff:
  "bindP m f s = (Ret y, t) \<longleftrightarrow> (\<exists>x s'. m s = (Ret x, s') \<and> f x s' = (Ret y, t))"
  by (auto simp: bindP_def split: prod.splits outcome.splits)

lemma liftP_Ret_iff [simp]: "liftP m s = (Ret x, t) \<longleftrightarrow> m = Inr x \<and> t = s"
  by (cases m) auto

lemma bindP_retP [simp]: "bindP (retP x) f = f x"
  by (simp add: fun_eq_iff bindP_def)

lemma bindP_unit_ret [simp]:
  "bindP m (\<lambda>_. retP ()) = (m :: ('s, unit) prog)" "bindP m (\<lambda>_. Pair (Ret ())) = (m :: ('s, unit) prog)"
  by (auto simp: fun_eq_iff bindP_def split: prod.splits outcome.splits)

text \<open>A program over the second component of a state, for an object that uses the file system.\<close>

definition in_world :: "('w, 'a) prog \<Rightarrow> ('t \<times> 'w, 'a) prog" where
  "in_world m s = (case m (snd s) of (r, w') \<Rightarrow> (r, (fst s, w')))"

lemma in_world_apply: "m w = (r, w') \<Longrightarrow> in_world m (t, w) = (r, (t, w'))"
  by (simp add: in_world_def)

text \<open>A handler that cleans up and rethrows never turns a failure into a return.\<close>

lemma catch_rethrow_Ret_iff:
  "catchP m (\<lambda>e. bindP (c e) (\<lambda>_. throwP e)) s = (Ret x, t) \<longleftrightarrow> m s = (Ret x, t)"
  by (auto simp: catchP_def bindP_def split: prod.splits outcome.splits)

lemma bindP_assoc: "bindP (bindP m f) g = bindP m (\<lambda>x. bindP (f x) g)"
  by (auto simp: fun_eq_iff bindP_def split: prod.splits outcome.splits)

text \<open>
  A relation between the states before and after a program, whatever its outcome. It composes
  along sequencing and handling, which is how a fact about every system call becomes a fact
  about a whole routine.
\<close>

definition keeps :: "('s \<Rightarrow> 's \<Rightarrow> bool) \<Rightarrow> ('s, 'a) prog \<Rightarrow> bool" where
  "keeps R m \<longleftrightarrow> (\<forall>s. R s (snd (m s)))"

locale transition_relation =
  fixes R :: "'s \<Rightarrow> 's \<Rightarrow> bool"
  assumes refl: "R s s"
    and trans: "R s t \<Longrightarrow> R t u \<Longrightarrow> R s u"
begin

lemma keeps_retP: "keeps R (retP x)"
  by (simp add: keeps_def refl)

lemma keeps_throwP: "keeps R (throwP e)"
  by (simp add: keeps_def refl)

lemma keeps_liftP: "keeps R (liftP m)"
  by (cases m) (simp_all add: keeps_def refl)

lemma keeps_getP: "keeps R (getP f)"
  by (simp add: keeps_def refl)

lemma keeps_bindP:
  assumes "keeps R m" and "\<And>x. keeps R (f x)"
  shows "keeps R (bindP m f)"
proof -
  have "R s (snd (bindP m f s))" for s
    using assms trans unfolding keeps_def bindP_def
    by (auto split: prod.splits outcome.splits) (metis snd_conv)+
  then show ?thesis by (simp add: keeps_def)
qed

lemma keeps_catchP:
  assumes "keeps R m" and "\<And>e. keeps R (h e)"
  shows "keeps R (catchP m h)"
proof -
  have "R s (snd (catchP m h s))" for s
    using assms trans unfolding keeps_def catchP_def
    by (auto split: prod.splits outcome.splits) (metis snd_conv)+
  then show ?thesis by (simp add: keeps_def)
qed

end

section \<open>Files and system calls\<close>

type_synonym path = string

text \<open>\<^theory_text>\<open>std::filesystem::path::operator/\<close> with a relative second operand.\<close>

definition path_join :: "path \<Rightarrow> path \<Rightarrow> path" where
  "path_join d f = (if d = [] \<or> last d = CHR ''/'' then d @ f else d @ ''/'' @ f)"

text \<open>\<open>synced\<close> is the length of the prefix known to be on stable storage.\<close>

record fnode =
  content :: bytes
  synced :: nat

datatype call_result =
    Ok
  | Err string
  | Short nat
  | Eintr
  | Die nat

text \<open>
  \<open>older w p\<close> lists what the name \<open>p\<close> stood for before each rename onto it since its directory was last
  synced, the latest first: a power loss may bring any of these back.
\<close>

record world =
  files :: "path \<Rightarrow> fnode option"
  older :: "path \<Rightarrow> fnode option list"
  script :: "call_result list"

definition pop :: "world \<Rightarrow> call_result \<times> world" where
  "pop w = (case script w of [] \<Rightarrow> (Ok, w) | c # cs \<Rightarrow> (c, w\<lparr>script := cs\<rparr>))"

lemma pop_files [simp]: "files (snd (pop w)) = files w"
  by (simp add: pop_def split: list.splits)

lemma pop_older [simp]: "older (snd (pop w)) = older w"
  by (simp add: pop_def split: list.splits)

lemma pop_eq_files: "pop w = (c, w') \<Longrightarrow> files w' = files w"
  using pop_files [of w] by simp

lemma pop_empty [simp]: "script w = [] \<Longrightarrow> pop w = (Ok, w)"
  by (simp add: pop_def)

lemma pop_script_cases:
  "pop w = (c, w') \<Longrightarrow> c = Ok \<and> w' = w \<and> script w = [] \<or> script w = c # script w'"
  by (auto simp: pop_def split: list.splits)

text \<open>
  A call with no partial effect: it fails with the exception built from the error text, dies
  before its effect, or has its effect. Results that make no sense for the call are success.
\<close>

definition sys_call :: "(string \<Rightarrow> exn) \<Rightarrow> (world \<Rightarrow> world) \<Rightarrow> (world, unit) prog" where
  "sys_call err effect w =
     (case pop w of
        (Err m, w') \<Rightarrow> (Throw (err m), w')
      | (Die _, w') \<Rightarrow> (Died, w')
      | (_, w') \<Rightarrow> (Ret (), effect w'))"

definition set_file :: "path \<Rightarrow> fnode option \<Rightarrow> world \<Rightarrow> world" where
  "set_file p f w = w\<lparr>files := (files w)(p := f)\<rparr>"

definition append_file :: "path \<Rightarrow> bytes \<Rightarrow> world \<Rightarrow> world" where
  "append_file p bs w =
     (case files w p of
        None \<Rightarrow> w
      | Some f \<Rightarrow> set_file p (Some (f\<lparr>content := content f @ bs\<rparr>)) w)"

definition sync_file :: "path \<Rightarrow> world \<Rightarrow> world" where
  "sync_file p w =
     (case files w p of
        None \<Rightarrow> w
      | Some f \<Rightarrow> set_file p (Some (f\<lparr>synced := length (content f)\<rparr>)) w)"

text \<open>\<open>ftruncate\<close> cuts the file or extends it with zeros.\<close>

definition truncated_node :: "nat \<Rightarrow> fnode \<Rightarrow> fnode" where
  "truncated_node n f =
     \<lparr>content = take n (content f) @ replicate (n - length (content f)) 0, synced = min n (synced f)\<rparr>"

definition truncate_file :: "path \<Rightarrow> nat \<Rightarrow> world \<Rightarrow> world" where
  "truncate_file p n w =
     (case files w p of
        None \<Rightarrow> w
      | Some f \<Rightarrow> set_file p (Some (truncated_node n f)) w)"

text \<open>
  \<open>rename\<close> takes effect at once for every process, but reaches stable storage only with the next sync
  of the directory. (The temporary names that are created and removed are never read after a
  restart; their durability is not recorded.)
\<close>

definition rename_file :: "path \<Rightarrow> path \<Rightarrow> world \<Rightarrow> world" where
  "rename_file a b w = w\<lparr>files := (files w)(b := files w a, a := None),
     older := (older w)(b := files w b # older w b)\<rparr>"

text \<open>The directory part of a path, and \<open>fsync\<close> on a directory.\<close>

definition parent_directory :: "path \<Rightarrow> path" where
  "parent_directory p =
     (if CHR ''/'' \<in> set p
      then (let d = rev (tl (dropWhile (\<lambda>c. c \<noteq> CHR ''/'') (rev p)))
            in if d = '''' then ''/'' else d)
      else ''.'')"

definition sync_names :: "path \<Rightarrow> world \<Rightarrow> world" where
  "sync_names d w = w\<lparr>older := (\<lambda>p. if parent_directory p = d then [] else older w p)\<rparr>"

text \<open>\<open>::write\<close>: the number of bytes written, or the error.\<close>

datatype write_result = Wrote nat | Write_eintr | Write_error string

definition sys_write :: "path \<Rightarrow> bytes \<Rightarrow> (world, write_result) prog" where
  "sys_write p bs w =
     (case pop w of
        (Ok, w') \<Rightarrow> (Ret (Wrote (length bs)), append_file p bs w')
      | (Short n, w') \<Rightarrow> (Ret (Wrote (min n (length bs))), append_file p (take n bs) w')
      | (Eintr, w') \<Rightarrow> (Ret Write_eintr, w')
      | (Err m, w') \<Rightarrow> (Ret (Write_error m), w')
      | (Die n, w') \<Rightarrow> (Died, append_file p (take n bs) w'))"

lemma script_file_ops [simp]:
  "script (set_file p f w) = script w" "script (append_file p bs w) = script w"
  "script (sync_file p w) = script w" "script (truncate_file p n w) = script w"
  "script (rename_file a b w) = script w" "script (sync_names d w) = script w"
  by (simp_all add: set_file_def append_file_def sync_file_def truncate_file_def rename_file_def sync_names_def
      split: option.splits)

lemma older_file_ops [simp]:
  "older (set_file p f w) = older w" "older (append_file p bs w) = older w"
  "older (sync_file p w) = older w" "older (truncate_file p n w) = older w"
  by (simp_all add: set_file_def append_file_def sync_file_def truncate_file_def split: option.splits)

lemma older_rename_file: "older (rename_file a b w) = (older w)(b := files w b # older w b)"
  by (simp add: rename_file_def)

lemma sync_names_simps [simp]:
  "files (sync_names d w) = files w"
  "older (sync_names d w) = (\<lambda>p. if parent_directory p = d then [] else older w p)"
  by (simp_all add: sync_names_def)

lemma files_set_file [simp]: "files (set_file p f w) = (files w)(p := f)"
  by (simp add: set_file_def)

lemma files_append_file:
  "files (append_file p bs w) = (files w)(p := map_option (\<lambda>f. f\<lparr>content := content f @ bs\<rparr>) (files w p))"
  by (auto simp: append_file_def split: option.splits)

lemma files_sync_file:
  "files (sync_file p w) = (files w)(p := map_option (\<lambda>f. f\<lparr>synced := length (content f)\<rparr>) (files w p))"
  by (auto simp: sync_file_def split: option.splits)

lemma files_truncate_file:
  "files (truncate_file p n w) = (files w)
     (p := map_option (truncated_node n) (files w p))"
  by (auto simp: truncate_file_def split: option.splits)

lemma files_rename_file: "files (rename_file a b w) = (files w)(b := files w a, a := None)"
  by (simp add: rename_file_def)

text \<open>
  A power loss and the restart after it. Every name stands for its file or for one it stood for before a
  rename that was not yet synced; every file keeps its synced prefix and possibly some of what was
  written after it; what is left is on stable storage, and the calls of the restarted process are
  taken to succeed. A damage says for every name how many bytes survive and how many renames are
  lost.
\<close>

type_synonym damage = "path \<Rightarrow> nat \<times> nat"

definition survived :: "nat \<Rightarrow> fnode \<Rightarrow> fnode" where
  "survived kept f =
     (let c = take (max (synced f) kept) (content f) in \<lparr>content = c, synced = length c\<rparr>)"

definition surviving_entry :: "nat \<Rightarrow> path \<Rightarrow> world \<Rightarrow> fnode option" where
  "surviving_entry lost p w = (files w p # older w p) ! min lost (length (older w p))"

definition power_loss :: "damage \<Rightarrow> world \<Rightarrow> world" where
  "power_loss kept w =
     \<lparr>files = (\<lambda>p. map_option (survived (fst (kept p))) (surviving_entry (snd (kept p)) p w)),
      older = (\<lambda>_. []), script = []\<rparr>"

lemma power_loss_script [simp]: "script (power_loss kept w) = []"
  by (simp add: power_loss_def)

lemma power_loss_older [simp]: "older (power_loss kept w) = (\<lambda>_. [])"
  by (simp add: power_loss_def)

lemma surviving_entry_synced [simp]: "older w p = [] \<Longrightarrow> surviving_entry lost p w = files w p"
  by (simp add: surviving_entry_def)

lemma power_loss_files:
  "older w p = [] \<Longrightarrow> files (power_loss kept w) p = map_option (survived (fst (kept p))) (files w p)"
  by (simp add: power_loss_def)

lemma power_loss_synced:
  "files w p = Some f \<Longrightarrow> older w p = [] \<Longrightarrow> length (content f) \<le> synced f \<Longrightarrow>
     files (power_loss kept w) p = Some \<lparr>content = content f, synced = length (content f)\<rparr>"
  by (simp add: power_loss_def survived_def max_def Let_def)

text \<open>A name whose last rename is not synced survives as it is, or as it could have before the rename.\<close>

lemma power_loss_renamed:
  assumes "older w' p = files w p # older w p"
  shows "files (power_loss kept w') p = map_option (survived (fst (kept p))) (files w' p) \<or>
    (\<exists>kept'. files (power_loss kept w') p = files (power_loss kept' w) p)"
proof (cases "snd (kept p)")
  case 0
  then show ?thesis by (simp add: power_loss_def surviving_entry_def)
next
  case (Suc k)
  then have "files (power_loss kept w') p = files (power_loss (kept(p := (fst (kept p), k))) w) p"
    using assms by (simp add: power_loss_def surviving_entry_def)
  then show ?thesis by blast
qed

lemmas files_ops = files_append_file files_sync_file files_truncate_file files_rename_file

end
