(* ===== verification/File_Util.thy ===== *)
theory File_Util
  imports Posix_World Binary_Codec
begin

text \<open>
  Durable files, \<^verbatim>\<open>src/src/storage/file_util.{h,cpp}\<close> (the POSIX branches):
  \<open>atomic_write_file\<close> over the scripted world of \<open>Posix_World\<close>, and the checked record
  (magic, version, length, payload, checksum) in which every metadata file is stored. The
  theorems: a replaced file is old or new at every crash point and new, fully synced, on
  return; a record is read back as written; a record in which one byte was changed is refused.
\<close>

section \<open>Writing\<close>

definition io_error :: "string \<Rightarrow> path \<Rightarrow> string \<Rightarrow> exn" where
  "io_error operation p strerror = Runtime_error (operation @ '' '' @ p @ '': '' @ strerror)"

text \<open>A write uses up at least the outcome that interrupts it.\<close>

lemma sys_write_script:
  "sys_write p bs w = (Ret (Wrote n), w') \<Longrightarrow> length (script w') \<le> length (script w)"
  "sys_write p bs w = (Ret Write_eintr, w') \<Longrightarrow> length (script w') < length (script w)"
  by (auto simp: sys_write_def pop_def split: list.splits call_result.splits)

text \<open>
  The loop of \<open>write_all\<close>, the same here and in \<^verbatim>\<open>file_log_store.cpp\<close> up to the error text
  (the parameter \<open>err\<close>): a short write continues with the rest, an interrupted one is retried,
  a write of zero bytes is an error.
\<close>

function write_all :: "(string \<Rightarrow> exn) \<Rightarrow> path \<Rightarrow> bytes \<Rightarrow> (world, unit) prog" where
  "write_all err p bs w =
     (if bs = [] then (Ret (), w)
      else case sys_write p bs w of
        (Ret (Wrote n), w') \<Rightarrow>
          (if n = 0 then (Throw (Runtime_error (''short write to '' @ p)), w')
           else write_all err p (drop n bs) w')
      | (Ret Write_eintr, w') \<Rightarrow> write_all err p bs w'
      | (Ret (Write_error m), w') \<Rightarrow> (Throw (err m), w')
      | (Throw e, w') \<Rightarrow> (Throw e, w')
      | (Died, w') \<Rightarrow> (Died, w'))"
  by pat_completeness auto

termination
  by (relation "measure (\<lambda>(err, p, bs, w). length bs + length (script w))")
    (auto dest!: sys_write_script [OF sym] intro!: add_less_le_mono)

declare write_all.simps [simp del]

definition sync_fd :: "path \<Rightarrow> (world, unit) prog" where
  "sync_fd p = sys_call (io_error ''fsync'' p) (sync_file p)"

definition sync_directory :: "path \<Rightarrow> (world, unit) prog" where
  "sync_directory dir =
     bindP (sys_call (io_error ''open directory'' dir) id) (\<lambda>_.
       sys_call (io_error ''fsync directory'' dir) (sync_names dir))"

text \<open>\<^theory_text>\<open>std::filesystem::remove\<close> with an error code that is ignored.\<close>

definition remove_ignoring :: "path \<Rightarrow> (world, unit) prog" where
  "remove_ignoring p w =
     (case pop w of
        (Err _, w') \<Rightarrow> (Ret (), w')
      | (Die _, w') \<Rightarrow> (Died, w')
      | (_, w') \<Rightarrow> (Ret (), set_file p None w'))"

definition create_directories :: "path \<Rightarrow> (world, unit) prog" where
  "create_directories dir = sys_call Runtime_error id"

definition atomic_write_file :: "path \<Rightarrow> bytes \<Rightarrow> (world, unit) prog" where
  "atomic_write_file p bs =
     (let directory = parent_directory p; temporary = p @ ''.tmp'' in
      bindP (create_directories directory) (\<lambda>_.
      bindP (sys_call (io_error ''open'' temporary)
               (set_file temporary (Some \<lparr>content = [], synced = 0\<rparr>))) (\<lambda>_.
      bindP (catchP
               (bindP (write_all (io_error ''write'' temporary) temporary bs) (\<lambda>_. sync_fd temporary))
               (\<lambda>e. bindP (remove_ignoring temporary) (\<lambda>_. throwP e))) (\<lambda>_.
      bindP (catchP
               (sys_call (io_error ''rename'' p) (rename_file temporary p))
               (\<lambda>e. bindP (remove_ignoring temporary) (\<lambda>_. throwP e))) (\<lambda>_.
      sync_directory directory)))))"

section \<open>Reading\<close>

definition file_exists :: "path \<Rightarrow> (world, bool) prog" where
  "file_exists p = bindP (sys_call Runtime_error id) (\<lambda>_. getP (\<lambda>w. files w p \<noteq> None))"

definition read_file :: "path \<Rightarrow> nat \<Rightarrow> (world, bytes) prog" where
  "read_file p max_size =
     bindP (sys_call Runtime_error id) (\<lambda>_.
     bindP (getP (\<lambda>w. files w p)) (\<lambda>node.
     case node of
       None \<Rightarrow> throwP (Runtime_error (''filesystem error: cannot get file size ['' @ p @ '']''))
     | Some f \<Rightarrow>
         (if length (content f) > max_size
          then throwP (Runtime_error (''file exceeds configured limit: '' @ p))
          else
            bindP (sys_call (\<lambda>_. Runtime_error (''cannot open file: '' @ p)) id) (\<lambda>_.
            if length (content f) = 0 then retP []
            else bindP (sys_call (\<lambda>_. Runtime_error (''short read from file: '' @ p)) id) (\<lambda>_.
              retP (content f))))))"

section \<open>Checked records\<close>

definition checked_record_bytes :: "bytes \<Rightarrow> bytes \<Rightarrow> exn + bytes" where
  "checked_record_bytes magic payload =
     bindE (guardE (\<not> length payload > u32_max) (Length_error ''record payload is too large'')) (\<lambda>_.
     bindE (put_raw new_writer (Some magic) (length magic)) (\<lambda>w.
       let w = put_u16 w 1; w = put_u16 w 0; w = put_u32 w (of_nat (length payload))
       in bindE (put_raw w (Some payload) (length payload)) (\<lambda>w.
          Inr (wdata (put_u64 w (fnv1a64 (wdata w)))))))"

definition write_checked_record :: "path \<Rightarrow> bytes \<Rightarrow> bytes \<Rightarrow> (world, unit) prog" where
  "write_checked_record p magic payload =
     bindP (liftP (checked_record_bytes magic payload)) (\<lambda>bs. atomic_write_file p bs)"

definition record_overhead :: nat where
  "record_overhead = 4 + 2 + 2 + 4 + 8"

definition parse_checked_record :: "path \<Rightarrow> bytes \<Rightarrow> nat \<Rightarrow> bytes \<Rightarrow> exn + bytes" where
  "parse_checked_record p expected_magic max_payload_size bs =
     bindE (guardE (\<not> length bs < record_overhead)
              (DecodeError (''checked record is truncated: '' @ p))) (\<lambda>_.
     bindE (new_reader (Some bs) (length bs)) (\<lambda>r.
     bindE (get_bytes r (length expected_magic)) (\<lambda>(magic, r).
     bindE (guardE (magic = expected_magic)
              (DecodeError (''checked record magic mismatch: '' @ p))) (\<lambda>_.
     bindE (get_u16 r) (\<lambda>(ver, r).
     bindE (guardE (ver = 1) (DecodeError (''unsupported checked record version: '' @ p))) (\<lambda>_.
     bindE (get_u16 r) (\<lambda>(reserved, r).
     bindE (guardE (reserved = 0)
              (DecodeError (''unsupported checked record version: '' @ p))) (\<lambda>_.
     bindE (get_u32 r) (\<lambda>(payload_size, r).
     bindE (guardE (\<not> (unat payload_size > max_payload_size \<or>
                       remaining r \<noteq> unat payload_size + 8))
              (DecodeError (''invalid checked record length: '' @ p))) (\<lambda>_.
     bindE (get_bytes r (unat payload_size)) (\<lambda>(payload, r).
     bindE (get_u64 r) (\<lambda>(stored_checksum, r).
     bindE (require_end r) (\<lambda>_.
     bindE (guardE (fnv1a64 (take (length bs - 8) bs) = stored_checksum)
              (DecodeError (''checked record checksum mismatch: '' @ p))) (\<lambda>_.
     Inr payload))))))))))))))"

definition read_checked_record :: "path \<Rightarrow> bytes \<Rightarrow> nat \<Rightarrow> (world, bytes) prog" where
  "read_checked_record p expected_magic max_payload_size =
     bindP (read_file p (max_payload_size + record_overhead)) (\<lambda>bs.
     liftP (parse_checked_record p expected_magic max_payload_size bs))"

section \<open>Frames of the system calls\<close>

text \<open>Every step before the rename touches no file but the temporary one.\<close>

definition others_same :: "path \<Rightarrow> world \<Rightarrow> world \<Rightarrow> bool" where
  "others_same tmp w w' \<longleftrightarrow> (\<forall>q. q \<noteq> tmp \<longrightarrow> files w' q = files w q)"

interpretation others: transition_relation "others_same tmp" for tmp
  by unfold_locales (simp_all add: others_same_def)

lemma others_sys_call:
  assumes "\<And>w. others_same tmp w (eff w)"
  shows "keeps (others_same tmp) (sys_call err eff)"
proof -
  have "others_same tmp w (snd (sys_call err eff w))" for w
    using assms pop_files [of w] unfolding sys_call_def
    by (cases "pop w") (auto simp: others_same_def split: call_result.splits)
  then show ?thesis by (simp add: keeps_def)
qed

lemma others_effects [simp]:
  "others_same tmp w (id w)" "others_same tmp w (set_file tmp f w)"
  "others_same tmp w (sync_file tmp w)" "others_same tmp w (append_file tmp bs w)"
  by (simp_all add: others_same_def files_ops)

lemma others_sys_write: "others_same p w (snd (sys_write p bs w))"
  using pop_files [of w] unfolding sys_write_def
  by (cases "pop w") (auto simp: others_same_def files_ops split: call_result.splits)

lemma others_write_all: "others_same p w (snd (write_all err p bs w))"
proof (induction err p bs w rule: write_all.induct)
  case (1 err p bs w)
  obtain r w' where wr: "sys_write p bs w = (r, w')" by fastforce
  then have "others_same p w w'" using others_sys_write [of p w bs] by simp
  then show ?case
    using 1 wr others.trans [of p w w'] others.refl [of p w]
    by (subst write_all.simps) (auto split: outcome.splits write_result.splits)
qed

lemma others_remove: "keeps (others_same p) (remove_ignoring p)"
proof -
  have "others_same p w (snd (remove_ignoring p w))" for w
    using pop_files [of w] unfolding remove_ignoring_def
    by (cases "pop w") (auto simp: others_same_def split: call_result.splits)
  then show ?thesis by (simp add: keeps_def)
qed

lemma write_all_Ret:
  "write_all err p bs w = (Ret (), w') \<Longrightarrow> files w p = Some f \<Longrightarrow>
     files w' p = Some (f\<lparr>content := content f @ bs\<rparr>)"
proof (induction err p bs w arbitrary: f rule: write_all.induct)
  case (1 err p bs w)
  show ?case
  proof (cases "bs = []")
    case True
    with 1 show ?thesis by (simp add: write_all.simps)
  next
    case False
    obtain r w1 where wr: "sys_write p bs w = (r, w1)" by fastforce
    with False "1.prems"(1) consider
        (w) n where "r = Ret (Wrote n)" "n \<noteq> 0" "write_all err p (drop n bs) w1 = (Ret (), w')"
      | (e) "r = Ret Write_eintr" "write_all err p bs w1 = (Ret (), w')"
      by (auto simp: write_all.simps [of err p bs w] split: outcome.splits write_result.splits if_splits)
    then show ?thesis
    proof cases
      case w
      then have "files w1 p = Some (f\<lparr>content := content f @ take n bs\<rparr>)"
        using wr "1.prems"(2) pop_files [of w] unfolding sys_write_def
        by (cases "pop w") (auto simp: files_ops min_def split: call_result.splits if_splits)
      then show ?thesis using "1.IH"(1) [OF False wr [symmetric]] w by simp
    next
      case e
      then have "files w1 p = Some f"
        using wr "1.prems"(2) pop_files [of w] unfolding sys_write_def
        by (cases "pop w") (auto split: call_result.splits)
      then show ?thesis using "1.IH"(2) [OF False wr [symmetric]] e by simp
    qed
  qed
qed

lemma write_all_empty_script:
  "script w = [] \<Longrightarrow> write_all err p bs w = (Ret (), if bs = [] then w else append_file p bs w)"
  by (simp add: write_all.simps sys_write_def)

section \<open>Atomic replacement\<close>

text \<open>The part before the rename, which prepares the temporary file.\<close>

definition prepare_temporary :: "path \<Rightarrow> path \<Rightarrow> bytes \<Rightarrow> (world, unit) prog" where
  "prepare_temporary directory temporary bs =
     bindP (create_directories directory) (\<lambda>_.
     bindP (sys_call (io_error ''open'' temporary)
              (set_file temporary (Some \<lparr>content = [], synced = 0\<rparr>))) (\<lambda>_.
     catchP (bindP (write_all (io_error ''write'' temporary) temporary bs) (\<lambda>_. sync_fd temporary))
       (\<lambda>e. bindP (remove_ignoring temporary) (\<lambda>_. throwP e))))"

lemma atomic_write_file_split:
  "atomic_write_file p bs =
     bindP (prepare_temporary (parent_directory p) (p @ ''.tmp'') bs) (\<lambda>_.
     bindP (catchP
              (sys_call (io_error ''rename'' p) (rename_file (p @ ''.tmp'') p))
              (\<lambda>e. bindP (remove_ignoring (p @ ''.tmp'')) (\<lambda>_. throwP e))) (\<lambda>_.
     sync_directory (parent_directory p)))"
  by (simp add: atomic_write_file_def prepare_temporary_def bindP_assoc Let_def)

lemma keeps_write_all: "keeps (others_same p) (write_all err p bs)"
  by (simp add: keeps_def others_write_all)

lemmas others_keeps =
  others.keeps_bindP others.keeps_catchP others.keeps_throwP others_remove keeps_write_all
  others_sys_call

lemma prepare_temporary_others: "keeps (others_same tmp) (prepare_temporary dir tmp bs)"
  unfolding prepare_temporary_def create_directories_def sync_fd_def
  by (intro others_keeps others_effects)

lemma sys_call_Ret:
  assumes "sys_call err eff w = (Ret u, w')"
  obtains w0 where "files w0 = files w" and "older w0 = older w" and "w' = eff w0"
  using assms pop_files [of w] pop_older [of w] unfolding sys_call_def
  by (cases "pop w") (auto split: call_result.splits)

lemma sys_call_not_Ret:
  assumes "sys_call err eff w = (r, w')" and "r \<noteq> Ret ()"
  shows "files w' = files w" and "older w' = older w"
  using assms pop_files [of w] pop_older [of w] unfolding sys_call_def
  by (cases "pop w"; auto split: call_result.splits)+

lemma sync_directory_cases:
  assumes "sync_directory d w = (r, w')"
  shows "files w' = files w"
    and "older w' = (if r = Ret () then (\<lambda>p. if parent_directory p = d then [] else older w p) else older w)"
proof -
  obtain r1 w1 where 1: "sys_call (io_error ''open directory'' d) id w = (r1, w1)" by fastforce
  have w1: "files w1 = files w \<and> older w1 = older w"
    using sys_call_not_Ret [OF 1] 1 by (cases "r1 = Ret ()") (auto elim!: sys_call_Ret)
  have "files w' = files w \<and>
      older w' = (if r = Ret () then (\<lambda>p. if parent_directory p = d then [] else older w p) else older w)"
  proof (cases "r1 = Ret ()")
    case False
    then have "w' = w1 \<and> r \<noteq> Ret ()"
      using assms 1 by (cases r1) (auto simp: sync_directory_def bindP_def)
    then show ?thesis using w1 by simp
  next
    case True
    then have 2: "sys_call (io_error ''fsync directory'' d) (sync_names d) w1 = (r, w')"
      using assms 1 by (simp add: sync_directory_def bindP_eq)
    show ?thesis
    proof (cases "r = Ret ()")
      case True
      with 2 obtain w0 where "files w0 = files w1" "older w0 = older w1" "w' = sync_names d w0"
        by (metis sys_call_Ret)
      then show ?thesis using w1 True by (simp add: fun_eq_iff)
    next
      case False
      then show ?thesis using w1 sys_call_not_Ret [OF 2] by simp
    qed
  qed
  then show "files w' = files w"
    and "older w' = (if r = Ret () then (\<lambda>p. if parent_directory p = d then [] else older w p) else older w)"
    by simp_all
qed

text \<open>Nothing before the rename changes what a name may stand for after a power loss.\<close>

definition names_same :: "world \<Rightarrow> world \<Rightarrow> bool" where
  "names_same w w' \<longleftrightarrow> older w' = older w"

interpretation names: transition_relation names_same
  by unfold_locales (simp_all add: names_same_def)

lemma names_sys_call:
  assumes "\<And>w. names_same w (eff w)"
  shows "keeps names_same (sys_call err eff)"
proof -
  have "names_same w (snd (sys_call err eff w))" for w
    using assms pop_older [of w] unfolding sys_call_def
    by (cases "pop w") (auto simp: names_same_def split: call_result.splits)
  then show ?thesis by (simp add: keeps_def)
qed

lemma names_effects [simp]: "names_same w (id w)" "names_same w (set_file p f w)" "names_same w (sync_file p w)"
  by (simp_all add: names_same_def)

lemma names_sys_write: "sys_write p bs w = (r, w') \<Longrightarrow> older w' = older w"
  using pop_older [of w] unfolding sys_write_def
  by (cases "pop w") (auto split: call_result.splits)

lemma names_write_all: "keeps names_same (write_all err p bs)"
proof -
  have "older (snd (write_all err p bs w)) = older w" for w
  proof (induction err p bs w rule: write_all.induct)
    case (1 err p bs w)
    obtain r w' where wr: "sys_write p bs w = (r, w')" by fastforce
    then show ?case
      using 1 names_sys_write [OF wr]
      by (subst write_all.simps) (auto split: outcome.splits write_result.splits)
  qed
  then show ?thesis by (simp add: keeps_def names_same_def)
qed

lemma names_remove: "keeps names_same (remove_ignoring p)"
proof -
  have "names_same w (snd (remove_ignoring p w))" for w
    using pop_older [of w] unfolding remove_ignoring_def
    by (cases "pop w") (auto simp: names_same_def split: call_result.splits)
  then show ?thesis by (simp add: keeps_def)
qed

lemma prepare_temporary_names: "keeps names_same (prepare_temporary dir tmp bs)"
  unfolding prepare_temporary_def create_directories_def sync_fd_def
  by (intro names.keeps_bindP names.keeps_catchP names.keeps_throwP names_remove names_write_all names_sys_call
      names_effects)

lemma prepare_temporary_Ret:
  assumes "prepare_temporary dir tmp bs w = (Ret u, w')"
  shows "files w' tmp = Some \<lparr>content = bs, synced = length bs\<rparr>"
proof -
  from assms obtain u1 w1 u2 w2
    where op: "sys_call (io_error ''open'' tmp) (set_file tmp (Some \<lparr>content = [], synced = 0\<rparr>)) w1
      = (Ret u2, w2)"
      and wr: "bindP (write_all (io_error ''write'' tmp) tmp bs) (\<lambda>_. sync_fd tmp) w2 = (Ret u, w')"
    unfolding prepare_temporary_def bindP_Ret_iff catch_rethrow_Ret_iff by blast
  from wr obtain w3 where wa: "write_all (io_error ''write'' tmp) tmp bs w2 = (Ret (), w3)"
    and sy: "sync_fd tmp w3 = (Ret u, w')"
    by (auto simp: bindP_Ret_iff)
  have "files w2 tmp = Some \<lparr>content = [], synced = 0\<rparr>"
    using op by (auto elim!: sys_call_Ret)
  then have "files w3 tmp = Some \<lparr>content = bs, synced = 0\<rparr>"
    using write_all_Ret [OF wa] by simp
  then show ?thesis
    using sy unfolding sync_fd_def by (auto elim!: sys_call_Ret simp: files_ops)
qed

text \<open>The state of the replaced file after a run that got past the preparation.\<close>

lemma rename_stage:
  assumes "catchP (sys_call (io_error ''rename'' p) (rename_file (p @ ''.tmp'') p))
      (\<lambda>e. bindP (remove_ignoring (p @ ''.tmp'')) (\<lambda>_. throwP e)) w = (r, w')"
  shows "if r = Ret () then files w' = (files w)(p := files w (p @ ''.tmp''), p @ ''.tmp'' := None) \<and>
        older w' = (older w)(p := files w p # older w p)
    else others_same (p @ ''.tmp'') w w' \<and> older w' = older w"
proof -
  obtain r1 w1 where c: "sys_call (io_error ''rename'' p) (rename_file (p @ ''.tmp'') p) w = (r1, w1)"
    by fastforce
  show ?thesis
  proof (cases "r1 = Ret ()")
    case True
    then show ?thesis using assms c
      by (auto simp: catchP_def files_rename_file older_rename_file elim!: sys_call_Ret)
  next
    case False
    then have w1: "files w1 = files w" "older w1 = older w" using c sys_call_not_Ret by blast+
    have h: "keeps (others_same (p @ ''.tmp''))
      (bindP (remove_ignoring (p @ ''.tmp'')) (\<lambda>_. throwP e) :: (world, unit) prog)"
      "keeps names_same (bindP (remove_ignoring (p @ ''.tmp'')) (\<lambda>_. throwP e) :: (world, unit) prog)" for e
      by (intro others_keeps, intro names.keeps_bindP names.keeps_throwP names_remove)
    show ?thesis
    proof (cases r1)
      case (Throw e)
      then have "(r, w') = bindP (remove_ignoring (p @ ''.tmp'')) (\<lambda>_. throwP e) w1"
        using assms c by (simp add: catchP_def)
      moreover from this have "r \<noteq> Ret ()"
        by (auto simp: bindP_def split: prod.splits outcome.splits)
      moreover have "others_same (p @ ''.tmp'') w1 w'" "names_same w1 w'"
        using h [of e] calculation(1) unfolding keeps_def by (metis snd_conv)+
      ultimately show ?thesis using w1 by (auto simp: others_same_def names_same_def)
    qed (use assms c w1 False in \<open>auto simp: catchP_def others_same_def\<close>)
  qed
qed

lemma tmp_neq [simp]: "p @ ''.tmp'' \<noteq> p" "p \<noteq> p @ ''.tmp''"
  by auto

text \<open>
  The outcome of replacing a file: the name is as it was, and then the call did not return; or it
  stands for the complete synced new content, and then either the call returned and no power loss
  brings an older file back, or the rename is not known to be durable.
\<close>

definition replaced :: "path \<Rightarrow> bytes \<Rightarrow> world \<Rightarrow> unit outcome \<Rightarrow> world \<Rightarrow> bool" where
  "replaced p bs w r w' \<longleftrightarrow>
     files w' p = files w p \<and> older w' p = older w p \<and> r \<noteq> Ret () \<or>
     files w' p = Some \<lparr>content = bs, synced = length bs\<rparr> \<and>
       older w' p = (if r = Ret () then [] else files w p # older w p)"

definition elsewhere_kept :: "path \<Rightarrow> world \<Rightarrow> world \<Rightarrow> bool" where
  "elsewhere_kept p w w' \<longleftrightarrow>
     (\<forall>q. q \<noteq> p \<and> q \<noteq> p @ ''.tmp'' \<longrightarrow> files w' q = files w q \<and> older w' q \<in> {older w q, []})"

lemma elsewhere_keptD:
  assumes "elsewhere_kept p w w'" and "q \<noteq> p" and "q \<noteq> p @ ''.tmp''"
  shows "files w' q = files w q" and "older w q = [] \<longrightarrow> older w' q = []"
proof -
  have "files w' q = files w q \<and> older w' q \<in> {older w q, []}"
    using assms unfolding elsewhere_kept_def by blast
  then show "files w' q = files w q" and "older w q = [] \<longrightarrow> older w' q = []" by auto
qed

lemma atomic_write_file_cases:
  assumes "atomic_write_file p bs w = (r, w')"
  shows "replaced p bs w r w' \<and> elsewhere_kept p w w'"
proof -
  let ?tmp = "p @ ''.tmp''"
  let ?ren = "catchP (sys_call (io_error ''rename'' p) (rename_file ?tmp p))
      (\<lambda>e. bindP (remove_ignoring ?tmp) (\<lambda>_. throwP e))"
  obtain r1 w1 where p1: "prepare_temporary (parent_directory p) ?tmp bs w = (r1, w1)" by fastforce
  have o1: "\<And>q. q \<noteq> ?tmp \<Longrightarrow> files w1 q = files w q" "older w1 = older w"
    using prepare_temporary_others [of ?tmp] prepare_temporary_names [of _ ?tmp] p1
    unfolding keeps_def others_same_def names_same_def by (metis snd_conv)+
  show ?thesis
  proof (cases "r1 = Ret ()")
    case False
    then have "w' = w1 \<and> r \<noteq> Ret ()"
      using assms p1 by (cases r1) (auto simp: atomic_write_file_split bindP_def)
    then show ?thesis using o1 by (simp add: replaced_def elsewhere_kept_def)
  next
    case True
    then have t1: "files w1 ?tmp = Some \<lparr>content = bs, synced = length bs\<rparr>"
      using prepare_temporary_Ret p1 by blast
    obtain r2 w2 where p2: "?ren w1 = (r2, w2)" by fastforce
    have rest: "bindP ?ren (\<lambda>_. sync_directory (parent_directory p)) w1 = (r, w')"
      using assms p1 True by (simp add: atomic_write_file_split bindP_eq)
    note stage = rename_stage [OF p2]
    show ?thesis
    proof (cases "r2 = Ret ()")
      case False
      then have "w' = w2 \<and> r \<noteq> Ret ()"
        using rest p2 by (cases r2) (auto simp: bindP_def)
      then show ?thesis using stage False o1 by (simp add: others_same_def replaced_def elsewhere_kept_def)
    next
      case True
      then have "sync_directory (parent_directory p) w2 = (r, w')"
        using rest p2 by (simp add: bindP_eq)
      note sync_directory_cases [OF this]
      then show ?thesis using stage True o1 t1 by (simp add: replaced_def elsewhere_kept_def)
    qed
  qed
qed

lemma atomic_write_file_ok:
  assumes "script w = []"
  shows "atomic_write_file p bs w =
    (Ret (), w\<lparr>files := (files w)(p \<mapsto> \<lparr>content = bs, synced = length bs\<rparr>, p @ ''.tmp'' := None),
       older := (\<lambda>q. if parent_directory q = parent_directory p then [] else older w q)\<rparr>)"
  using assms
  by (auto simp: atomic_write_file_def Let_def bindP_def catchP_def create_directories_def sys_call_def
      write_all_empty_script sync_fd_def sync_directory_def set_file_def append_file_def sync_file_def
      rename_file_def sync_names_def fun_upd_twist fun_eq_iff)

section \<open>Record images\<close>

definition record_prefix :: "bytes \<Rightarrow> bytes \<Rightarrow> bytes" where
  "record_prefix magic payload =
     magic @ be_bytes 2 (1 :: u16) @ be_bytes 2 (0 :: u16) @
     be_bytes 4 (of_nat (length payload) :: u32) @ payload"

definition record_image :: "bytes \<Rightarrow> bytes \<Rightarrow> bytes" where
  "record_image magic payload =
     record_prefix magic payload @ be_bytes 8 (fnv1a64 (record_prefix magic payload))"

lemma checked_record_bytes_iff:
  "checked_record_bytes magic payload = Inr bs \<longleftrightarrow>
     length payload < 2 ^ 32 \<and> bs = record_image magic payload"
  by (auto simp: checked_record_bytes_def codec_simps exn_simps new_writer_def Let_def
      record_image_def record_prefix_def)

lemma length_record_image [simp]: "length (record_image magic payload) = length magic + length payload + 16"
  by (simp add: record_image_def record_prefix_def)

lemma parse_record_image:
  assumes "length magic = 4" and "length payload < 2 ^ 32" and "length payload \<le> max_size"
  shows "parse_checked_record p magic max_size (record_image magic payload) = Inr payload"
proof -
  let ?pre = "magic @ be_bytes 2 (1 :: u16) @ be_bytes 2 (0 :: u16) @ be_bytes 4 (of_nat (length payload) :: u32)"
  let ?sum = "fnv1a64 (record_prefix magic payload)"
  have n: "unat (of_nat (length payload) :: u32) = length payload"
    using assms(2) by (simp add: unat_of_nat)
  have img: "record_image magic payload = magic @ be_bytes 2 (1 :: u16) @ be_bytes 2 (0 :: u16) @
      be_bytes 4 (of_nat (length payload) :: u32) @ payload @ be_bytes 8 ?sum"
    by (simp add: record_image_def record_prefix_def)
  have sum: "take (length (record_image magic payload) - 8) (record_image magic payload)
      = record_prefix magic payload"
    by (simp add: record_image_def)
  have gm: "get_bytes (reader_at [] (magic @ rest)) 4 = Inr (magic, reader_at magic rest)" for rest
    using get_bytes_at [of "[]" magic rest] assms(1) by simp
  have gs: "get_u64 (reader_at pre (be_bytes 8 ?sum)) = Inr (?sum, reader_at (pre @ be_bytes 8 ?sum) [])"
    for pre
    using u64_field.get_enc [where x = ?sum and pre = pre and post = "[]"] by simp
  have len: "\<not> length (record_image magic payload) < record_overhead"
    using assms(1) by (simp add: record_overhead_def)
  show ?thesis
    unfolding parse_checked_record_def new_reader_at bindE_Inr sum
    using assms len by (simp add: img gm gs n codec_simps)
qed

lemma parse_record_inv:
  assumes "length magic = 4" and "parse_checked_record p magic max_size bs = Inr payload"
  shows "length payload < 2 ^ 32 \<and> length payload \<le> max_size \<and> bs = record_image magic payload"
proof -
  define sum where "sum = fnv1a64 (take (length bs - 8) bs)"
  from assms(2) obtain len where bs: "bs = magic @ be_bytes 2 (1 :: u16) @ be_bytes 2 (0 :: u16) @
      be_bytes 4 (len :: u32) @ payload @ be_bytes 8 sum"
    and le: "length payload = unat len" "unat len \<le> max_size"
    unfolding parse_checked_record_def new_reader_at bindE_Inr field_iffs prod.case
      sum_def [symmetric]
    by auto
  have small: "length payload < 2 ^ 32" "length payload \<le> max_size"
    using unsigned_less [of len, where ?'a = nat] le by simp_all
  have len: "len = of_nat (length payload)" using le(1) by simp
  have "take (length bs - 8) bs = record_prefix magic payload"
    by (simp add: bs len record_prefix_def)
  then have sum: "sum = fnv1a64 (record_prefix magic payload)" by (simp only: sum_def)
  have "bs = record_image magic payload"
    unfolding bs len sum by (simp add: record_image_def record_prefix_def)
  then show ?thesis using small by blast
qed

lemma parse_record_iff:
  "length magic = 4 \<Longrightarrow> parse_checked_record p magic max_size bs = Inr payload \<longleftrightarrow>
     checked_record_bytes magic payload = Inr bs \<and> length payload \<le> max_size"
  using parse_record_image [of magic payload max_size p] parse_record_inv [of magic p max_size bs payload]
  by (auto simp: checked_record_bytes_iff)

lemma read_file_ok:
  "script w = [] \<Longrightarrow> files w p = Some f \<Longrightarrow> length (content f) \<le> max_size \<Longrightarrow>
     read_file p max_size w = (Ret (content f), w)"
  by (simp add: read_file_def bindP_def sys_call_def)

lemma read_checked_record_ok:
  assumes "script w = []" and "files w p = Some f" and "content f = record_image magic payload"
    and "length magic = 4" and "length payload < 2 ^ 32" and "length payload \<le> max_size"
  shows "read_checked_record p magic max_size w = (Ret payload, w)"
proof -
  have "read_file p (max_size + record_overhead) w = (Ret (content f), w)"
    using assms by (intro read_file_ok) (simp_all add: record_overhead_def)
  then show ?thesis
    using parse_record_image [of magic payload max_size p] assms
    by (simp add: read_checked_record_def bindP_eq)
qed

lemma write_checked_record_Ret:
  assumes "write_checked_record p magic payload w = (Ret u, w')"
  shows "length payload < 2 ^ 32 \<and> older w' p = [] \<and>
    files w' p = Some \<lparr>content = record_image magic payload, synced = length (record_image magic payload)\<rparr>"
proof -
  from assms obtain bs where "checked_record_bytes magic payload = Inr bs"
    and "atomic_write_file p bs w = (Ret u, w')"
    by (cases "checked_record_bytes magic payload") (auto simp: write_checked_record_def bindP_def)
  then show ?thesis
    using atomic_write_file_cases [of p bs w "Ret u" w'] by (auto simp: checked_record_bytes_iff replaced_def)
qed

lemma write_checked_record_cases:
  assumes "write_checked_record p magic payload w = (r, w')"
  shows "replaced p (record_image magic payload) w r w'" and "elsewhere_kept p w w'"
proof -
  have "replaced p (record_image magic payload) w r w' \<and> elsewhere_kept p w w'"
  proof (cases "checked_record_bytes magic payload")
    case (Inl e)
    then show ?thesis using assms by (auto simp: write_checked_record_def bindP_def replaced_def elsewhere_kept_def)
  next
    case (Inr bs)
    then have "atomic_write_file p bs w = (r, w')"
      using assms by (simp add: write_checked_record_def bindP_def)
    then show ?thesis
      using atomic_write_file_cases Inr by (fastforce simp: checked_record_bytes_iff)
  qed
  then show "replaced p (record_image magic payload) w r w'" and "elsewhere_kept p w w'" by simp_all
qed

text \<open>Reading a record depends on its file only, and changes nothing, when the calls succeed.\<close>

lemma read_checked_record_frame:
  assumes "script w = []" and "script w' = []" and "files w p = files w' p"
  shows "\<exists>x. read_checked_record p magic n w = (x, w) \<and> read_checked_record p magic n w' = (x, w')"
  using assms
  by (auto simp: read_checked_record_def read_file_def bindP_def sys_call_def liftP_def
      split: option.splits sum.splits)

section \<open>Durable values\<close>

text \<open>
  The contract of a value kept in one file of its own: saving leaves the file alone or replaces it by
  the complete synced image of the value, and loading reads the value back from its image and depends
  on this file only. Such a value survives a power loss at any point of a save.
\<close>

locale durable_value =
  fixes save_value :: "'v \<Rightarrow> (world, unit) prog"
    and load_value :: "(world, 'r) prog"
    and home :: path
    and image :: "'v \<Rightarrow> bytes"
    and loaded :: "'v \<Rightarrow> 'r"
    and storable_value :: "'v \<Rightarrow> bool"
  assumes save_cases: "storable_value v \<Longrightarrow> save_value v w = (r, w') \<Longrightarrow>
      replaced home (image v) w r w'"
    and load_image: "storable_value v \<Longrightarrow> script w = [] \<Longrightarrow> files w home = Some f \<Longrightarrow> content f = image v \<Longrightarrow>
      load_value w = (Ret (loaded v), w)"
    and load_frame: "script w = [] \<Longrightarrow> script w' = [] \<Longrightarrow> files w home = files w' home \<Longrightarrow>
      fst (load_value w) = fst (load_value w')"
begin

lemma survives_power_loss:
  assumes "storable_value v" and "save_value v w = (r, w')"
  shows "(\<exists>kept'. fst (load_value (power_loss kept w')) = fst (load_value (power_loss kept' w))) \<and> r \<noteq> Ret () \<or>
    fst (load_value (power_loss kept w')) = Ret (loaded v)"
proof -
  let ?new = "\<lparr>content = image v, synced = length (image v)\<rparr>"
  have old: "\<exists>kept'. fst (load_value (power_loss kept w')) = fst (load_value (power_loss kept' w))"
    if "files (power_loss kept w') home = files (power_loss kept' w) home" for kept'
    using load_frame [of "power_loss kept w'" "power_loss kept' w"] that by auto
  have new: "fst (load_value (power_loss kept w')) = Ret (loaded v)" if "files (power_loss kept w') home = Some ?new"
    using load_image [OF assms(1) power_loss_script that] by simp
  have whole: "survived n ?new = ?new" for n by (simp add: survived_def Let_def)
  from save_cases [OF assms] consider
      "files w' home = files w home" "older w' home = older w home" "r \<noteq> Ret ()"
    | "files w' home = Some ?new" "older w' home = files w home # older w home" "r \<noteq> Ret ()"
    | "files w' home = Some ?new" "older w' home = []"
    by (auto simp: replaced_def split: if_splits)
  then show ?thesis
  proof cases
    case 1
    then show ?thesis using old [of kept] by (simp add: power_loss_def surviving_entry_def)
  next
    case 2
    then show ?thesis using power_loss_renamed [OF 2(2), of kept] old new whole by auto
  next
    case 3
    then show ?thesis using new whole by (simp add: power_loss_files)
  qed
qed

end

section \<open>Properties\<close>

text \<open>
  C4. \<open>atomic_write_file\<close> replaces a file atomically, whatever the outcomes of its system calls and
  wherever the process dies: afterwards the file is either untouched, and then the call did not
  return normally, or holds exactly the new bytes, all of them synced. Files other than it and its
  temporary are untouched. When the call returns, the directory is synced as well, so that no power
  loss can bring the old file back.
\<close>

theorem atomic_write_file_atomic:
  assumes "atomic_write_file p bs w = (r, w')"
  shows "(files w' p = files w p \<and> r \<noteq> Ret () \<or>
          files w' p = Some \<lparr>content = bs, synced = length bs\<rparr>) \<and>
         (\<forall>q. q \<noteq> p \<and> q \<noteq> p @ ''.tmp'' \<longrightarrow> files w' q = files w q) \<and>
         (r = Ret () \<longrightarrow> older w' p = [])"
  using atomic_write_file_cases [OF assms] by (auto simp: replaced_def elsewhere_kept_def split: if_splits)

definition crash_world :: world where
  "crash_world = \<lparr>files = [''f'' \<mapsto> \<lparr>content = [7], synced = 1\<rparr>], older = (\<lambda>_. []), script = [Ok, Ok, Short 1, Die 1]\<rparr>"

text \<open>Witness: the process dies in the middle of writing the second of three bytes.\<close>

theorem atomic_write_file_atomic_witness:
  "let r = atomic_write_file ''f'' [1, 2, 3] crash_world in
     fst r = Died \<and> files (snd r) ''f'' = Some \<lparr>content = [7], synced = 1\<rparr>"
  using atomic_write_file_atomic [of "''f''" "[1, 2, 3]" crash_world
      "fst (atomic_write_file ''f'' [1, 2, 3] crash_world)"
      "snd (atomic_write_file ''f'' [1, 2, 3] crash_world)"]
  by (simp add: atomic_write_file_def Let_def bindP_def catchP_def create_directories_def sys_call_def
      write_all.simps sys_write_def crash_world_def pop_def append_file_def set_file_def)

text \<open>
  A checked record is read back as it was written: after \<open>write_checked_record\<close> returns, reading
  the file with the same magic gives the payload, provided it is within the reader's limit and the
  reads themselves do not fail.
\<close>

theorem checked_record_roundtrip:
  assumes "write_checked_record p magic payload w = (Ret (), w')" and "length magic = 4"
    and "length payload \<le> max_size" and "script w' = []"
  shows "read_checked_record p magic max_size w' = (Ret payload, w')"
  using write_checked_record_Ret [OF assms(1)] assms
  by (auto intro!: read_checked_record_ok)

definition empty_world :: world where
  "empty_world = \<lparr>files = Map.empty, older = (\<lambda>_. []), script = []\<rparr>"

theorem checked_record_roundtrip_witness:
  "\<exists>w'. write_checked_record ''f'' [1, 2, 3, 4] [9] empty_world = (Ret (), w') \<and>
     read_checked_record ''f'' [1, 2, 3, 4] 16 w' = (Ret [9], w')"
proof -
  let ?m = "[1, 2, 3, 4] :: bytes"
  obtain w' where w: "write_checked_record ''f'' ?m [9] empty_world = (Ret (), w')" "script w' = []"
    using atomic_write_file_ok [of empty_world "''f''" "record_image ?m [9]"]
      checked_record_bytes_iff [of ?m "[9]" "record_image ?m [9]"]
    by (simp add: write_checked_record_def bindP_def empty_world_def)
  then show ?thesis using checked_record_roundtrip [OF w(1), of 16] by auto
qed

text \<open>
  C34. A record in which one byte was changed, anywhere in the file, is refused: no single-byte
  corruption of magic, version, length, payload or checksum is read as a record.
\<close>

theorem checked_record_detects_corruption:
  assumes "checked_record_bytes magic payload = Inr bs" and "length magic = 4"
    and "i < length bs" and "b \<noteq> bs ! i"
  shows "\<exists>e. parse_checked_record p magic max_size (bs[i := b]) = Inl e"
proof (cases "parse_checked_record p magic max_size (bs[i := b])")
  case (Inr payload')
  have inv: "bs[i := b] = record_image magic payload'"
    using parse_record_inv [OF assms(2) Inr] by blast
  let ?n = "length bs - 8"
  have bs: "bs = record_image magic payload" using assms(1) by (simp add: checked_record_bytes_iff)
  have split: "xs = take (length xs - 8) xs @ be_bytes 8 (fnv1a64 (take (length xs - 8) xs))"
    if "xs = record_image magic q" for xs q
    by (simp add: that record_image_def)
  have old: "bs = take ?n bs @ be_bytes 8 (fnv1a64 (take ?n bs))"
    using split [OF bs] .
  have new: "bs[i := b] = take ?n (bs[i := b]) @ be_bytes 8 (fnv1a64 (take ?n (bs[i := b])))"
    using split [OF inv] by (simp only: length_list_update)
  show ?thesis
  proof (cases "i < ?n")
    case True
    then have "drop ?n bs = drop ?n (bs[i := b])" by simp
    then have "be_bytes 8 (fnv1a64 (take ?n bs)) = be_bytes 8 (fnv1a64 (take ?n (bs[i := b])))"
      by (metis append_eq_conv_conj append_take_drop_id length_list_update new old same_append_eq)
    then have "fnv1a64 (take ?n bs) = fnv1a64 ((take ?n bs)[i := b])"
      using u64_field.enc_inject [where p = "[]" and q = "[]"] by (simp add: take_update_swap)
    then show ?thesis using fnv1a64_update [of i "take ?n bs" b] True assms(4) by simp
  next
    case False
    then have "take ?n (bs[i := b]) = take ?n bs" by simp
    then have "bs[i := b] = bs" using old new by simp
    then show ?thesis using assms(3,4) by (metis nth_list_update_eq)
  qed
qed simp

theorem checked_record_detects_corruption_witness:
  "\<exists>bs e. checked_record_bytes [1, 2, 3, 4] [9] = Inr bs \<and>
     parse_checked_record ''f'' [1, 2, 3, 4] 16 (bs[12 := 8]) = Inl e"
proof -
  let ?m = "[1, 2, 3, 4] :: bytes" and ?b = "record_image [1, 2, 3, 4] [9]"
  have "checked_record_bytes ?m [9] = Inr ?b" by (simp add: checked_record_bytes_iff)
  moreover have "?b ! 12 = 9" by (simp add: record_image_def record_prefix_def nth_append)
  ultimately show ?thesis
    using checked_record_detects_corruption [of ?m "[9]" ?b 12 8 "''f''" 16] by auto
qed

end
