(* ===== verification/Kv_Persistence.thy ===== *)
theory Kv_Persistence
  imports Kv_State_Machine File_Util
begin

text \<open>
  The durable images of the state machine, \<^verbatim>\<open>src/src/state_machine/kv_state_machine.cpp\<close> from
  \<open>serialize_state_locked\<close> on: the state image, the checkpoint file, the snapshot file and the
  logical snapshot objects that NuRaft sends to a lagging follower.

  \<^theory_text>\<open>nuraft::snapshot\<close> belongs to NuRaft: its type is the parameter \<open>'snap\<close> and its
  three operations the code calls are the record \<open>snapshot_api\<close>, an argument of every definition
  that uses them. What the code relies on, that deserializing a serialized snapshot gives it back,
  is the hypothesis \<open>snapshot_api_ok\<close>. Log lines are not modelled. Each operation is one step: the
  mutex is held for the parts that read or write the machine, and what runs between them uses the
  file system only.
\<close>

section \<open>Parameters and constants\<close>

record 'snap snapshot_api =
  snap_serialize :: "'snap \<Rightarrow> bytes"
  snap_deserialize :: "bytes \<Rightarrow> exn + 'snap"
  get_last_log_idx :: "'snap \<Rightarrow> u64"

definition snapshot_api_ok :: "'snap snapshot_api \<Rightarrow> bool" where
  "snapshot_api_ok api \<longleftrightarrow> (\<forall>x. snap_deserialize api (snap_serialize api x) = Inr x)"

definition kStateMagic :: bytes where "kStateMagic = string_bytes ''SKVS''"
definition kSnapshotMagic :: bytes where "kSnapshotMagic = string_bytes ''SKSN''"
definition kStateVersion :: u16 where "kStateVersion = 1"
definition kSnapshotRecordVersion :: u16 where "kSnapshotRecordVersion = 1"
definition kMaximumItemCount :: u64 where "kMaximumItemCount = 100000000"
definition kMaximumStateFile :: nat where "kMaximumStateFile = 1024 * 1024 * 1024"

definition to_buffer :: "bytes \<Rightarrow> buffer" where "to_buffer bs = bs"
definition to_bytes :: "buffer \<Rightarrow> bytes" where "to_bytes b = b"

section \<open>The state image\<close>

definition put_kv_entry :: "string \<times> string \<Rightarrow> BinaryWriter \<Rightarrow> exn + BinaryWriter" where
  "put_kv_entry e w = bindE (put_string w (fst e)) (\<lambda>w. put_string w (snd e))"

definition put_dedup_entry :: "u64 \<times> DedupRecord \<Rightarrow> BinaryWriter \<Rightarrow> exn + BinaryWriter" where
  "put_dedup_entry e w =
     bindE (encode_result_bytes (dr_result (snd e))) (\<lambda>encoded_result.
       let w = put_u64 w (fst e);
           w = put_u64 w (dr_request_id (snd e));
           w = put_u32 w (of_nat (length encoded_result))
       in put_raw w (Some encoded_result) (length encoded_result))"

definition serialize_state_locked :: "StateData \<Rightarrow> exn + bytes" where
  "serialize_state_locked s =
     (let w = put_u16 new_writer kStateVersion;
          w = put_u16 w 0;
          w = put_u64 w (sd_last_commit_index s);
          w = put_u64 w (of_nat (length (kv s)))
      in bindE (foldE put_kv_entry (kv s) w) (\<lambda>w.
         let w = put_u64 w (of_nat (length (dedup s)))
         in bindE (foldE put_dedup_entry (dedup s) w) (\<lambda>w. Inr (wdata w))))"

text \<open>The two loops of \<open>deserialize_state\<close>, counting down.\<close>

fun get_kv_entries ::
  "nat \<Rightarrow> nat \<Rightarrow> (string, string) omap \<Rightarrow> BinaryReader \<Rightarrow> exn + (string, string) omap \<times> BinaryReader" where
  "get_kv_entries 0 max_field m r = Inr (m, r)"
| "get_kv_entries (Suc count) max_field m r =
     bindE (get_string r max_field) (\<lambda>(key, r).
     bindE (get_string r max_field) (\<lambda>(val, r).
     bindE (guardE (om_find m key = None) (DecodeError ''duplicate key in durable KV state'')) (\<lambda>_.
     get_kv_entries count max_field (om_insert key val m) r)))"

fun get_dedup_entries ::
  "nat \<Rightarrow> nat \<Rightarrow> (u64, DedupRecord) omap \<Rightarrow> BinaryReader \<Rightarrow> exn + (u64, DedupRecord) omap \<times> BinaryReader" where
  "get_dedup_entries 0 max_field m r = Inr (m, r)"
| "get_dedup_entries (Suc count) max_field m r =
     bindE (get_u64 r) (\<lambda>(client, r).
     bindE (get_u64 r) (\<lambda>(request, r).
     bindE (get_u32 r) (\<lambda>(result_size, r).
     bindE (get_bytes r (unat result_size)) (\<lambda>(result_bytes, r).
     bindE (decode_result_bytes (Some result_bytes) (length result_bytes) max_field) (\<lambda>res.
     bindE (guardE (\<not> (client = 0 \<or> request = 0 \<or> om_find m client \<noteq> None))
              (DecodeError ''invalid duplicate dedup record'')) (\<lambda>_.
     get_dedup_entries count max_field
       (om_insert client \<lparr>dr_request_id = request, dr_result = res\<rparr> m) r))))))"

definition deserialize_state :: "nat \<Rightarrow> bytes \<Rightarrow> exn + StateData" where
  "deserialize_state max_field payload =
     bindE (new_reader (Some payload) (length payload)) (\<lambda>r.
     bindE (get_u16 r) (\<lambda>(ver, r).
     bindE (guardE (ver = kStateVersion) (DecodeError ''unsupported KV state version'')) (\<lambda>_.
     bindE (get_u16 r) (\<lambda>(reserved, r).
     bindE (guardE (reserved = 0) (DecodeError ''unsupported KV state version'')) (\<lambda>_.
     bindE (get_u64 r) (\<lambda>(idx, r).
     bindE (get_u64 r) (\<lambda>(kv_count, r).
     bindE (guardE (\<not> kv_count > kMaximumItemCount) (DecodeError ''KV item count is unreasonable'')) (\<lambda>_.
     bindE (get_kv_entries (unat kv_count) max_field [] r) (\<lambda>(kvs, r).
     bindE (get_u64 r) (\<lambda>(dedup_count, r).
     bindE (guardE (\<not> dedup_count > kMaximumItemCount) (DecodeError ''dedup record count is unreasonable'')) (\<lambda>_.
     bindE (get_dedup_entries (unat dedup_count) max_field [] r) (\<lambda>(records, r).
     bindE (require_end r) (\<lambda>_.
     Inr \<lparr>sd_last_commit_index = idx, kv = kvs, dedup = records\<rparr>)))))))))))))"

definition install_state_locked :: "StateData \<Rightarrow> 'snap KvStateMachine \<Rightarrow> 'snap KvStateMachine" where
  "install_state_locked s m = m\<lparr>state := s\<rparr>"

section \<open>Checkpoints\<close>

definition persist_state_locked :: "'snap KvStateMachine \<Rightarrow> (world, unit) prog" where
  "persist_state_locked m =
     bindP (liftP (serialize_state_locked (state m))) (\<lambda>payload.
     write_checked_record (state_file m) kStateMagic payload)"

definition checkpoint :: "'snap KvStateMachine \<Rightarrow> (world, unit) prog" where
  "checkpoint m = persist_state_locked m"

definition load_state :: "'snap KvStateMachine \<Rightarrow> (world, 'snap KvStateMachine) prog" where
  "load_state m =
     bindP (file_exists (state_file m)) (\<lambda>present.
     if \<not> present then retP m
     else
       bindP (read_checked_record (state_file m) kStateMagic kMaximumStateFile) (\<lambda>payload.
       bindP (liftP (deserialize_state (max_field_size m) payload)) (\<lambda>s.
       retP (install_state_locked s m))))"

section \<open>Snapshots\<close>

record 'snap SnapshotData =
  metadata :: 'snap
  state_payload :: bytes

definition serialize_snapshot_record :: "'snap snapshot_api \<Rightarrow> 'snap \<Rightarrow> bytes \<Rightarrow> exn + bytes" where
  "serialize_snapshot_record api meta payload =
     (let metadata_buffer = snap_serialize api meta in
      bindE (guardE (\<not> (length metadata_buffer > u32_max \<or> length payload > u32_max))
               (Length_error ''snapshot record exceeds format limit'')) (\<lambda>_.
      let w = put_u16 new_writer kSnapshotRecordVersion;
          w = put_u16 w 0;
          w = put_u32 w (of_nat (length metadata_buffer))
      in bindE (put_raw w (Some metadata_buffer) (length metadata_buffer)) (\<lambda>w.
         let w = put_u32 w (of_nat (length payload))
         in bindE (put_raw w (Some payload) (length payload)) (\<lambda>w. Inr (wdata w)))))"

definition deserialize_snapshot_record ::
  "'snap snapshot_api \<Rightarrow> nat \<Rightarrow> bytes \<Rightarrow> exn + 'snap SnapshotData" where
  "deserialize_snapshot_record api max_field bs =
     bindE (new_reader (Some bs) (length bs)) (\<lambda>r.
     bindE (get_u16 r) (\<lambda>(ver, r).
     bindE (guardE (ver = kSnapshotRecordVersion) (DecodeError ''unsupported snapshot record version'')) (\<lambda>_.
     bindE (get_u16 r) (\<lambda>(reserved, r).
     bindE (guardE (reserved = 0) (DecodeError ''unsupported snapshot record version'')) (\<lambda>_.
     bindE (get_u32 r) (\<lambda>(metadata_size, r).
     bindE (get_bytes r (unat metadata_size)) (\<lambda>(metadata_bytes, r).
     bindE (get_u32 r) (\<lambda>(state_size, r).
     bindE (get_bytes r (unat state_size)) (\<lambda>(state_bytes, r).
     bindE (require_end r) (\<lambda>_.
     bindE (snap_deserialize api (to_buffer metadata_bytes)) (\<lambda>meta.
     bindE (deserialize_state max_field state_bytes) (\<lambda>decoded.
     bindE (guardE (sd_last_commit_index decoded = get_last_log_idx api meta)
              (DecodeError ''snapshot metadata/state index mismatch'')) (\<lambda>_.
     Inr \<lparr>metadata = meta, state_payload = state_bytes\<rparr>)))))))))))))"

definition load_snapshot_file ::
  "'snap snapshot_api \<Rightarrow> 'snap KvStateMachine \<Rightarrow> (world, 'snap SnapshotData) prog" where
  "load_snapshot_file api m =
     bindP (read_checked_record (snapshot_file m) kSnapshotMagic kMaximumStateFile) (\<lambda>bs.
     liftP (deserialize_snapshot_record api (max_field_size m) bs))"

definition store_snapshot_file ::
  "'snap snapshot_api \<Rightarrow> 'snap \<Rightarrow> bytes \<Rightarrow> 'snap KvStateMachine \<Rightarrow> (world, unit) prog" where
  "store_snapshot_file api meta payload m =
     bindP (liftP (serialize_snapshot_record api meta payload)) (\<lambda>bs.
     write_checked_record (snapshot_file m) kSnapshotMagic bs)"

definition load_snapshot_metadata ::
  "'snap snapshot_api \<Rightarrow> 'snap KvStateMachine \<Rightarrow> (world, 'snap KvStateMachine) prog" where
  "load_snapshot_metadata api m =
     bindP (file_exists (snapshot_file m)) (\<lambda>present.
     if \<not> present then retP m
     else
       bindP (load_snapshot_file api m) (\<lambda>snapshot.
       bindP (if get_last_log_idx api (metadata snapshot) > sd_last_commit_index (state m)
              then bindP (liftP (deserialize_state (max_field_size m) (state_payload snapshot))) (\<lambda>s.
                retP (install_state_locked s m))
              else retP m) (\<lambda>m.
       retP (m\<lparr>sm_last_snapshot := Some (metadata snapshot)\<rparr>))))"

text \<open>The constructor.\<close>

definition new_KvStateMachine ::
  "'snap snapshot_api \<Rightarrow> path \<Rightarrow> path \<Rightarrow> nat \<Rightarrow> (world, 'snap KvStateMachine) prog" where
  "new_KvStateMachine api state_dir snapshot_dir max_field =
     (let m = \<lparr>state_file = path_join state_dir ''kv-state.bin'',
               snapshot_file = path_join snapshot_dir ''latest.bin'',
               max_field_size = max_field, state = initial_state,
               recent_results = [], sm_last_snapshot = None\<rparr>
      in bindP (liftP (guardE (max_field \<noteq> 0)
                  (Invalid_argument ''state machine field limit cannot be zero''))) (\<lambda>_.
         bindP (load_state m) (\<lambda>m.
         load_snapshot_metadata api m)))"

text \<open>\<open>create_snapshot\<close> returns what it passes to \<open>when_done\<close>.\<close>

definition create_snapshot ::
  "'snap snapshot_api \<Rightarrow> 'snap \<Rightarrow> 'snap KvStateMachine \<Rightarrow>
   (world, (bool \<times> exn option) \<times> 'snap KvStateMachine) prog" where
  "create_snapshot api snapshot m =
     catchP
       (bindP (liftP (guardE (sd_last_commit_index (state m) = get_last_log_idx api snapshot)
                 (Runtime_error ''snapshot index does not match applied index''))) (\<lambda>_.
        bindP (liftP (serialize_state_locked (state m))) (\<lambda>payload.
        bindP (store_snapshot_file api snapshot payload m) (\<lambda>_.
        bindP (liftP (snap_deserialize api (snap_serialize api snapshot))) (\<lambda>cloned.
        retP ((True, None), m\<lparr>sm_last_snapshot := Some cloned\<rparr>))))))
       (\<lambda>e. retP ((False, Some (Runtime_error (what e))), m))"

definition read_logical_snp_obj ::
  "'snap snapshot_api \<Rightarrow> 'snap \<Rightarrow> u64 \<Rightarrow> 'snap KvStateMachine \<Rightarrow>
   (world, int \<times> buffer option \<times> bool) prog" where
  "read_logical_snp_obj api snapshot object_id m =
     (if object_id \<noteq> 0 then retP (- 1, None, True)
      else catchP
        (bindP (load_snapshot_file api m) (\<lambda>stored.
         if get_last_log_idx api (metadata stored) \<noteq> get_last_log_idx api snapshot
         then retP (- 1, None, True)
         else retP (0, Some (to_buffer (state_payload stored)), True)))
        (\<lambda>e. retP (- 1, None, True)))"

definition save_logical_snp_obj ::
  "'snap snapshot_api \<Rightarrow> 'snap \<Rightarrow> u64 \<Rightarrow> buffer \<Rightarrow> bool \<Rightarrow> bool \<Rightarrow> 'snap KvStateMachine \<Rightarrow>
   (world, u64 \<times> 'snap KvStateMachine) prog" where
  "save_logical_snp_obj api snapshot object_id data is_first_object is_last_object m =
     bindP (liftP (guardE (\<not> (object_id \<noteq> 0 \<or> \<not> is_first_object \<or> \<not> is_last_object))
              (Runtime_error ''StrongKV snapshot must be one logical object''))) (\<lambda>_.
     bindP (liftP (deserialize_state (max_field_size m) (to_bytes data))) (\<lambda>decoded.
     bindP (liftP (guardE (sd_last_commit_index decoded = get_last_log_idx api snapshot)
              (Runtime_error ''received snapshot state index mismatch''))) (\<lambda>_.
     bindP (store_snapshot_file api snapshot (to_bytes data) m) (\<lambda>_.
     bindP (liftP (snap_deserialize api (snap_serialize api snapshot))) (\<lambda>cloned.
     retP (object_id + 1, m\<lparr>sm_last_snapshot := Some cloned\<rparr>))))))"

definition apply_snapshot ::
  "'snap snapshot_api \<Rightarrow> 'snap \<Rightarrow> 'snap KvStateMachine \<Rightarrow> (world, bool \<times> 'snap KvStateMachine) prog" where
  "apply_snapshot api snapshot m =
     catchP
       (bindP (load_snapshot_file api m) (\<lambda>stored.
        if get_last_log_idx api (metadata stored) \<noteq> get_last_log_idx api snapshot
        then retP (False, m)
        else
          bindP (liftP (deserialize_state (max_field_size m) (state_payload stored))) (\<lambda>replacement.
          retP (True, (install_state_locked replacement m)
            \<lparr>sm_last_snapshot := Some (metadata stored), recent_results := []\<rparr>))))
       (\<lambda>e. retP (False, m))"

section \<open>Images\<close>

definition kv_image :: "string \<times> string \<Rightarrow> bytes" where
  "kv_image e = string_field (fst e) @ string_field (snd e)"

definition dedup_image :: "u64 \<times> DedupRecord \<Rightarrow> bytes" where
  "dedup_image e =
     be_bytes 8 (fst e) @ be_bytes 8 (dr_request_id (snd e)) @
     be_bytes 4 (of_nat (length (result_image (dr_result (snd e)))) :: u32) @
     result_image (dr_result (snd e))"

definition state_image :: "StateData \<Rightarrow> bytes" where
  "state_image s =
     be_bytes 2 kStateVersion @ be_bytes 2 (0 :: u16) @ be_bytes 8 (sd_last_commit_index s) @
     be_bytes 8 (of_nat (length (kv s)) :: u64) @ concat (map kv_image (kv s)) @
     be_bytes 8 (of_nat (length (dedup s)) :: u64) @ concat (map dedup_image (dedup s))"

text \<open>States the format can hold: within the field limit and the item counts the loader accepts.\<close>

definition storable :: "nat \<Rightarrow> StateData \<Rightarrow> bool" where
  "storable n s \<longleftrightarrow>
     state_ok n s \<and> n \<le> 2 ^ 30 \<and>
     length (kv s) \<le> unat kMaximumItemCount \<and> length (dedup s) \<le> unat kMaximumItemCount"

lemma length_result_image: "length (result_image res) = 20 + length (res_value res)"
  by (simp add: result_image_def kResultMagic_def)

lemma put_kv_entries:
  "\<forall>e\<in>set es. length (fst e) < 2 ^ 32 \<and> length (snd e) < 2 ^ 32 \<Longrightarrow>
     foldE put_kv_entry es w = Inr (w\<lparr>wdata := wdata w @ concat (map kv_image es)\<rparr>)"
  by (induction es arbitrary: w) (simp_all add: put_kv_entry_def kv_image_def codec_simps)

lemma put_dedup_entries:
  "\<forall>e\<in>set es. length (res_value (dr_result (snd e))) < 2 ^ 32 \<Longrightarrow>
     foldE put_dedup_entry es w = Inr (w\<lparr>wdata := wdata w @ concat (map dedup_image es)\<rparr>)"
proof (induction es arbitrary: w)
  case (Cons e es)
  have "encode_result_bytes (dr_result (snd e)) = Inr (result_image (dr_result (snd e)))"
    using Cons.prems by (simp add: encode_result_bytes_image)
  then have "put_dedup_entry e w = Inr (w\<lparr>wdata := wdata w @ dedup_image e\<rparr>)"
    by (simp add: put_dedup_entry_def dedup_image_def codec_simps Let_def)
  then show ?case using Cons by simp
qed simp

lemma serialize_state_image:
  assumes "storable n s"
  shows "serialize_state_locked s = Inr (state_image s)"
proof -
  have "\<forall>e\<in>set (kv s). length (fst e) < 2 ^ 32 \<and> length (snd e) < 2 ^ 32"
    "\<forall>e\<in>set (dedup s). length (res_value (dr_result (snd e))) < 2 ^ 32"
    using assms by (fastforce simp: storable_def state_ok_def result_fits_def)+
  then show ?thesis
    by (simp add: serialize_state_locked_def put_kv_entries put_dedup_entries state_image_def
        codec_simps new_writer_def Let_def)
qed

text \<open>The loops read the entries back in order, inserting each behind the earlier ones.\<close>

lemma get_kv_entries_image:
  "om_invar (m @ es) \<Longrightarrow> n < 2 ^ 32 \<Longrightarrow> \<forall>e\<in>set es. length (fst e) \<le> n \<and> length (snd e) \<le> n \<Longrightarrow>
     get_kv_entries (length es) n m (reader_at pre (concat (map kv_image es) @ post)) =
       Inr (m @ es, reader_at (pre @ concat (map kv_image es)) post)"
proof (induction es arbitrary: m pre)
  case (Cons e es)
  obtain k v where e: "e = (k, v)" by fastforce
  have below: "\<forall>k'\<in>fst ` set m. k' < k" using Cons.prems(1) e by (auto simp: om_invar_append)
  then have ins: "om_insert k v m = m @ [e]" and absent: "om_find m k = None"
    by (auto simp: e om_insert_append om_find_None_iff)
  have len: "length k \<le> n \<and> length k < 2 ^ 32" "length v \<le> n \<and> length v < 2 ^ 32"
    using Cons.prems e by auto
  show ?case
    using Cons.IH [of "m @ [e]" "pre @ kv_image e"] Cons.prems ins absent
      string_codec.get_enc [OF len(1)] string_codec.get_enc [OF len(2)]
    by (simp add: e kv_image_def)
qed simp

lemma get_dedup_entries_image:
  "om_invar (m @ es) \<Longrightarrow> n \<le> 2 ^ 30 \<Longrightarrow>
   \<forall>(cl, r)\<in>set es. cl \<noteq> 0 \<and> dr_request_id r \<noteq> 0 \<and> result_fits n (dr_result r) \<Longrightarrow>
     get_dedup_entries (length es) n m (reader_at pre (concat (map dedup_image es) @ post)) =
       Inr (m @ es, reader_at (pre @ concat (map dedup_image es)) post)"
proof (induction es arbitrary: m pre)
  case (Cons e es)
  obtain cl r where e: "e = (cl, r)" by fastforce
  let ?img = "result_image (dr_result r)"
  have below: "\<forall>k'\<in>fst ` set m. k' < cl" using Cons.prems(1) e by (auto simp: om_invar_append)
  then have ins: "om_insert cl r m = m @ [e]" and absent: "om_find m cl = None"
    by (auto simp: e om_insert_append om_find_None_iff)
  have ok: "cl \<noteq> 0" "dr_request_id r \<noteq> 0" "result_fits n (dr_result r)" using Cons.prems(3) e by auto
  then have "length ?img < 2 ^ 32"
    using Cons.prems(2) by (simp add: length_result_image result_fits_def)
  then have size: "unat (of_nat (length ?img) :: u32) = length ?img" by (simp add: unat_of_nat)
  have eta: "\<lparr>dr_request_id = dr_request_id r, dr_result = dr_result r\<rparr> = r" by simp
  have dec: "decode_result_bytes (Some ?img) (length ?img) n = Inr (dr_result r)"
    using ok(3) Cons.prems(2) by (intro decode_result_image) (auto simp: result_fits_def)
  show ?case
    using Cons.IH [of "m @ [e]" "pre @ dedup_image e"] Cons.prems ins absent dec ok size
    by (simp add: e dedup_image_def codec_simps eta)
qed simp

lemma deserialize_state_image:
  assumes "storable n s"
  shows "deserialize_state n (state_image s) = Inr s"
proof -
  let ?k = "of_nat (length (kv s)) :: u64" and ?d = "of_nat (length (dedup s)) :: u64"
  have n: "unat ?k = length (kv s)" "unat ?d = length (dedup s)"
    using assms by (simp_all add: storable_def unat_of_nat kMaximumItemCount_def)
  have cnt: "\<not> ?k > kMaximumItemCount" "\<not> ?d > kMaximumItemCount"
    using assms n by (simp_all add: storable_def word_less_nat_alt)
  have kvs: "get_kv_entries (length (kv s)) n [] (reader_at pre (concat (map kv_image (kv s)) @ post)) =
      Inr (kv s, reader_at (pre @ concat (map kv_image (kv s))) post)" for pre post
    using get_kv_entries_image [of "[]" "kv s" n pre post] assms
    by (fastforce simp: storable_def state_ok_def)
  have recs: "get_dedup_entries (length (dedup s)) n [] (reader_at pre (concat (map dedup_image (dedup s)))) =
      Inr (dedup s, reader_at (pre @ concat (map dedup_image (dedup s))) [])" for pre
    using get_dedup_entries_image [of "[]" "dedup s" n pre "[]"] assms
    by (simp add: storable_def state_ok_def)
  show ?thesis
    unfolding deserialize_state_def new_reader_at bindE_Inr
    using cnt by (simp add: state_image_def envelope_gets n kvs recs)
qed

text \<open>Whatever bytes are accepted, the loaded state satisfies the invariant.\<close>

lemma get_string_length: "get_string r n = Inr (s, r') \<Longrightarrow> length s \<le> n"
  by (auto simp: get_string_def exn_simps)

lemma get_kv_entries_ok:
  "get_kv_entries c n m r = Inr (m', r') \<Longrightarrow> om_invar m \<Longrightarrow>
   \<forall>(k, v)\<in>set m. length k \<le> n \<and> length v \<le> n \<Longrightarrow>
     om_invar m' \<and> (\<forall>(k, v)\<in>set m'. length k \<le> n \<and> length v \<le> n) \<and> length m' = length m + c"
proof (induction c arbitrary: m r)
  case (Suc c)
  from Suc.prems(1) obtain k r1 v r2
    where k: "get_string r n = Inr (k, r1)" and v: "get_string r1 n = Inr (v, r2)"
      and none: "om_find m k = None" and rest: "get_kv_entries c n (om_insert k v m) r2 = Inr (m', r')"
    by (auto simp: exn_simps)
  have "\<forall>(k, v)\<in>set (om_insert k v m). length k \<le> n \<and> length v \<le> n"
    using set_om_insert_subset [of k v m] get_string_length [OF k] get_string_length [OF v] Suc.prems(3)
    by fastforce
  moreover have "length (om_insert k v m) = Suc (length m)"
    using length_om_insert [of m k v] none Suc.prems(2) by simp
  ultimately show ?case using Suc.IH [OF rest] Suc.prems(2) by fastforce
qed auto

lemma get_dedup_entries_ok:
  "get_dedup_entries c n m r = Inr (m', r') \<Longrightarrow> om_invar m \<Longrightarrow>
   \<forall>(cl, d)\<in>set m. cl \<noteq> 0 \<and> dr_request_id d \<noteq> 0 \<and> result_fits n (dr_result d) \<Longrightarrow>
     om_invar m' \<and> (\<forall>(cl, d)\<in>set m'. cl \<noteq> 0 \<and> dr_request_id d \<noteq> 0 \<and> result_fits n (dr_result d)) \<and>
     length m' = length m + c"
proof (induction c arbitrary: m r)
  case (Suc c)
  from Suc.prems(1) obtain cl rid bs res r1
    where dec: "decode_result_bytes (Some bs) (length bs) n = Inr res"
      and ids: "cl \<noteq> 0" "rid \<noteq> 0" "om_find m cl = None"
      and rest: "get_dedup_entries c n (om_insert cl \<lparr>dr_request_id = rid, dr_result = res\<rparr> m) r1 = Inr (m', r')"
    by (auto simp: exn_simps)
  let ?d = "\<lparr>dr_request_id = rid, dr_result = res\<rparr>"
  have "\<forall>(cl, d)\<in>set (om_insert cl ?d m). cl \<noteq> 0 \<and> dr_request_id d \<noteq> 0 \<and> result_fits n (dr_result d)"
    using set_om_insert_subset [of cl ?d m] decode_result_inv [OF dec] ids Suc.prems(3)
    by (fastforce simp: result_fits_def)
  moreover have "length (om_insert cl ?d m) = Suc (length m)"
    using length_om_insert [of m cl ?d] ids Suc.prems(2) by simp
  ultimately show ?case using Suc.IH [OF rest] Suc.prems(2) by fastforce
qed auto

lemma deserialize_state_ok:
  assumes "deserialize_state n payload = Inr s" and "n \<le> 2 ^ 30"
  shows "storable n s"
proof -
  from assms(1) obtain kc r1 kvs r2 dc r3 recs r4 idx
    where k: "get_kv_entries (unat kc) n [] r1 = Inr (kvs, r2)" "\<not> kc > kMaximumItemCount"
      and d: "get_dedup_entries (unat dc) n [] r3 = Inr (recs, r4)" "\<not> dc > kMaximumItemCount"
      and s: "s = \<lparr>sd_last_commit_index = idx, kv = kvs, dedup = recs\<rparr>"
    by (auto simp: deserialize_state_def exn_simps)
  show ?thesis
    using get_kv_entries_ok [OF k(1)] get_dedup_entries_ok [OF d(1)] k(2) d(2) assms(2)
    by (simp add: s storable_def state_ok_def word_less_nat_alt)
qed

section \<open>Checkpoint and restart\<close>

lemma file_exists_ok [simp]: "script w = [] \<Longrightarrow> file_exists p w = (Ret (files w p \<noteq> None), w)"
  by (simp add: file_exists_def bindP_def sys_call_def)

lemma magic_length [simp]: "length kStateMagic = 4" "length kSnapshotMagic = 4"
  by (simp_all add: kStateMagic_def kSnapshotMagic_def)

lemma kMaximumStateFile_less: "n \<le> kMaximumStateFile \<Longrightarrow> n < 2 ^ 32"
  by (simp add: kMaximumStateFile_def)

lemma load_state_image:
  assumes "script w = []" and "files w (state_file m) = Some f"
    and "content f = record_image kStateMagic (state_image s)" and "storable (max_field_size m) s"
    and "length (state_image s) \<le> kMaximumStateFile"
  shows "load_state m w = (Ret (m\<lparr>state := s\<rparr>), w)"
proof -
  have "read_checked_record (state_file m) kStateMagic kMaximumStateFile w = (Ret (state_image s), w)"
    using assms kMaximumStateFile_less by (intro read_checked_record_ok) simp_all
  then show ?thesis
    using assms deserialize_state_image [OF assms(4)]
    by (simp add: load_state_def bindP_eq install_state_locked_def)
qed

text \<open>The calls \<open>load_state\<close> makes depend on the state file only.\<close>

lemma load_state_frame:
  assumes "script w = []" and "script w' = []" and "files w (state_file m) = files w' (state_file m)"
  shows "fst (load_state m w) = fst (load_state m w')"
proof -
  let ?rec = "read_checked_record (state_file m) kStateMagic kMaximumStateFile"
  obtain x where x: "?rec w = (x, w)" "?rec w' = (x, w')"
    using read_checked_record_frame [OF assms] by blast
  show ?thesis
    using assms x
    by (cases x) (auto simp: load_state_def bindP_def liftP_def split: sum.splits)
qed

lemma checkpoint_cases:
  assumes "checkpoint m w = (r, w')" and "storable n (state m)"
  shows "replaced (state_file m) (record_image kStateMagic (state_image (state m))) w r w'"
    and "elsewhere_kept (state_file m) w w'"
proof -
  have "write_checked_record (state_file m) kStateMagic (state_image (state m)) w = (r, w')"
    using assms serialize_state_image [OF assms(2)]
    by (simp add: checkpoint_def persist_state_locked_def bindP_def)
  then show "replaced (state_file m) (record_image kStateMagic (state_image (state m))) w r w'"
    and "elsewhere_kept (state_file m) w w'"
    by (rule write_checked_record_cases)+
qed

text \<open>The checkpoint as a durable value: it depends on the path and the state of the machine only.\<close>

interpretation kv_checkpoint: durable_value "\<lambda>s. checkpoint (m\<lparr>state := s\<rparr>)" "load_state m" "state_file m"
    "\<lambda>s. record_image kStateMagic (state_image s)" "\<lambda>s. m\<lparr>state := s\<rparr>"
    "\<lambda>s. storable (max_field_size m) s \<and> length (state_image s) \<le> kMaximumStateFile" for m
proof unfold_locales
  fix v :: StateData and w w' r
  assume "storable (max_field_size m) v \<and> length (state_image v) \<le> kMaximumStateFile"
    and "checkpoint (m\<lparr>state := v\<rparr>) w = (r, w')"
  then show "replaced (state_file m) (record_image kStateMagic (state_image v)) w r w'"
    using checkpoint_cases(1) [of "m\<lparr>state := v\<rparr>" w r w' "max_field_size m"] by simp
qed (use load_state_image load_state_frame in auto)

lemma checkpoint_state_only:
  "state_file m\<^sub>0 = state_file m \<Longrightarrow> checkpoint (m\<^sub>0\<lparr>state := state m\<rparr>) = checkpoint m"
  by (simp add: checkpoint_def persist_state_locked_def)

section \<open>Snapshot records\<close>

definition snapshot_image :: "'snap snapshot_api \<Rightarrow> 'snap \<Rightarrow> bytes \<Rightarrow> bytes" where
  "snapshot_image api meta payload =
     be_bytes 2 kSnapshotRecordVersion @ be_bytes 2 (0 :: u16) @
     be_bytes 4 (of_nat (length (snap_serialize api meta)) :: u32) @ snap_serialize api meta @
     be_bytes 4 (of_nat (length payload) :: u32) @ payload"

lemma serialize_snapshot_image:
  "length (snap_serialize api meta) < 2 ^ 32 \<Longrightarrow> length payload < 2 ^ 32 \<Longrightarrow>
     serialize_snapshot_record api meta payload = Inr (snapshot_image api meta payload)"
  by (simp add: serialize_snapshot_record_def snapshot_image_def codec_simps new_writer_def Let_def guardE_def)

lemma deserialize_snapshot_image:
  assumes "snapshot_api_ok api" and "length (snap_serialize api meta) < 2 ^ 32" and "length payload < 2 ^ 32"
    and "deserialize_state n payload = Inr s" and "sd_last_commit_index s = get_last_log_idx api meta"
  shows "deserialize_snapshot_record api n (snapshot_image api meta payload) =
    Inr \<lparr>metadata = meta, state_payload = payload\<rparr>"
proof -
  have n: "unat (of_nat (length (snap_serialize api meta)) :: u32) = length (snap_serialize api meta)"
    "unat (of_nat (length payload) :: u32) = length payload"
    using assms(2,3) by (simp_all add: unat_of_nat)
  have fin: "get_bytes (reader_at pre payload) (length payload) = Inr (payload, reader_at (pre @ payload) [])" for pre
    using get_bytes_at [of pre payload "[]"] by simp
  show ?thesis
    unfolding deserialize_snapshot_record_def new_reader_at bindE_Inr
    using assms by (simp add: snapshot_image_def envelope_gets n fin to_buffer_def snapshot_api_ok_def)
qed

text \<open>The snapshot file after a successful store, and loading from it.\<close>

definition snapshot_fits :: "'snap snapshot_api \<Rightarrow> 'snap \<Rightarrow> bytes \<Rightarrow> bool" where
  "snapshot_fits api meta payload \<longleftrightarrow> length (snapshot_image api meta payload) \<le> kMaximumStateFile"

lemma snapshot_fits_parts:
  "snapshot_fits api meta payload \<Longrightarrow>
     length (snap_serialize api meta) < 2 ^ 32 \<and> length payload < 2 ^ 32 \<and>
     length (snapshot_image api meta payload) < 2 ^ 32"
  by (simp add: snapshot_fits_def snapshot_image_def kMaximumStateFile_def)

definition holds_snapshot :: "'snap snapshot_api \<Rightarrow> 'snap \<Rightarrow> bytes \<Rightarrow> path \<Rightarrow> world \<Rightarrow> bool" where
  "holds_snapshot api meta payload p w \<longleftrightarrow>
     script w = [] \<and> (\<exists>f. files w p = Some f \<and> content f = record_image kSnapshotMagic (snapshot_image api meta payload))"

lemma store_snapshot_ok:
  assumes "script w = []" and "snapshot_fits api meta payload"
  obtains w' where "store_snapshot_file api meta payload m w = (Ret (), w')"
    and "holds_snapshot api meta payload (snapshot_file m) w'"
proof -
  note parts = snapshot_fits_parts [OF assms(2)]
  let ?bs = "record_image kSnapshotMagic (snapshot_image api meta payload)"
  have "checked_record_bytes kSnapshotMagic (snapshot_image api meta payload) = Inr ?bs"
    using parts by (simp add: checked_record_bytes_iff)
  then have "store_snapshot_file api meta payload m w = atomic_write_file (snapshot_file m) ?bs w"
    using parts serialize_snapshot_image [of api meta payload]
    by (simp add: store_snapshot_file_def write_checked_record_def bindP_def)
  then show thesis
    using atomic_write_file_ok [OF assms(1), of "snapshot_file m" ?bs] assms(1)
    by (intro that) (auto simp: holds_snapshot_def)
qed

lemma load_snapshot_ok:
  assumes "holds_snapshot api meta payload (snapshot_file m) w" and "snapshot_fits api meta payload"
    and "snapshot_api_ok api" and "deserialize_state (max_field_size m) payload = Inr s"
    and "sd_last_commit_index s = get_last_log_idx api meta"
  shows "load_snapshot_file api m w = (Ret \<lparr>metadata = meta, state_payload = payload\<rparr>, w)"
proof -
  note parts = snapshot_fits_parts [OF assms(2)]
  have "read_checked_record (snapshot_file m) kSnapshotMagic kMaximumStateFile w
      = (Ret (snapshot_image api meta payload), w)"
    using assms(1,2) parts unfolding holds_snapshot_def snapshot_fits_def
    by (auto intro!: read_checked_record_ok)
  then show ?thesis
    using deserialize_snapshot_image [OF assms(3) _ _ assms(4,5)] parts
    by (simp add: load_snapshot_file_def bindP_eq)
qed

lemma load_snapshot_metadata_ok:
  assumes "holds_snapshot api meta payload (snapshot_file m) w" and "snapshot_fits api meta payload"
    and "snapshot_api_ok api" and "deserialize_state (max_field_size m) payload = Inr s"
    and "sd_last_commit_index s = get_last_log_idx api meta"
  shows "load_snapshot_metadata api m w =
    (Ret (m\<lparr>state := (if sd_last_commit_index s > sd_last_commit_index (state m) then s else state m),
            sm_last_snapshot := Some meta\<rparr>), w)"
proof -
  have "script w = []" "files w (snapshot_file m) \<noteq> None"
    using assms(1) by (auto simp: holds_snapshot_def)
  then show ?thesis
    using load_snapshot_ok [OF assms] assms(4,5)
    by (simp add: load_snapshot_metadata_def bindP_eq bindP_def install_state_locked_def)
qed

section \<open>Reachable machines\<close>

text \<open>
  The machine from its construction on, under any sequence of calls from NuRaft and from the request
  path, over any contents and failures of the files.
\<close>

inductive kv_reachable :: "'snap snapshot_api \<Rightarrow> nat \<Rightarrow> 'snap KvStateMachine \<Rightarrow> bool" for api n where
  start: "new_KvStateMachine api state_dir snapshot_dir n w = (Ret m, w') \<Longrightarrow> kv_reachable api n m"
| commit_entry: "kv_reachable api n m \<Longrightarrow> kv_reachable api n (snd (commit i data m))"
| config_entry: "kv_reachable api n m \<Longrightarrow> kv_reachable api n (commit_config i m)"
| taken: "kv_reachable api n m \<Longrightarrow> kv_reachable api n (snd (take_result i m))"
| snapshot_created: "kv_reachable api n m \<Longrightarrow> create_snapshot api x m w = (Ret (out, m'), w') \<Longrightarrow> kv_reachable api n m'"
| object_saved: "kv_reachable api n m \<Longrightarrow> save_logical_snp_obj api x obj data fst_obj last_obj m w = (Ret (obj', m'), w') \<Longrightarrow>
    kv_reachable api n m'"
| snapshot_applied: "kv_reachable api n m \<Longrightarrow> apply_snapshot api x m w = (Ret (ok, m'), w') \<Longrightarrow> kv_reachable api n m'"

lemma machine_ok_meta [simp]:
  "machine_ok (m\<lparr>sm_last_snapshot := x\<rparr>) = machine_ok m"
  by (simp add: machine_ok_def)

lemma install_machine_ok [inv_intros]:
  assumes "machine_ok m" and "deserialize_state (max_field_size m) payload = Inr s"
  shows "machine_ok (install_state_locked s m)"
  using assms deserialize_state_ok [OF assms(2)]
  by (simp add: machine_ok_def install_state_locked_def storable_def)

lemma load_state_ok [inv_intros]:
  assumes "load_state m w = (Ret m', w')" and "machine_ok m"
  shows "machine_ok m' \<and> max_field_size m' = max_field_size m"
  using assms install_machine_ok [OF assms(2)]
  by (auto simp: load_state_def bindP_Ret_iff install_state_locked_def split: if_splits)

lemma load_snapshot_metadata_machine_ok [inv_intros]:
  assumes "load_snapshot_metadata api m w = (Ret m', w')" and "machine_ok m"
  shows "machine_ok m' \<and> max_field_size m' = max_field_size m"
  using assms install_machine_ok [OF assms(2)]
  by (auto simp: load_snapshot_metadata_def bindP_Ret_iff install_state_locked_def split: if_splits)

lemma catchP_Ret_cases:
  assumes "catchP m h s = (Ret x, t)"
  obtains "m s = (Ret x, t)" | e s' where "m s = (Throw e, s')" and "h e s' = (Ret x, t)"
  using assms by (auto simp: catchP_def split: prod.splits outcome.splits)

lemma create_snapshot_machine:
  assumes "create_snapshot api x m w = (Ret (out, m'), w')"
  shows "\<exists>y. m' = m\<lparr>sm_last_snapshot := y\<rparr>"
  using assms unfolding create_snapshot_def
  by (elim catchP_Ret_cases)
    (auto simp: bindP_Ret_iff intro: exI [of _ "sm_last_snapshot m"])

lemma apply_snapshot_machine_ok [inv_intros]:
  assumes "apply_snapshot api x m w = (Ret (ok, m'), w')" and "machine_ok m"
  shows "machine_ok m' \<and> max_field_size m' = max_field_size m"
proof -
  have "machine_ok ((install_state_locked s m)\<lparr>sm_last_snapshot := y, recent_results := []\<rparr>)"
    if "deserialize_state (max_field_size m) payload = Inr s" for s y payload
    using install_machine_ok [OF assms(2) that] by (simp add: machine_ok_def)
  then show ?thesis
    using assms unfolding apply_snapshot_def
    by (elim catchP_Ret_cases)
      (auto simp: bindP_Ret_iff install_state_locked_def split: if_splits)
qed

lemma reachable_machine_ok:
  assumes "kv_reachable api n m" and "26 \<le> n" and "n \<le> 2 ^ 30"
  shows "machine_ok m \<and> max_field_size m = n"
  using assms(1)
proof induction
  case (start state_dir snapshot_dir w m w')
  let ?m = "\<lparr>state_file = path_join state_dir ''kv-state.bin'',
    snapshot_file = path_join snapshot_dir ''latest.bin'', max_field_size = n, state = initial_state,
    recent_results = [], sm_last_snapshot = None\<rparr>"
  have "machine_ok ?m" using assms(2,3) by (simp add: machine_ok_def state_ok_def initial_state_def)
  moreover obtain m1 w1 where "load_state ?m w = (Ret m1, w1)" "load_snapshot_metadata api m1 w1 = (Ret m, w')"
    using start assms(2) by (auto simp: new_KvStateMachine_def Let_def bindP_Ret_iff)
  ultimately show ?case using load_state_ok load_snapshot_metadata_machine_ok by fastforce
next
  case (commit_entry m i data)
  then show ?case using commit_machine_ok [of m i data] by (simp add: commit_result(2))
next
  case (config_entry m i)
  then show ?case using commit_config_machine_ok [of m i] by (simp add: commit_config_def)
next
  case (taken m i)
  then show ?case using take_result_machine_ok [of m i] by (auto simp: take_result_def split: option.splits)
next
  case (snapshot_created m x w out m' w')
  then show ?case using create_snapshot_machine by fastforce
next
  case (object_saved m x obj data fst_obj last_obj w obj' m' w')
  then show ?case
    by (auto simp: save_logical_snp_obj_def bindP_Ret_iff)
next
  case (snapshot_applied m x w ok m' w')
  then show ?case using apply_snapshot_machine_ok by fastforce
qed

section \<open>Properties\<close>

text \<open>
  The state image is lossless: a state within the field and item limits is serialized without
  error, and deserializing the image gives back exactly the applied index, the keys and values and
  the dedup records.
\<close>

theorem state_image_roundtrip:
  assumes "storable n s"
  shows "\<exists>payload. serialize_state_locked s = Inr payload \<and> deserialize_state n payload = Inr s"
  using serialize_state_image [OF assms] deserialize_state_image [OF assms] by blast

definition example_state :: StateData where
  "example_state = \<lparr>sd_last_commit_index = 9, kv = [(''a'', ''1''), (''b'', ''x'')],
     dedup = [(7, \<lparr>dr_request_id = 3, dr_result = ApplyResult_integer_value 1\<rparr>)]\<rparr>"

lemma example_state_storable: "storable 64 example_state"
  by (simp add: storable_def state_ok_def example_state_def kMaximumItemCount_def)

theorem state_image_roundtrip_witness:
  "\<exists>payload. serialize_state_locked example_state = Inr payload \<and>
     deserialize_state 64 payload = Inr example_state"
  using state_image_roundtrip [OF example_state_storable] .

text \<open>
  C7. A checkpoint of a state of up to 1 GiB is atomic across failures, crashes and power loss: whatever
  happens to its system calls, the process restarted after a power loss loads from the checkpoint
  file either what it could have loaded had the power failed before the checkpoint (and then the
  checkpoint did not return), or exactly the state that was checkpointed. Once \<open>checkpoint\<close> has
  returned, only the second is possible: the content and the directory are both synced.
\<close>

theorem checkpoint_survives_power_loss:
  assumes "checkpoint m w = (r, w')" and "storable (max_field_size m) (state m)"
    and "length (state_image (state m)) \<le> kMaximumStateFile"
    and "state_file m\<^sub>0 = state_file m" and "max_field_size m\<^sub>0 = max_field_size m"
  shows "(\<exists>kept'. fst (load_state m\<^sub>0 (power_loss kept w')) = fst (load_state m\<^sub>0 (power_loss kept' w))) \<and> r \<noteq> Ret () \<or>
    fst (load_state m\<^sub>0 (power_loss kept w')) = Ret (m\<^sub>0\<lparr>state := state m\<rparr>)"
  using kv_checkpoint.survives_power_loss [of m\<^sub>0 "state m" w r w' kept] checkpoint_state_only [OF assms(4)] assms
  by simp

definition checkpoint_machine :: "nat KvStateMachine" where
  "checkpoint_machine = example_machine\<lparr>state := example_state\<rparr>"

lemma example_state_image_small: "length (state_image example_state) \<le> kMaximumStateFile"
  by (simp add: state_image_def example_state_def kv_image_def dedup_image_def length_result_image
      kMaximumStateFile_def ApplyResult_integer_value_def ApplyResult_ok_def)

theorem checkpoint_survives_power_loss_witness:
  "\<exists>w'. checkpoint checkpoint_machine empty_world = (Ret (), w') \<and>
     fst (load_state example_machine (power_loss (\<lambda>_. (0, 1)) w')) = Ret checkpoint_machine"
proof -
  have st: "storable (max_field_size checkpoint_machine) (state checkpoint_machine)"
    using example_state_storable by (simp add: checkpoint_machine_def example_machine_def)
  have "\<exists>w'. checkpoint checkpoint_machine empty_world = (Ret (), w')"
    using serialize_state_image [OF st] example_state_image_small
      checked_record_bytes_iff [of kStateMagic "state_image example_state" "record_image kStateMagic (state_image example_state)"]
      kMaximumStateFile_less [of "length (state_image example_state)"]
    by (simp add: checkpoint_def persist_state_locked_def write_checked_record_def bindP_def
        checkpoint_machine_def atomic_write_file_ok empty_world_def)
  then obtain w' where w': "checkpoint checkpoint_machine empty_world = (Ret (), w')" ..
  then show ?thesis
    using checkpoint_survives_power_loss [OF w' st, of example_machine "\<lambda>_. (0, 1)"] example_state_image_small
    by (auto simp: checkpoint_machine_def example_machine_def empty_world_def)
qed

text \<open>
  After a restart the machine holds the newer of the checkpoint and the snapshot, whichever was
  written last, and remembers the snapshot.
\<close>

theorem restart_takes_newest:
  assumes "snapshot_api_ok api" and "0 < n"
    and "files w (path_join state_dir ''kv-state.bin'') = Some f"
    and "content f = record_image kStateMagic (state_image s)" and "storable n s"
    and "length (state_image s) \<le> kMaximumStateFile"
    and "holds_snapshot api meta (state_image t) (path_join snapshot_dir ''latest.bin'') w"
    and "snapshot_fits api meta (state_image t)" and "storable n t"
    and "sd_last_commit_index t = get_last_log_idx api meta"
  shows "\<exists>m. new_KvStateMachine api state_dir snapshot_dir n w = (Ret m, w) \<and>
    state m = (if sd_last_commit_index s < sd_last_commit_index t then t else s) \<and>
    last_snapshot m = Some meta"
proof -
  define m where "m = \<lparr>state_file = path_join state_dir ''kv-state.bin'',
    snapshot_file = path_join snapshot_dir ''latest.bin'', max_field_size = n, state = initial_state,
    recent_results = [], sm_last_snapshot = None :: 'a option\<rparr>"
  have script: "script w = []" using assms(7) by (simp add: holds_snapshot_def)
  have l: "load_state m w = (Ret (m\<lparr>state := s\<rparr>), w)"
    using script assms(3-6) by (intro load_state_image) (simp_all add: m_def)
  have "deserialize_state n (state_image t) = Inr t" by (rule deserialize_state_image) (rule assms(9))
  then have "load_snapshot_metadata api (m\<lparr>state := s\<rparr>) w = (Ret (m\<lparr>state := s\<rparr>
      \<lparr>state := (if sd_last_commit_index t > sd_last_commit_index s then t else s),
       sm_last_snapshot := Some meta\<rparr>), w)"
    using load_snapshot_metadata_ok [of api meta "state_image t" "m\<lparr>state := s\<rparr>" w t] assms
    by (simp add: m_def)
  moreover have "new_KvStateMachine api state_dir snapshot_dir n w =
      load_snapshot_metadata api (m\<lparr>state := s\<rparr>) w"
    using l assms(2) by (simp add: new_KvStateMachine_def Let_def bindP_eq flip: m_def)
  ultimately show ?thesis by (simp add: last_snapshot_def)
qed

definition toy_snapshots :: "u64 snapshot_api" where
  "toy_snapshots = \<lparr>snap_serialize = be_bytes 8,
     snap_deserialize = (\<lambda>bs. if length bs = 8 then Inr (be_value bs) else Inl (DecodeError '''')),
     get_last_log_idx = id\<rparr>"

lemma toy_snapshots_ok: "snapshot_api_ok toy_snapshots"
  by (simp add: snapshot_api_ok_def toy_snapshots_def be_value_be_bytes)

definition restart_world :: world where
  "restart_world = \<lparr>files =
     [''d/kv-state.bin'' \<mapsto> \<lparr>content = record_image kStateMagic (state_image initial_state), synced = 0\<rparr>,
      ''e/latest.bin'' \<mapsto> \<lparr>content = record_image kSnapshotMagic
        (snapshot_image toy_snapshots 9 (state_image example_state)), synced = 0\<rparr>], older = (\<lambda>_. []), script = []\<rparr>"

lemma example_snapshot_fits: "snapshot_fits toy_snapshots 9 (state_image example_state)"
  by (simp add: snapshot_fits_def snapshot_image_def toy_snapshots_def state_image_def example_state_def
      kv_image_def dedup_image_def length_result_image kMaximumStateFile_def
      ApplyResult_integer_value_def ApplyResult_ok_def)

theorem restart_takes_newest_witness:
  "\<exists>m. new_KvStateMachine toy_snapshots ''d'' ''e'' 64 restart_world = (Ret m, restart_world) \<and>
     state m = example_state"
proof -
  have "storable 64 initial_state"
    by (simp add: storable_def state_ok_def initial_state_def)
  moreover have "length (state_image initial_state) \<le> kMaximumStateFile"
    by (simp add: state_image_def initial_state_def kMaximumStateFile_def)
  moreover have "sd_last_commit_index initial_state < sd_last_commit_index example_state"
    by (simp add: initial_state_def example_state_def)
  ultimately show ?thesis
    using restart_takes_newest [OF toy_snapshots_ok, of 64 restart_world "''d''" _ initial_state 9
        example_state "''e''"] example_state_storable example_snapshot_fits
    by (auto simp: restart_world_def path_join_def holds_snapshot_def toy_snapshots_def
        example_state_def)
qed

text \<open>
  C9. Snapshot transfer: the object a leader reads from the snapshot it created, saved and applied by
  a follower, gives the follower exactly the leader's state at the snapshot index, with the
  snapshot remembered and no stale results cached.
\<close>

theorem snapshot_transfer:
  assumes "snapshot_api_ok api" and "storable (max_field_size m) (state m)"
    and "max_field_size f = max_field_size m"
    and "sd_last_commit_index (state m) = get_last_log_idx api snap"
    and "snapshot_fits api snap (state_image (state m))"
    and "script w = []" and "script v = []"
  shows "\<exists>m' w' data f' v' g.
    create_snapshot api snap m w = (Ret ((True, None), m'), w') \<and>
    read_logical_snp_obj api snap 0 m' w' = (Ret (0, Some data, True), w') \<and>
    save_logical_snp_obj api snap 0 data True True f v = (Ret (1, f'), v') \<and>
    apply_snapshot api snap f' v' = (Ret (True, g), v') \<and>
    state g = state m \<and> last_snapshot g = Some snap \<and> recent_results g = []"
proof -
  let ?p = "state_image (state m)"
  let ?m = "m\<lparr>sm_last_snapshot := Some snap\<rparr>" and ?f = "f\<lparr>sm_last_snapshot := Some snap\<rparr>"
  note ser = serialize_state_image [OF assms(2)] and des = deserialize_state_image [OF assms(2)]
  have api: "snap_deserialize api (snap_serialize api snap) = Inr snap"
    using assms(1) by (simp add: snapshot_api_ok_def)
  obtain w' where w': "store_snapshot_file api snap ?p m w = (Ret (), w')"
    "holds_snapshot api snap ?p (snapshot_file m) w'"
    using store_snapshot_ok [OF assms(6,5)] by blast
  obtain v' where v': "store_snapshot_file api snap ?p f v = (Ret (), v')"
    "holds_snapshot api snap ?p (snapshot_file f) v'"
    using store_snapshot_ok [OF assms(7,5)] by blast
  have "create_snapshot api snap m w = (Ret ((True, None), ?m), w')"
    using w'(1) ser api assms(4) by (simp add: create_snapshot_def bindP_def catchP_def)
  moreover have "read_logical_snp_obj api snap 0 ?m w' = (Ret (0, Some ?p, True), w')"
    using load_snapshot_ok [of api snap ?p ?m w' "state m"] w'(2) assms(1,4,5) des
    by (simp add: read_logical_snp_obj_def bindP_def catchP_def to_buffer_def)
  moreover have "save_logical_snp_obj api snap 0 ?p True True f v = (Ret (1, ?f), v')"
    using v'(1) api des assms(3,4) by (simp add: save_logical_snp_obj_def bindP_def to_bytes_def)
  moreover have "apply_snapshot api snap ?f v' =
      (Ret (True, (install_state_locked (state m) ?f)\<lparr>sm_last_snapshot := Some snap, recent_results := []\<rparr>), v')"
    using load_snapshot_ok [of api snap ?p ?f v' "state m"] v'(2) assms(1,3,4,5) des
    by (simp add: apply_snapshot_def bindP_def catchP_def)
  ultimately show ?thesis
    by (intro exI conjI) (assumption+, simp_all add: install_state_locked_def last_snapshot_def)
qed

definition leader_machine :: "u64 KvStateMachine" where
  "leader_machine = \<lparr>state_file = ''s'', snapshot_file = ''t'', max_field_size = 64,
     state = example_state, recent_results = [], sm_last_snapshot = None\<rparr>"

definition follower_machine :: "u64 KvStateMachine" where
  "follower_machine = leader_machine\<lparr>state := initial_state\<rparr>"

theorem snapshot_transfer_witness:
  "\<exists>m' w' data f' v' g.
    create_snapshot toy_snapshots 9 leader_machine empty_world = (Ret ((True, None), m'), w') \<and>
    read_logical_snp_obj toy_snapshots 9 0 m' w' = (Ret (0, Some data, True), w') \<and>
    save_logical_snp_obj toy_snapshots 9 0 data True True follower_machine empty_world = (Ret (1, f'), v') \<and>
    apply_snapshot toy_snapshots 9 f' v' = (Ret (True, g), v') \<and> state g = example_state"
proof -
  have "storable (max_field_size leader_machine) (state leader_machine)"
    "max_field_size follower_machine = max_field_size leader_machine"
    "sd_last_commit_index (state leader_machine) = get_last_log_idx toy_snapshots 9"
    "snapshot_fits toy_snapshots 9 (state_image (state leader_machine))"
    using example_state_storable example_snapshot_fits
    by (simp_all add: leader_machine_def follower_machine_def example_state_def toy_snapshots_def)
  from snapshot_transfer [OF toy_snapshots_ok this, of empty_world empty_world]
  obtain m' w' data f' v' g where
    "create_snapshot toy_snapshots 9 leader_machine empty_world = (Ret ((True, None), m'), w')"
    "read_logical_snp_obj toy_snapshots 9 0 m' w' = (Ret (0, Some data, True), w')"
    "save_logical_snp_obj toy_snapshots 9 0 data True True follower_machine empty_world = (Ret (1, f'), v')"
    "apply_snapshot toy_snapshots 9 f' v' = (Ret (True, g), v')" "state g = state leader_machine"
    by (auto simp: empty_world_def)
  moreover have "state leader_machine = example_state" by (simp add: leader_machine_def)
  ultimately show ?thesis by metis
qed

text \<open>
  C28. Every reachable machine is well formed, whatever the files contained at start and whatever
  snapshots arrived: keys and values within the limit, dedup records of real clients and requests,
  at most 65536 cached results, all of them encodable.
\<close>

theorem reachable_well_formed:
  assumes "kv_reachable api n m" and "26 \<le> n" and "n \<le> 2 ^ 30"
  shows "machine_ok m \<and> max_field_size m = n"
  using assms by (rule reachable_machine_ok)

theorem reachable_well_formed_witness:
  "\<exists>m. kv_reachable toy_snapshots 64 m \<and> machine_ok (snd (commit 1 [] m))"
proof -
  have "\<exists>m. new_KvStateMachine toy_snapshots ''d'' ''e'' 64 empty_world = (Ret m, empty_world)"
    by (simp add: new_KvStateMachine_def Let_def load_state_def load_snapshot_metadata_def
        bindP_def empty_world_def)
  then obtain m where m: "kv_reachable toy_snapshots 64 m"
    using kv_reachable.start by blast
  then have "kv_reachable toy_snapshots 64 (snd (commit 1 [] m))" by (rule kv_reachable.commit_entry)
  then show ?thesis using reachable_well_formed [of toy_snapshots 64 "snd (commit 1 [] m)"] m by auto
qed

text \<open>
  C37. The checkpoint writer and its loader disagree on the size limit: a checkpoint whose image
  exceeds 1 GiB is written without an error, and every later start refuses to load it.
\<close>

theorem oversized_checkpoint_is_not_loadable:
  assumes "storable (max_field_size m) (state m)" and "script w = []"
    and "kMaximumStateFile < length (state_image (state m))" and "length (state_image (state m)) < 2 ^ 32"
  shows "\<exists>w' e. checkpoint m w = (Ret (), w') \<and> load_state m w' = (Throw e, w')"
proof -
  let ?img = "record_image kStateMagic (state_image (state m))"
  have "checked_record_bytes kStateMagic (state_image (state m)) = Inr ?img"
    using assms(4) by (simp add: checked_record_bytes_iff)
  then have "checkpoint m w = atomic_write_file (state_file m) ?img w"
    using serialize_state_image [OF assms(1)]
    by (simp add: checkpoint_def persist_state_locked_def write_checked_record_def bindP_def)
  then obtain w' where w': "checkpoint m w = (Ret (), w')" "script w' = []"
    "files w' (state_file m) = Some \<lparr>content = ?img, synced = length ?img\<rparr>"
    using atomic_write_file_ok [OF assms(2), of "state_file m" ?img] assms(2) by simp
  then have "load_state m w' = (Throw (Runtime_error (''file exceeds configured limit: '' @ state_file m)), w')"
    using assms(3) by (simp add: load_state_def read_checked_record_def read_file_def bindP_def sys_call_def
        record_overhead_def)
  with w'(1) show ?thesis by blast
qed

definition large_state :: StateData where
  "large_state = \<lparr>sd_last_commit_index = 1, kv = [(''k'', replicate (2 ^ 30) CHR ''x'')], dedup = []\<rparr>"

theorem oversized_checkpoint_is_not_loadable_witness:
  "\<exists>w' e. checkpoint (example_machine\<lparr>max_field_size := 2 ^ 30, state := large_state\<rparr>) empty_world = (Ret (), w') \<and>
     load_state (example_machine\<lparr>max_field_size := 2 ^ 30, state := large_state\<rparr>) w' = (Throw e, w')"
proof -
  have len: "length (state_image large_state) = 2 ^ 30 + 37"
    by (simp add: state_image_def large_state_def kv_image_def)
  have "storable (2 ^ 30) large_state"
    by (simp add: storable_def state_ok_def large_state_def kMaximumItemCount_def)
  then show ?thesis
    using oversized_checkpoint_is_not_loadable
      [of "example_machine\<lparr>max_field_size := 2 ^ 30, state := large_state\<rparr>" empty_world] len
    by (simp add: kMaximumStateFile_def empty_world_def)
qed

end
