(* ===== verification/File_Log_Store.thy ===== *)
theory File_Log_Store
  imports File_Util Ordered_Map
begin

text \<open>
  The Raft log store, \<^verbatim>\<open>src/src/storage/file_log_store.{h,cpp}\<close>: an append-only write-ahead log
  of checksummed frames, kept in memory as a map from indexes to entries, with the frames of the
  current append batch pending until they are written and synced together.

  \<^theory_text>\<open>nuraft::log_entry\<close> is what its getters return; its serialization belongs to
  NuRaft and is the parameter \<open>entry_api\<close>. The hypothesis \<open>entry_api_ok\<close> says that a serialized
  entry is not empty, is read back with the same term, type and payload (time stamps and checksums
  need not survive), and that what was read back serializes to the same bytes. \<^theory_text>\<open>nuraft::buffer\<close> integers, used by \<open>pack\<close>, are the
  parameter \<open>buffer_api\<close>.

  Every operation runs under the store's mutex and is a program over the store and the world, so
  that the fields keep the values they have when an exception leaves the operation. The file
  descriptor is open or not; what it refers to is the file at the store's path, which is replaced
  only while the descriptor is closed.
\<close>

section \<open>Parameters\<close>

record log_entry =
  le_term :: u64
  le_buf :: bytes
  le_val_type :: u8
  le_timestamp :: u64
  le_has_crc32 :: bool
  le_crc32 :: u32

record entry_api =
  le_serialize :: "log_entry \<Rightarrow> bytes"
  le_deserialize :: "bytes \<Rightarrow> exn + log_entry"

text \<open>What NuRaft preserves of an entry.\<close>

definition entry_core :: "log_entry \<Rightarrow> u64 \<times> u8 \<times> bytes" where
  "entry_core e = (le_term e, le_val_type e, le_buf e)"

definition entry_api_ok :: "entry_api \<Rightarrow> bool" where
  "entry_api_ok api \<longleftrightarrow>
     (\<forall>e. le_serialize api e \<noteq> [] \<and>
        (\<exists>e'. le_deserialize api (le_serialize api e) = Inr e' \<and> entry_core e' = entry_core e \<and>
           le_serialize api e' = le_serialize api e))"

record buffer_api =
  put_int32 :: "i32 \<Rightarrow> bytes"
  get_int :: "bytes \<Rightarrow> nat \<Rightarrow> exn + i32"

definition buffer_api_ok :: "buffer_api \<Rightarrow> bool" where
  "buffer_api_ok api \<longleftrightarrow>
     (\<forall>v pre post. length (put_int32 api v) = 4 \<and>
        get_int api (pre @ put_int32 api v @ post) (length pre) = Inr v)"

section \<open>The store\<close>

record FileLogStore =
  log_file :: path
  ls_start_index :: u64
  entries :: "(u64, log_entry) omap"
  offsets :: "(u64, u64) omap"
  pending :: bytes
  pending_start_index :: u64
  pending_count :: u64
  durable_index :: u64
  file_size :: u64
  fd_open :: bool

type_synonym 'a store_prog = "(FileLogStore \<times> world, 'a) prog"

definition kLegacyLogMagic :: bytes where "kLegacyLogMagic = string_bytes ''SKLG''"
definition kWalMagic :: bytes where "kWalMagic = string_bytes ''SKW2''"
definition kWalVersion :: u16 where "kWalVersion = 2"
definition kEntryVersion :: u16 where "kEntryVersion = 1"
definition kHeaderSize :: nat where "kHeaderSize = 24"
definition kMaximumLogFile :: nat where "kMaximumLogFile = 4 * 1024 * 1024 * 1024"
definition kMaximumEntryCount :: u64 where "kMaximumEntryCount = 100000000"
definition kMaximumEntrySize :: nat where "kMaximumEntrySize = 64 * 1024 * 1024"

definition log_io_error :: "string \<Rightarrow> path \<Rightarrow> string \<Rightarrow> exn" where
  "log_io_error operation p strerror = Runtime_error (operation @ '' failed for '' @ p @ '': '' @ strerror)"

definition get_store :: "(FileLogStore \<Rightarrow> 'a) \<Rightarrow> 'a store_prog" where
  "get_store f = getP (\<lambda>s. f (fst s))"

definition mod_store :: "(FileLogStore \<Rightarrow> FileLogStore) \<Rightarrow> unit store_prog" where
  "mod_store f = modifyP (\<lambda>s. (f (fst s), snd s))"

lemma get_store_bind: "bindP (get_store f) g (l, w) = g (f l) (l, w)"
  by (simp add: get_store_def bindP_def)

lemma mod_store_bind: "bindP (mod_store f) g (l, w) = g () (f l, w)"
  by (simp add: mod_store_def bindP_def)

definition sync_data :: "path \<Rightarrow> (world, unit) prog" where
  "sync_data p = sys_call (log_io_error ''fdatasync'' p) (sync_file p)"

definition make_buffer :: "bytes \<Rightarrow> bytes" where
  "make_buffer bs = bs"

definition starts_with :: "bytes \<Rightarrow> bytes \<Rightarrow> bool" where
  "starts_with bs prefix \<longleftrightarrow> length bs \<ge> length prefix \<and> take (length prefix) bs = prefix"

text \<open>\<open>::open\<close> without \<open>O_CREAT\<close> fails on a missing file.\<close>

definition open_file :: "path \<Rightarrow> (world, unit) prog" where
  "open_file p =
     bindP (sys_call (log_io_error ''open'' p) id) (\<lambda>_.
     bindP (getP (\<lambda>w. files w p)) (\<lambda>node.
     if node = None then throwP (log_io_error ''open'' p ''No such file or directory'') else retP ()))"

definition open_locked :: "unit store_prog" where
  "open_locked =
     bindP (get_store (\<lambda>l. (fd_open l, log_file l))) (\<lambda>(opened, p).
     if opened then retP ()
     else bindP (in_world (open_file p)) (\<lambda>_. mod_store (\<lambda>l. l\<lparr>fd_open := True\<rparr>)))"

definition close_locked :: "unit store_prog" where
  "close_locked = mod_store (\<lambda>l. l\<lparr>fd_open := False\<rparr>)"

definition truncate_locked :: "u64 \<Rightarrow> unit store_prog" where
  "truncate_locked sz =
     bindP open_locked (\<lambda>_.
     bindP (get_store log_file) (\<lambda>p.
     bindP (in_world (sys_call (log_io_error ''truncate'' p) (truncate_file p (unat sz)))) (\<lambda>_.
     mod_store (\<lambda>l. l\<lparr>file_size := sz\<rparr>))))"

section \<open>Entries and indexes\<close>

definition clone_entry :: "log_entry \<Rightarrow> log_entry" where
  "clone_entry e = \<lparr>le_term = le_term e, le_buf = le_buf e, le_val_type = le_val_type e,
     le_timestamp = le_timestamp e, le_has_crc32 = le_has_crc32 e, le_crc32 = le_crc32 e\<rparr>"

text \<open>\<open>dummy_entry\<close>: term 0 and an 8-byte buffer (whose bytes NuRaft leaves to the allocator: the
  parameter); \<open>app_log\<close>, type 1, is NuRaft's default.\<close>

definition dummy_entry :: "bytes \<Rightarrow> log_entry" where
  "dummy_entry raw = \<lparr>le_term = 0, le_buf = raw, le_val_type = 1, le_timestamp = 0,
     le_has_crc32 = False, le_crc32 = 0\<rparr>"

definition next_slot_locked :: "FileLogStore \<Rightarrow> u64" where
  "next_slot_locked l = (if entries l = [] then ls_start_index l else fst (last (entries l)) + 1)"

definition next_slot :: "FileLogStore \<Rightarrow> u64" where
  "next_slot l = next_slot_locked l"

definition start_index :: "FileLogStore \<Rightarrow> u64" where
  "start_index l = ls_start_index l"

definition last_entry :: "bytes \<Rightarrow> FileLogStore \<Rightarrow> log_entry" where
  "last_entry raw l = (if entries l = [] then dummy_entry raw else clone_entry (snd (last (entries l))))"

definition entry_at :: "bytes \<Rightarrow> u64 \<Rightarrow> FileLogStore \<Rightarrow> log_entry" where
  "entry_at raw index l =
     (case om_find (entries l) index of None \<Rightarrow> dummy_entry raw | Some e \<Rightarrow> clone_entry e)"

definition term_at :: "u64 \<Rightarrow> FileLogStore \<Rightarrow> u64" where
  "term_at index l = (case om_find (entries l) index of None \<Rightarrow> 0 | Some e \<Rightarrow> le_term e)"

definition last_durable_index :: "FileLogStore \<Rightarrow> u64" where
  "last_durable_index l = durable_index l"

section \<open>Frames\<close>

definition encode_header_locked :: "u64 \<Rightarrow> exn + bytes" where
  "encode_header_locked start =
     bindE (put_raw new_writer (Some kWalMagic) (length kWalMagic)) (\<lambda>w.
       let w = put_u16 w kWalVersion;
           w = put_u16 w 0;
           w = put_u64 w start
       in Inr (wdata (put_u64 w (fnv1a64 (wdata w)))))"

definition encode_entry_locked :: "entry_api \<Rightarrow> u64 \<Rightarrow> log_entry \<Rightarrow> exn + bytes" where
  "encode_entry_locked api index e =
     (let serialized = le_serialize api e in
      bindE (guardE (\<not> (length serialized = 0 \<or> length serialized > kMaximumEntrySize))
               (Length_error ''Raft WAL entry exceeds size limit'')) (\<lambda>_.
      let body = put_u16 new_writer kEntryVersion;
          body = put_u16 body 0;
          body = put_u64 body index;
          body = put_u32 body (of_nat (length serialized))
      in bindE (put_raw body (Some serialized) (length serialized)) (\<lambda>body.
         let frame = put_u32 new_writer (of_nat (length (wdata body)))
         in bindE (put_raw frame (Some (wdata body)) (length (wdata body))) (\<lambda>frame.
            Inr (wdata (put_u64 frame (fnv1a64 (wdata body))))))))"

definition encode_all_locked :: "entry_api \<Rightarrow> u64 \<Rightarrow> (u64, log_entry) omap \<Rightarrow> exn + bytes" where
  "encode_all_locked api start es =
     bindE (encode_header_locked start) (\<lambda>header.
     bindE (put_raw new_writer (Some header) (length header)) (\<lambda>output.
     bindE (foldE (\<lambda>(index, e) output.
              bindE (encode_entry_locked api index e) (\<lambda>frame.
              put_raw output (Some frame) (length frame))) es output) (\<lambda>output.
     Inr (wdata output))))"

section \<open>Writing\<close>

definition queue_entry_locked :: "entry_api \<Rightarrow> u64 \<Rightarrow> log_entry \<Rightarrow> unit store_prog" where
  "queue_entry_locked api index e =
     bindP (get_store id) (\<lambda>l.
     bindP (if pending_count l = 0 then mod_store (\<lambda>l. l\<lparr>pending_start_index := index\<rparr>)
            else if index \<noteq> pending_start_index l + pending_count l
            then throwP (Runtime_error ''non-contiguous pending Raft WAL batch'')
            else retP ()) (\<lambda>_.
     bindP (liftP (encode_entry_locked api index e)) (\<lambda>frame.
     mod_store (\<lambda>l. l\<lparr>offsets := om_insert index (file_size l + of_nat (length (pending l))) (offsets l),
                      pending := pending l @ frame,
                      pending_count := pending_count l + 1\<rparr>))))"

definition sync_pending_locked :: "unit store_prog" where
  "sync_pending_locked =
     bindP (get_store pending) (\<lambda>bs.
     if bs = [] then retP ()
     else
       bindP open_locked (\<lambda>_.
       bindP (get_store log_file) (\<lambda>p.
       bindP (in_world (write_all (log_io_error ''write'' p) p bs)) (\<lambda>_.
       bindP (in_world (sync_data p)) (\<lambda>_.
       mod_store (\<lambda>l. l\<lparr>file_size := file_size l + of_nat (length (pending l)),
                        durable_index := pending_start_index l + pending_count l - 1,
                        pending := [], pending_start_index := 0, pending_count := 0\<rparr>))))))"

text \<open>The loop that recomputes the offsets after a rewrite.\<close>

fun rewrite_offsets ::
  "entry_api \<Rightarrow> (u64, log_entry) omap \<Rightarrow> u64 \<Rightarrow> (u64, u64) omap \<Rightarrow> exn + (u64, u64) omap" where
  "rewrite_offsets api [] offset os = Inr os"
| "rewrite_offsets api ((index, e) # es) offset os =
     bindE (encode_entry_locked api index e) (\<lambda>frame.
     rewrite_offsets api es (offset + of_nat (length frame)) (om_insert index offset os))"

definition rewrite_locked :: "entry_api \<Rightarrow> unit store_prog" where
  "rewrite_locked api =
     bindP (mod_store (\<lambda>l. l\<lparr>pending := [], pending_start_index := 0, pending_count := 0\<rparr>)) (\<lambda>_.
     bindP close_locked (\<lambda>_.
     bindP (get_store id) (\<lambda>l.
     bindP (liftP (encode_all_locked api (ls_start_index l) (entries l))) (\<lambda>bs.
     bindP (in_world (atomic_write_file (log_file l) bs)) (\<lambda>_.
     bindP (liftP (rewrite_offsets api (entries l) (of_nat kHeaderSize) [])) (\<lambda>os.
     bindP (mod_store (\<lambda>l. l\<lparr>offsets := os, file_size := of_nat (length bs),
                             durable_index := next_slot_locked l - 1\<rparr>)) (\<lambda>_.
     open_locked)))))))"

section \<open>Loading\<close>

text \<open>One round of the frame loop: the tail is torn, or the frame is an entry.\<close>

datatype wal_step = Torn | Frame u64 log_entry nat

definition wal_frame :: "entry_api \<Rightarrow> bytes \<Rightarrow> nat \<Rightarrow> u64 \<Rightarrow> exn + wal_step" where
  "wal_frame api bs position expected =
     (if length bs - position < 4 then Inr Torn
      else
        bindE (new_reader (Some (drop position bs)) (length bs - position)) (\<lambda>frame_prefix.
        bindE (get_u32 frame_prefix) (\<lambda>(body_size32, _).
        let body_size = unat body_size32;
            position = position + 4
        in
        if body_size < 2 * 2 + 8 + 4 \<or> body_size > kMaximumEntrySize + 32 \<or>
           length bs - position < body_size + 8
        then Inr Torn
        else
          let body = take body_size (drop position bs);
              position = position + body_size
          in
          bindE (new_reader (Some (take 8 (drop position bs))) 8) (\<lambda>checksum_reader.
          bindE (get_u64 checksum_reader) (\<lambda>(stored, _).
          let position = position + 8 in
          if stored \<noteq> fnv1a64 body then
            (if position \<noteq> length bs then Inl (DecodeError ''Raft WAL checksum mismatch before tail'')
             else Inr Torn)
          else
            bindE (new_reader (Some body) body_size) (\<lambda>r.
            bindE (get_u16 r) (\<lambda>(ver, r).
            bindE (guardE (ver = kEntryVersion) (DecodeError ''unsupported Raft WAL entry version'')) (\<lambda>_.
            bindE (get_u16 r) (\<lambda>(reserved, r).
            bindE (guardE (reserved = 0) (DecodeError ''unsupported Raft WAL entry version'')) (\<lambda>_.
            bindE (get_u64 r) (\<lambda>(index, r).
            bindE (get_u32 r) (\<lambda>(entry_size, r).
            bindE (guardE (\<not> (index \<noteq> expected \<or> entry_size = 0 \<or> unat entry_size > kMaximumEntrySize))
                     (DecodeError ''invalid Raft WAL entry sequence'')) (\<lambda>_.
            bindE (get_bytes r (unat entry_size)) (\<lambda>(serialized, r).
            bindE (require_end r) (\<lambda>_.
            bindE (le_deserialize api (make_buffer serialized)) (\<lambda>e.
            Inr (Frame index e position)))))))))))))))))"

lemma wal_frame_advances:
  assumes "wal_frame api bs position expected = Inr (Frame index e next_position)"
  shows "position < next_position \<and> next_position \<le> length bs"
  using assms by (auto simp: wal_frame_def exn_simps Let_def not_less split: if_splits)

text \<open>The loop, with the entries and offsets read so far and the end of the last valid frame.\<close>

function wal_loop ::
  "entry_api \<Rightarrow> bytes \<Rightarrow> nat \<Rightarrow> u64 \<Rightarrow> (u64, log_entry) omap \<Rightarrow> (u64, u64) omap \<Rightarrow> nat \<Rightarrow>
   exn + (u64, log_entry) omap \<times> (u64, u64) omap \<times> nat" where
  "wal_loop api bs position expected es os valid_size =
     (if \<not> position < length bs then Inr (es, os, valid_size)
      else case wal_frame api bs position expected of
        Inl ex \<Rightarrow> Inl ex
      | Inr Torn \<Rightarrow> Inr (es, os, valid_size)
      | Inr (Frame index e next_position) \<Rightarrow>
          wal_loop api bs next_position (expected + 1)
            (om_insert index e es) (om_insert index (of_nat position) os) next_position)"
  by pat_completeness auto

termination
  by (relation "measure (\<lambda>(api, bs, position, expected, es, os, valid_size). length bs - position)")
    (auto dest!: wal_frame_advances intro: diff_less_mono2)

declare wal_loop.simps [simp del]

definition parse_wal_header :: "bytes \<Rightarrow> exn + u64" where
  "parse_wal_header bs =
     bindE (guardE (\<not> length bs < kHeaderSize) (DecodeError ''truncated Raft WAL header'')) (\<lambda>_.
     bindE (new_reader (Some (take (kHeaderSize - 4) (drop 4 bs))) (kHeaderSize - 4)) (\<lambda>header.
     bindE (get_u16 header) (\<lambda>(ver, header).
     bindE (guardE (ver = kWalVersion) (DecodeError ''unsupported Raft WAL version'')) (\<lambda>_.
     bindE (get_u16 header) (\<lambda>(reserved, header).
     bindE (guardE (reserved = 0) (DecodeError ''unsupported Raft WAL version'')) (\<lambda>_.
     bindE (get_u64 header) (\<lambda>(start, header).
     bindE (get_u64 header) (\<lambda>(stored_checksum, header).
     bindE (guardE (\<not> (start = 0 \<or> stored_checksum \<noteq> fnv1a64 (take (kHeaderSize - 8) bs)))
              (DecodeError ''invalid Raft WAL header'')) (\<lambda>_.
     Inr start)))))))))"

definition load_wal_locked :: "entry_api \<Rightarrow> bytes \<Rightarrow> unit store_prog" where
  "load_wal_locked api bs =
     bindP (liftP (parse_wal_header bs)) (\<lambda>start.
     bindP (mod_store (\<lambda>l. l\<lparr>ls_start_index := start\<rparr>)) (\<lambda>_.
     bindP (get_store id) (\<lambda>l.
     bindP (liftP (wal_loop api bs kHeaderSize start (entries l) (offsets l) kHeaderSize))
       (\<lambda>(es, os, valid_size).
     bindP (mod_store (\<lambda>l. l\<lparr>entries := es, offsets := os, file_size := of_nat valid_size\<rparr>)) (\<lambda>_.
     bindP (mod_store (\<lambda>l. l\<lparr>durable_index := next_slot_locked l - 1\<rparr>)) (\<lambda>_.
     if valid_size \<noteq> length bs then
       bindP open_locked (\<lambda>_.
       bindP (truncate_locked (of_nat valid_size)) (\<lambda>_.
       bindP (in_world (sync_data (log_file l))) (\<lambda>_.
       close_locked)))
     else retP ()))))))"

fun legacy_loop ::
  "entry_api \<Rightarrow> nat \<Rightarrow> u64 \<Rightarrow> (u64, log_entry) omap \<Rightarrow> BinaryReader \<Rightarrow> exn + (u64, log_entry) omap \<times> BinaryReader" where
  "legacy_loop api 0 expected es r = Inr (es, r)"
| "legacy_loop api (Suc n) expected es r =
     bindE (get_u64 r) (\<lambda>(index, r).
     bindE (get_u32 r) (\<lambda>(sz, r).
     bindE (guardE (\<not> (index \<noteq> expected \<or> sz = 0)) (DecodeError ''legacy Raft log is not contiguous'')) (\<lambda>_.
     bindE (get_bytes r (unat sz)) (\<lambda>(raw, r).
     bindE (le_deserialize api (make_buffer raw)) (\<lambda>e.
     legacy_loop api n (expected + 1) (om_insert index e es) r)))))"

definition parse_legacy :: "entry_api \<Rightarrow> bytes \<Rightarrow> exn + u64 \<times> (u64, log_entry) omap" where
  "parse_legacy api payload =
     bindE (new_reader (Some payload) (length payload)) (\<lambda>r.
     bindE (get_u64 r) (\<lambda>(start, r).
     bindE (guardE (start \<noteq> 0) (DecodeError ''Raft log start index cannot be zero'')) (\<lambda>_.
     bindE (get_u64 r) (\<lambda>(count, r).
     bindE (guardE (\<not> count > kMaximumEntryCount) (DecodeError ''Raft log entry count is unreasonable'')) (\<lambda>_.
     bindE (legacy_loop api (unat count) start [] r) (\<lambda>(es, r).
     bindE (require_end r) (\<lambda>_.
     Inr (start, es))))))))"

definition load_legacy_locked :: "entry_api \<Rightarrow> unit store_prog" where
  "load_legacy_locked api =
     bindP (get_store log_file) (\<lambda>p.
     bindP (in_world (read_checked_record p kLegacyLogMagic kMaximumLogFile)) (\<lambda>payload.
     bindP (liftP (parse_legacy api payload)) (\<lambda>(start, es).
     bindP (mod_store (\<lambda>l. l\<lparr>ls_start_index := start, entries := es\<rparr>)) (\<lambda>_.
     mod_store (\<lambda>l. l\<lparr>durable_index := next_slot_locked l - 1\<rparr>)))))"

definition load :: "entry_api \<Rightarrow> unit store_prog" where
  "load api =
     bindP (get_store id) (\<lambda>l.
     bindP (in_world (create_directories (parent_directory (log_file l)))) (\<lambda>_.
     bindP (in_world (file_exists (log_file l))) (\<lambda>present.
     if \<not> present then
       bindP (liftP (encode_header_locked (ls_start_index l))) (\<lambda>header.
       bindP (in_world (atomic_write_file (log_file l) header)) (\<lambda>_.
       bindP (mod_store (\<lambda>l. l\<lparr>file_size := of_nat kHeaderSize,
                               durable_index := ls_start_index l - 1\<rparr>)) (\<lambda>_.
       open_locked)))
     else
       bindP (in_world (read_file (log_file l) kMaximumLogFile)) (\<lambda>bs.
       if starts_with bs kWalMagic then bindP (load_wal_locked api bs) (\<lambda>_. open_locked)
       else bindP (load_legacy_locked api) (\<lambda>_. rewrite_locked api)))))"

definition fresh_store :: "path \<Rightarrow> FileLogStore" where
  "fresh_store p = \<lparr>log_file = p, ls_start_index = 1, entries = [], offsets = [], pending = [],
     pending_start_index = 0, pending_count = 0, durable_index = 0, file_size = 0, fd_open = False\<rparr>"

text \<open>The constructor.\<close>

definition new_FileLogStore :: "entry_api \<Rightarrow> path \<Rightarrow> (world, FileLogStore) prog" where
  "new_FileLogStore api p w =
     (case load api (fresh_store p, w) of
        (Ret _, (l, w')) \<Rightarrow> (Ret l, w')
      | (Throw e, (l, w')) \<Rightarrow> (Throw e, w')
      | (Died, (l, w')) \<Rightarrow> (Died, w'))"

section \<open>Operations of the log store interface\<close>

text \<open>A null entry pointer is \<open>None\<close>.\<close>

definition append_entry :: "entry_api \<Rightarrow> log_entry option \<Rightarrow> u64 store_prog" where
  "append_entry api entry =
     (case entry of
        None \<Rightarrow> throwP (Invalid_argument ''cannot append a null Raft entry'')
      | Some e \<Rightarrow>
          bindP (get_store next_slot_locked) (\<lambda>index.
          bindP (mod_store (\<lambda>l. l\<lparr>entries := om_insert index (clone_entry e) (entries l)\<rparr>)) (\<lambda>_.
          bindP (queue_entry_locked api index (clone_entry e)) (\<lambda>_.
          retP index))))"

definition write_at :: "entry_api \<Rightarrow> u64 \<Rightarrow> log_entry option \<Rightarrow> unit store_prog" where
  "write_at api index entry =
     bindP (get_store id) (\<lambda>l.
     case entry of
       None \<Rightarrow> throwP (Invalid_argument ''invalid Raft log overwrite index'')
     | Some e \<Rightarrow>
       if index < ls_start_index l then throwP (Invalid_argument ''invalid Raft log overwrite index'')
       else if index > next_slot_locked l then throwP (Invalid_argument ''Raft log overwrite creates a gap'')
       else
         bindP sync_pending_locked (\<lambda>_.
         bindP (get_store (\<lambda>l. case om_find (offsets l) index of None \<Rightarrow> file_size l | Some off \<Rightarrow> off)) (\<lambda>truncate_at.
         bindP (truncate_locked truncate_at) (\<lambda>_.
         bindP (mod_store (\<lambda>l. l\<lparr>entries := om_erase_from index (entries l),
                                 offsets := om_erase_from index (offsets l),
                                 durable_index := (if index > 0 then index - 1 else 0)\<rparr>)) (\<lambda>_.
         bindP (mod_store (\<lambda>l. l\<lparr>entries := om_insert index (clone_entry e) (entries l)\<rparr>)) (\<lambda>_.
         queue_entry_locked api index (clone_entry e)))))))"

definition end_of_append_batch :: "u64 \<Rightarrow> u64 \<Rightarrow> unit store_prog" where
  "end_of_append_batch start count =
     bindP (get_store id) (\<lambda>l.
     if count = 0 \<or> pending_count l = 0 then retP ()
     else
       let requested_end = start + count;
           pending_end = pending_start_index l + pending_count l
       in if pending_start_index l < start \<or> pending_end > requested_end
          then throwP (Runtime_error ''queued Raft WAL entries fall outside append batch'')
          else sync_pending_locked)"

text \<open>The loop of \<open>log_entries_ext\<close> over \<open>[index, end)\<close>; the outer \<open>None\<close> is the null pointer.\<close>

function collect_entries :: "(u64, log_entry) omap \<Rightarrow> u64 \<Rightarrow> u64 \<Rightarrow> nat \<Rightarrow> nat \<Rightarrow> log_entry list option" where
  "collect_entries es index end_index hint accumulated =
     (if \<not> index < end_index then Some []
      else case om_find es index of
        None \<Rightarrow> None
      | Some e \<Rightarrow>
          let accumulated = accumulated + length (le_buf e) in
          if hint > 0 \<and> accumulated \<ge> hint then Some [clone_entry e]
          else map_option ((#) (clone_entry e)) (collect_entries es (index + 1) end_index hint accumulated))"
  by pat_completeness auto

termination
  by (relation "measure (\<lambda>(es, index, end_index, hint, accumulated). unat (end_index - index))")
    (auto simp: unat_sub_if' unat_plus_one word_less_nat_alt intro!: diff_less_mono2)

declare collect_entries.simps [simp del]

definition log_entries_ext :: "u64 \<Rightarrow> u64 \<Rightarrow> i64 \<Rightarrow> FileLogStore \<Rightarrow> log_entry list option" where
  "log_entries_ext start end_index hint l =
     (if sint hint < 0 then Some []
      else if end_index < start then None
      else collect_entries (entries l) start end_index (unat hint) 0)"

definition log_entries :: "u64 \<Rightarrow> u64 \<Rightarrow> FileLogStore \<Rightarrow> log_entry list option" where
  "log_entries start end_index l = log_entries_ext start end_index 0 l"

definition compact :: "entry_api \<Rightarrow> u64 \<Rightarrow> bool store_prog" where
  "compact api last_log_index =
     bindP sync_pending_locked (\<lambda>_.
     bindP (mod_store (\<lambda>l. l\<lparr>entries := om_erase_upto last_log_index (entries l)\<rparr>)) (\<lambda>_.
     bindP (mod_store (\<lambda>l. if ls_start_index l \<le> last_log_index
                           then l\<lparr>ls_start_index := last_log_index + 1\<rparr> else l)) (\<lambda>_.
     bindP (rewrite_locked api) (\<lambda>_.
     retP True))))"

definition flush :: "bool store_prog" where
  "flush =
     bindP sync_pending_locked (\<lambda>_.
     bindP (get_store (\<lambda>l. (fd_open l, log_file l))) (\<lambda>(opened, p).
     bindP (if opened then in_world (sync_data p) else retP ()) (\<lambda>_.
     retP True)))"

text \<open>The destructor.\<close>

definition destroy :: "unit store_prog" where
  "destroy = bindP (catchP sync_pending_locked (\<lambda>_. retP ())) (\<lambda>_. close_locked)"

section \<open>Packs\<close>

fun pack_collect :: "entry_api \<Rightarrow> (u64, log_entry) omap \<Rightarrow> u64 \<Rightarrow> nat \<Rightarrow> exn + bytes list" where
  "pack_collect api es index 0 = Inr []"
| "pack_collect api es index (Suc n) =
     (case om_find es index of
        None \<Rightarrow> Inl (Runtime_error ''Raft pack requested missing entry'')
      | Some e \<Rightarrow> bindE (pack_collect api es (index + 1) n) (\<lambda>rest. Inr (le_serialize api e # rest)))"

fun pack_write :: "buffer_api \<Rightarrow> bytes list \<Rightarrow> bytes \<Rightarrow> exn + bytes" where
  "pack_write bapi [] output = Inr output"
| "pack_write bapi (encoded # rest) output =
     bindE (guardE (\<not> length encoded > i32_max) (Length_error ''Raft entry is too large to pack'')) (\<lambda>_.
     pack_write bapi rest (output @ put_int32 bapi (of_nat (length encoded)) @ encoded))"

definition pack :: "entry_api \<Rightarrow> buffer_api \<Rightarrow> u64 \<Rightarrow> i32 \<Rightarrow> FileLogStore \<Rightarrow> exn + bytes" where
  "pack api bapi index count l =
     bindE (guardE (\<not> sint count < 0) (Invalid_argument ''negative Raft pack count'')) (\<lambda>_.
     bindE (pack_collect api (entries l) index (unat count)) (\<lambda>serialized.
     pack_write bapi serialized (put_int32 bapi count)))"

fun unpack :: "entry_api \<Rightarrow> buffer_api \<Rightarrow> bytes \<Rightarrow> nat \<Rightarrow> nat \<Rightarrow> exn + log_entry list \<times> nat" where
  "unpack api bapi packed 0 pos = Inr ([], pos)"
| "unpack api bapi packed (Suc n) pos =
     bindE (get_int bapi packed pos) (\<lambda>raw_size.
     let pos = pos + 4 in
     bindE (guardE (\<not> (sint raw_size \<le> 0 \<or> pos > length packed \<or> unat raw_size > length packed - pos))
              (Runtime_error ''invalid packed Raft log length'')) (\<lambda>_.
     bindE (le_deserialize api (take (unat raw_size) (drop pos packed))) (\<lambda>e.
     bindE (unpack api bapi packed n (pos + unat raw_size)) (\<lambda>(rest, pos).
     Inr (e # rest, pos)))))"

fun put_entries :: "u64 \<Rightarrow> log_entry list \<Rightarrow> (u64, log_entry) omap \<Rightarrow> (u64, log_entry) omap" where
  "put_entries index [] m = m"
| "put_entries index (e # es) m = put_entries (index + 1) es (om_insert index e m)"

definition decode_pack :: "entry_api \<Rightarrow> buffer_api \<Rightarrow> bytes \<Rightarrow> exn + log_entry list" where
  "decode_pack api bapi packed =
     bindE (get_int bapi packed 0) (\<lambda>count.
     bindE (guardE (\<not> sint count < 0) (Runtime_error ''negative Raft pack count'')) (\<lambda>_.
     bindE (unpack api bapi packed (unat count) 4) (\<lambda>(decoded, pos).
     bindE (guardE (pos = length packed) (Runtime_error ''trailing bytes in Raft log pack'')) (\<lambda>_.
     Inr decoded))))"

definition apply_pack :: "entry_api \<Rightarrow> buffer_api \<Rightarrow> u64 \<Rightarrow> bytes \<Rightarrow> unit store_prog" where
  "apply_pack api bapi index packed =
     bindP (liftP (decode_pack api bapi packed)) (\<lambda>decoded.
     bindP sync_pending_locked (\<lambda>_.
     bindP (mod_store (\<lambda>l. l\<lparr>entries := put_entries index decoded (om_erase_from index (entries l))\<rparr>)) (\<lambda>_.
     bindP (mod_store (\<lambda>l. l\<lparr>ls_start_index :=
              (if entries l = [] then index else fst (hd (entries l)))\<rparr>)) (\<lambda>_.
     rewrite_locked api))))"

section \<open>Frame images\<close>

text \<open>
  The log as a list: entry \<open>k\<close> of the list has index \<open>start + k\<close>. \<open>indexed\<close> is the in-memory map of
  such a list and \<open>frames\<close> its bytes in the file.
\<close>

definition entry_ok :: "entry_api \<Rightarrow> log_entry \<Rightarrow> bool" where
  "entry_ok api e \<longleftrightarrow> length (le_serialize api e) \<le> kMaximumEntrySize"

definition body_image :: "entry_api \<Rightarrow> u64 \<Rightarrow> log_entry \<Rightarrow> bytes" where
  "body_image api index e =
     be_bytes 2 kEntryVersion @ be_bytes 2 (0 :: u16) @ be_bytes 8 index @
     be_bytes 4 (of_nat (length (le_serialize api e)) :: u32) @ le_serialize api e"

definition frame_image :: "entry_api \<Rightarrow> u64 \<Rightarrow> log_entry \<Rightarrow> bytes" where
  "frame_image api index e =
     be_bytes 4 (of_nat (length (body_image api index e)) :: u32) @ body_image api index e @
     be_bytes 8 (fnv1a64 (body_image api index e))"

primrec indexed :: "u64 \<Rightarrow> 'a list \<Rightarrow> (u64 \<times> 'a) list" where
  "indexed s [] = []"
| "indexed s (e # es) = (s, e) # indexed (s + 1) es"

primrec frames :: "entry_api \<Rightarrow> u64 \<Rightarrow> log_entry list \<Rightarrow> bytes" where
  "frames api s [] = []"
| "frames api s (e # es) = frame_image api s e @ frames api (s + 1) es"

definition header_image :: "u64 \<Rightarrow> bytes" where
  "header_image s =
     (let prefix = kWalMagic @ be_bytes 2 kWalVersion @ be_bytes 2 (0 :: u16) @ be_bytes 8 s
      in prefix @ be_bytes 8 (fnv1a64 prefix))"

text \<open>The entry that comes back from a serialized entry.\<close>

definition reloaded :: "entry_api \<Rightarrow> log_entry \<Rightarrow> log_entry" where
  "reloaded api e = (case le_deserialize api (le_serialize api e) of Inl _ \<Rightarrow> e | Inr e' \<Rightarrow> e')"

lemma reloaded_facts:
  assumes "entry_api_ok api"
  shows "le_deserialize api (le_serialize api e) = Inr (reloaded api e)"
    and "entry_core (reloaded api e) = entry_core e" and "le_serialize api e \<noteq> []"
    and "le_serialize api (reloaded api e) = le_serialize api e"
proof -
  obtain e' where e': "le_deserialize api (le_serialize api e) = Inr e'" "entry_core e' = entry_core e"
    "le_serialize api e' = le_serialize api e"
    using assms unfolding entry_api_ok_def by blast
  then show "le_deserialize api (le_serialize api e) = Inr (reloaded api e)"
    and "entry_core (reloaded api e) = entry_core e"
    and "le_serialize api (reloaded api e) = le_serialize api e" by (simp_all add: reloaded_def)
  show "le_serialize api e \<noteq> []" using assms by (simp add: entry_api_ok_def)
qed

lemma clone_entry_id [simp]: "clone_entry e = e"
  by (simp add: clone_entry_def)

lemma length_header_image [simp]: "length (header_image s) = kHeaderSize"
  by (simp add: header_image_def kHeaderSize_def kWalMagic_def)

lemma encode_header_image: "encode_header_locked s = Inr (header_image s)"
  by (simp add: encode_header_locked_def header_image_def codec_simps new_writer_def Let_def)

lemma length_body_image: "length (body_image api s e) = 16 + length (le_serialize api e)"
  by (simp add: body_image_def)

lemma length_frame_image: "length (frame_image api s e) = 28 + length (le_serialize api e)"
  by (simp add: frame_image_def length_body_image)

lemma encode_entry_image:
  assumes "entry_api_ok api" and "entry_ok api e"
  shows "encode_entry_locked api s e = Inr (frame_image api s e)"
  using assms reloaded_facts(3) [OF assms(1), of e]
  by (simp add: encode_entry_locked_def entry_ok_def frame_image_def body_image_def codec_simps
      new_writer_def Let_def)

lemma put_raw_any: "put_raw w (Some bs) (length bs) = Inr (w\<lparr>wdata := wdata w @ bs\<rparr>)"
  by (simp add: codec_simps)

lemma encode_frames:
  "entry_api_ok api \<Longrightarrow> list_all (entry_ok api) es \<Longrightarrow>
     foldE (\<lambda>(index, e) output. bindE (encode_entry_locked api index e) (\<lambda>frame.
       put_raw output (Some frame) (length frame))) (indexed s es) w =
     Inr (w\<lparr>wdata := wdata w @ frames api s es\<rparr>)"
  by (induction es arbitrary: s w) (simp_all add: encode_entry_image put_raw_any)

lemma encode_all_image:
  "entry_api_ok api \<Longrightarrow> list_all (entry_ok api) es \<Longrightarrow>
     encode_all_locked api s (indexed s es) = Inr (header_image s @ frames api s es)"
  unfolding encode_all_locked_def encode_header_image bindE_Inr put_raw_any [of new_writer]
  by (simp add: encode_frames new_writer_def)

lemma length_frames_start: "length (frames api s es) = length (frames api t es)"
  by (induction es arbitrary: s t) (simp_all add: length_frame_image)

lemma frames_append: "frames api s (es @ ds) = frames api s es @ frames api (s + of_nat (length es)) ds"
  by (induction es arbitrary: s) (simp_all add: add.assoc)

lemma indexed_append: "indexed s (es @ ds) = indexed s es @ indexed (s + of_nat (length es)) ds"
  by (induction es arbitrary: s) (simp_all add: add.assoc)

lemma length_indexed [simp]: "length (indexed s es) = length es"
  by (induction es arbitrary: s) simp_all

section \<open>Indexes\<close>

definition no_wrap :: "u64 \<Rightarrow> nat \<Rightarrow> bool" where
  "no_wrap s n \<longleftrightarrow> unat s + n < 2 ^ 64"

lemma unat_offset: "no_wrap s n \<Longrightarrow> unat (s + of_nat n) = unat s + n"
  unfolding no_wrap_def by (subst unat_add_lem [THEN iffD1]) (simp_all add: unat_of_nat)

lemma no_wrap_Suc: "no_wrap s (Suc n) \<Longrightarrow> unat (s + 1) = Suc (unat s) \<and> no_wrap (s + 1) n"
  using unat_offset [of s 1] by (simp add: no_wrap_def)

lemma no_wrap_le: "no_wrap s n \<Longrightarrow> k \<le> n \<Longrightarrow> no_wrap s k"
  by (simp add: no_wrap_def)

lemma fst_set_indexed:
  "no_wrap s (length es) \<Longrightarrow> i \<in> fst ` set (indexed s es) \<longleftrightarrow> unat s \<le> unat i \<and> unat i < unat s + length es"
proof (induction es arbitrary: s)
  case (Cons e es)
  then have n: "unat (s + 1) = Suc (unat s)" "no_wrap (s + 1) (length es)" using no_wrap_Suc by auto
  show ?case using Cons.IH [OF n(2)] n(1) by (auto simp: word_unat_eq_iff)
qed auto

lemma om_invar_indexed: "no_wrap s (length es) \<Longrightarrow> om_invar (indexed s es)"
proof (induction es arbitrary: s)
  case (Cons e es)
  then have n: "unat (s + 1) = Suc (unat s)" "no_wrap (s + 1) (length es)" using no_wrap_Suc by auto
  show ?case using Cons.IH [OF n(2)] fst_set_indexed [OF n(2)] n(1) by (auto simp: word_less_nat_alt)
qed simp

lemma om_find_indexed:
  "no_wrap s (length es) \<Longrightarrow>
     om_find (indexed s es) i =
       (if unat s \<le> unat i \<and> unat i < unat s + length es then Some (es ! (unat i - unat s)) else None)"
proof (induction es arbitrary: s)
  case (Cons e es)
  then have n: "unat (s + 1) = Suc (unat s)" "no_wrap (s + 1) (length es)" using no_wrap_Suc by auto
  show ?case using Cons.IH [OF n(2)] n(1)
    by (auto simp: om_find_Cons word_unat_eq_iff nth_Cons' Suc_diff_le)
qed simp

lemma fst_last_indexed:
  "es \<noteq> [] \<Longrightarrow> fst (last (indexed s es)) + 1 = s + of_nat (length es)"
  by (cases es rule: rev_cases) (simp_all add: indexed_append add.assoc)

lemma om_insert_indexed:
  assumes "no_wrap s (Suc (length es))"
  shows "om_insert (s + of_nat (length es)) e (indexed s es) = indexed s (es @ [e])"
proof -
  have "\<forall>k\<in>fst ` set (indexed s es). k < s + of_nat (length es)"
    using fst_set_indexed [of s es] unat_offset [of s "length es"] no_wrap_le [OF assms, of "length es"]
    by (auto simp: word_less_nat_alt)
  then show ?thesis by (simp add: om_insert_append indexed_append)
qed

section \<open>Reading frames back\<close>

lemma frame_facts:
  assumes "entry_api_ok api" and "entry_ok api e"
  shows "unat (of_nat (length (body_image api s e)) :: u32) = length (body_image api s e)"
    and "unat (of_nat (length (le_serialize api e)) :: u32) = length (le_serialize api e)"
    and "(of_nat (length (le_serialize api e)) :: u32) \<noteq> 0"
    and "16 \<le> length (body_image api s e)" and "length (body_image api s e) \<le> kMaximumEntrySize + 32"
proof -
  have le: "length (le_serialize api e) \<le> 64 * 1024 * 1024" "le_serialize api e \<noteq> []"
    using assms reloaded_facts(3) by (auto simp: entry_ok_def kMaximumEntrySize_def)
  have b: "length (body_image api s e) < 2 ^ 32" using le by (simp add: length_body_image)
  then show "unat (of_nat (length (body_image api s e)) :: u32) = length (body_image api s e)"
    by (simp add: unat_of_nat)
  show l: "unat (of_nat (length (le_serialize api e)) :: u32) = length (le_serialize api e)"
    using le by (simp add: unat_of_nat)
  show "(of_nat (length (le_serialize api e)) :: u32) \<noteq> 0"
    using l le(2) by (metis length_0_conv unat_0)
  show "16 \<le> length (body_image api s e)" "length (body_image api s e) \<le> kMaximumEntrySize + 32"
    using le by (simp_all add: length_body_image kMaximumEntrySize_def)
qed

text \<open>What the reader does with the length prefix of a frame.\<close>

lemma read_prefix:
  assumes "suf = be_bytes 4 (n :: u32) @ rest"
  shows "new_reader (Some (drop (length pre) (pre @ suf))) (length (pre @ suf) - length pre) = Inr (reader_at [] suf)"
    and "get_u32 (reader_at [] suf) = Inr (n, reader_at (be_bytes 4 n) rest)"
  using assms new_reader_at [of suf] u32_field.get_enc [where x = n and pre = "[]" and post = rest]
  by simp_all

lemma wal_frame_image:
  assumes "entry_api_ok api" and "entry_ok api e"
  shows "wal_frame api (pre @ frame_image api s e @ post) (length pre) expected =
    (if s = expected then Inr (Frame s (reloaded api e) (length pre + length (frame_image api s e)))
     else Inl (DecodeError ''invalid Raft WAL entry sequence''))"
proof -
  let ?body = "body_image api s e" and ?ser = "le_serialize api e"
  let ?sum = "be_bytes 8 (fnv1a64 ?body)"
  note f = frame_facts(1) [OF assms, of s] frame_facts(2,3) [OF assms] frame_facts(4,5) [OF assms, of s]
  have img: "frame_image api s e @ post = be_bytes 4 (of_nat (length ?body) :: u32) @ ?body @ ?sum @ post"
    by (simp add: frame_image_def)
  have sum: "new_reader (Some ?sum) 8 = Inr (reader_at [] ?sum)"
    "get_u64 (reader_at [] ?sum) = Inr (fnv1a64 ?body, reader_at ?sum [])"
    using new_reader_at [of ?sum] u64_field.get_enc [where x = "fnv1a64 ?body" and pre = "[]" and post = "[]"]
    by simp_all
  have ser: "get_bytes (reader_at p ?ser) (length ?ser) = Inr (?ser, reader_at (p @ ?ser) [])" for p
    using get_bytes_at [of p ?ser "[]"] by simp
  have body: "bindE (new_reader (Some ?body) (length ?body)) g = g (reader_at [] ?body)" for g :: "_ \<Rightarrow> exn + wal_step"
    by (simp add: new_reader_at)
  show ?thesis
    using f(3-5) reloaded_facts(1) [OF assms(1), of e] assms(2)
    unfolding wal_frame_def img read_prefix [OF refl] bindE_Inr prod.case f(1) Let_def
    by (simp add: sum body)
      (auto simp: body_image_def codec_simps f(2) ser make_buffer_def entry_ok_def length_frame_image guardE_def)
qed

text \<open>A frame of which only a part was written is a torn tail.\<close>

definition torn_tail :: "entry_api \<Rightarrow> bytes \<Rightarrow> bool" where
  "torn_tail api p \<longleftrightarrow> (\<exists>s e q. entry_ok api e \<and> frame_image api s e = p @ q \<and> q \<noteq> [])"

lemma wal_frame_torn:
  assumes "entry_api_ok api" and "torn_tail api p"
  shows "wal_frame api (pre @ p) (length pre) expected = Inr Torn"
proof (cases "length p < 4")
  case True
  then show ?thesis by (simp add: wal_frame_def)
next
  case False
  from assms(2) obtain s e q where e: "entry_ok api e" and img: "frame_image api s e = p @ q" and q: "q \<noteq> []"
    by (auto simp: torn_tail_def)
  let ?n = "of_nat (length (body_image api s e)) :: u32"
  have "p = take 4 p @ drop 4 p" by simp
  moreover have "take 4 p = be_bytes 4 ?n"
    using False arg_cong [OF img, of "take 4"] by (simp add: frame_image_def)
  ultimately have p: "p = be_bytes 4 ?n @ drop 4 p" by metis
  have "length (frame_image api s e) = length p + length q" using img by simp
  then have "length p - 4 < length (body_image api s e) + 8"
    using q False length_greater_0_conv [of q] by (simp add: frame_image_def del: length_greater_0_conv)
  then have "length (pre @ p) - (length pre + 4) < unat ?n + 8"
    using frame_facts(1) [OF assms(1) e] by simp
  then show ?thesis
    unfolding wal_frame_def read_prefix(1) [OF p] bindE_Inr
    using False by (simp add: read_prefix(2) [OF p] Let_def)
qed

primrec frame_offsets :: "entry_api \<Rightarrow> nat \<Rightarrow> u64 \<Rightarrow> log_entry list \<Rightarrow> (u64 \<times> u64) list" where
  "frame_offsets api pos s [] = []"
| "frame_offsets api pos s (e # es) =
     (s, of_nat pos) # frame_offsets api (pos + length (frame_image api s e)) (s + 1) es"

text \<open>The loop reads the frames of a contiguous run of entries and goes on behind them.\<close>

lemma wal_loop_run:
  assumes "entry_api_ok api"
  shows "list_all (entry_ok api) es \<Longrightarrow> no_wrap s (length es) \<Longrightarrow>
    \<forall>k\<in>fst ` set m \<union> fst ` set os. k < s \<Longrightarrow>
    wal_loop api (pre @ frames api s es @ rest) (length pre) s m os (length pre) =
      wal_loop api (pre @ frames api s es @ rest) (length (pre @ frames api s es)) (s + of_nat (length es))
        (m @ indexed s (map (reloaded api) es)) (os @ frame_offsets api (length pre) s es)
        (length (pre @ frames api s es))"
proof (induction es arbitrary: pre s m os)
  case (Cons e es)
  let ?f = "frame_image api s e" and ?rest = "frames api (s + 1) es @ rest"
  have n: "unat (s + 1) = Suc (unat s)" "no_wrap (s + 1) (length es)"
    using Cons.prems(2) no_wrap_Suc by auto
  have fr: "wal_frame api (pre @ ?f @ ?rest) (length pre) s =
      Inr (Frame s (reloaded api e) (length pre + length ?f))"
    using Cons.prems(1) wal_frame_image [OF assms, of e pre s ?rest s] by simp
  have ins: "om_insert s x m = m @ [(s, x)]" "om_insert s y os = os @ [(s, y)]" for x y
    using Cons.prems(3) by (simp_all add: om_insert_append)
  have "k < s \<Longrightarrow> k < s + 1" "s < s + 1" for k using n(1) by (simp_all add: word_less_nat_alt)
  then have below: "\<forall>k\<in>fst ` set (m @ [(s, reloaded api e)]) \<union> fst ` set (os @ [(s, of_nat (length pre) :: u64)]). k < s + 1"
    using Cons.prems(3) by auto
  have "0 < length ?f" by (simp add: length_frame_image)
  then have "wal_loop api (pre @ ?f @ ?rest) (length pre) s m os (length pre) =
      wal_loop api (pre @ ?f @ ?rest) (length (pre @ ?f)) (s + 1) (m @ [(s, reloaded api e)])
        (os @ [(s, of_nat (length pre))]) (length (pre @ ?f))"
    using fr by (subst wal_loop.simps) (simp add: ins)
  then show ?case
    using Cons.IH [OF _ n(2) below, of "pre @ ?f"] Cons.prems(1) by (simp add: add.assoc)
qed simp

lemma wal_loop_frames:
  assumes "entry_api_ok api" and "tail = [] \<or> torn_tail api tail"
    and "list_all (entry_ok api) es" and "no_wrap s (length es)"
  shows "wal_loop api (pre @ frames api s es @ tail) (length pre) s [] [] (length pre) =
      Inr (indexed s (map (reloaded api) es), frame_offsets api (length pre) s es,
           length pre + length (frames api s es))"
proof -
  have "wal_loop api (pre @ frames api s es @ tail) (length (pre @ frames api s es)) x m os v = Inr (m, os, v)" for x m os v
    using assms(1,2) wal_frame_torn [of api tail "pre @ frames api s es" x]
    by (cases "tail = []") (subst wal_loop.simps, simp)+
  then show ?thesis using wal_loop_run [OF assms(1,3,4), of "[]" "[]" pre tail] by simp
qed

text \<open>A frame with another index than the expected one stops the start of the node.\<close>

lemma wal_loop_gap:
  assumes "entry_api_ok api" and "list_all (entry_ok api) es" and "no_wrap s (length es)"
    and "entry_ok api e" and "i \<noteq> s + of_nat (length es)"
  shows "wal_loop api (pre @ frames api s es @ frame_image api i e @ rest) (length pre) s [] [] (length pre) =
    Inl (DecodeError ''invalid Raft WAL entry sequence'')"
proof -
  let ?pre = "pre @ frames api s es"
  have fr: "wal_frame api (?pre @ frame_image api i e @ rest) (length ?pre) (s + of_nat (length es)) =
      Inl (DecodeError ''invalid Raft WAL entry sequence'')"
    using wal_frame_image [OF assms(1,4), of ?pre i rest "s + of_nat (length es)"] assms(5) by simp
  have "frame_image api i e \<noteq> []" using length_frame_image [of api i e] by auto
  then have "wal_loop api (pre @ frames api s es @ frame_image api i e @ rest) (length ?pre) (s + of_nat (length es)) m os v =
      Inl (DecodeError ''invalid Raft WAL entry sequence'')" for m os v
    using fr by (subst wal_loop.simps) simp
  then show ?thesis
    using wal_loop_run [OF assms(1-3), of "[]" "[]" pre "frame_image api i e @ rest"] by simp
qed

lemma parse_header_image:
  assumes "s \<noteq> 0"
  shows "parse_wal_header (header_image s @ rest) = Inr s"
proof -
  define prefix where "prefix = kWalMagic @ be_bytes 2 kWalVersion @ be_bytes 2 (0 :: u16) @ be_bytes 8 s"
  let ?tl = "be_bytes 2 kWalVersion @ be_bytes 2 (0 :: u16) @ be_bytes 8 s @ be_bytes 8 (fnv1a64 prefix)"
  have h: "header_image s = prefix @ be_bytes 8 (fnv1a64 prefix)"
    by (simp add: header_image_def prefix_def Let_def)
  have m: "length kWalMagic = 4" by (simp add: kWalMagic_def)
  have lp: "length prefix = 16" by (simp add: prefix_def m)
  have tl: "take 20 (drop 4 (header_image s @ rest)) = ?tl"
    by (simp add: h prefix_def m)
  have rd: "new_reader (Some ?tl) 20 = Inr (reader_at [] ?tl)"
    using new_reader_at [of ?tl] by simp
  have last: "get_u64 (reader_at p (be_bytes 8 v)) = Inr (v, reader_at (p @ be_bytes 8 v) [])" for p and v :: u64
    using u64_field.get_enc [where x = v and pre = p and post = "[]"] by simp
  have sum: "take 16 (header_image s @ rest) = prefix" by (simp add: h lp)
  have k: "kHeaderSize - 4 = 20" "kHeaderSize - 8 = 16" by (simp_all add: kHeaderSize_def)
  show ?thesis
    using assms unfolding parse_wal_header_def k tl sum rd bindE_Inr
    by (simp add: codec_simps last)
qed

section \<open>Recovery\<close>

text \<open>Frames depend on the serialized entries only, so reloaded entries have the same frames.\<close>

lemma frame_image_reloaded: "entry_api_ok api \<Longrightarrow> frame_image api s (reloaded api e) = frame_image api s e"
  by (simp add: frame_image_def body_image_def reloaded_facts(4))

lemma frames_reloaded: "entry_api_ok api \<Longrightarrow> frames api s (map (reloaded api) es) = frames api s es"
  by (induction es arbitrary: s) (simp_all add: frame_image_reloaded)

lemma frame_offsets_reloaded:
  "entry_api_ok api \<Longrightarrow> frame_offsets api pos s (map (reloaded api) es) = frame_offsets api pos s es"
  by (induction es arbitrary: s pos) (simp_all add: frame_image_reloaded)

lemma entry_ok_reloaded: "entry_api_ok api \<Longrightarrow> entry_ok api (reloaded api e) = entry_ok api e"
  by (simp add: entry_ok_def reloaded_facts(4))

text \<open>
  The state of an open store whose file holds the entries \<open>ds\<close> durably, with the entries \<open>ps\<close>
  appended but still pending. No power loss can bring back a file the log has replaced.
\<close>

definition store_ok :: "entry_api \<Rightarrow> u64 \<Rightarrow> log_entry list \<Rightarrow> log_entry list \<Rightarrow> FileLogStore \<Rightarrow> world \<Rightarrow> bool" where
  "store_ok api s ds ps l w \<longleftrightarrow>
     s \<noteq> 0 \<and> no_wrap s (length (ds @ ps)) \<and> list_all (entry_ok api) (ds @ ps) \<and>
     ls_start_index l = s \<and> entries l = indexed s (ds @ ps) \<and>
     offsets l = frame_offsets api kHeaderSize s (ds @ ps) \<and>
     pending l = frames api (s + of_nat (length ds)) ps \<and> pending_count l = of_nat (length ps) \<and>
     (ps \<noteq> [] \<longrightarrow> pending_start_index l = s + of_nat (length ds)) \<and>
     durable_index l = s + of_nat (length ds) - 1 \<and>
     file_size l = of_nat (kHeaderSize + length (frames api s ds)) \<and> fd_open l \<and>
     (\<exists>f. files w (log_file l) = Some f \<and> content f = header_image s @ frames api s ds \<and>
        synced f = length (content f)) \<and> older w (log_file l) = []"

definition log_size :: "entry_api \<Rightarrow> u64 \<Rightarrow> log_entry list \<Rightarrow> nat" where
  "log_size api s es = kHeaderSize + length (frames api s es)"

lemma next_slot_indexed:
  "entries l = indexed (ls_start_index l) es \<Longrightarrow> next_slot_locked l = ls_start_index l + of_nat (length es)"
  using fst_last_indexed [of es "ls_start_index l"]
  by (cases es) (auto simp: next_slot_locked_def)

lemma open_locked_ok:
  assumes "script w = []" and "files w (log_file l) \<noteq> None"
  shows "open_locked (l, w) = (Ret (), (l\<lparr>fd_open := True\<rparr>, w))"
  using assms
  by (cases "fd_open l")
    (auto simp: open_locked_def open_file_def get_store_def mod_store_def bindP_def in_world_def sys_call_def)

lemma starts_with_header: "starts_with (header_image s @ rest) kWalMagic"
  by (simp add: starts_with_def header_image_def Let_def)

text \<open>The store after loading a log of entries \<open>es\<close>.\<close>

definition loaded_store :: "entry_api \<Rightarrow> path \<Rightarrow> u64 \<Rightarrow> log_entry list \<Rightarrow> FileLogStore" where
  "loaded_store api p s es = (fresh_store p)\<lparr>ls_start_index := s, entries := indexed s (map (reloaded api) es),
     offsets := frame_offsets api kHeaderSize s es, file_size := of_nat (log_size api s es),
     durable_index := s + of_nat (length es) - 1, fd_open := True\<rparr>"

lemma loaded_store_entries:
  assumes "entry_api_ok api"
  shows "map fst (entries (loaded_store api p s es)) = map fst (indexed s es)"
    and "map (entry_core \<circ> snd) (entries (loaded_store api p s es)) = map entry_core es"
    and "start_index (loaded_store api p s es) = s"
proof -
  have "map fst (indexed s (map (reloaded api) es)) = map fst (indexed s es) \<and>
    map (entry_core \<circ> snd) (indexed s (map (reloaded api) es)) = map entry_core es"
    using reloaded_facts(2) [OF assms] by (induction es arbitrary: s) simp_all
  then show "map fst (entries (loaded_store api p s es)) = map fst (indexed s es)"
    and "map (entry_core \<circ> snd) (entries (loaded_store api p s es)) = map entry_core es"
    and "start_index (loaded_store api p s es) = s"
    by (simp_all add: loaded_store_def start_index_def)
qed

lemma load_result:
  assumes api: "entry_api_ok api" and w: "script w = []" and f: "files w p = Some f"
    and c: "content f = header_image s @ frames api s es @ tail"
    and small: "length (content f) \<le> kMaximumLogFile"
    and s: "s \<noteq> 0" and es: "list_all (entry_ok api) es" "no_wrap s (length es)"
    and tail: "tail = [] \<or> torn_tail api tail"
  shows "new_FileLogStore api p w = (Ret (loaded_store api p s es),
    if tail = [] then w else sync_file p (truncate_file p (log_size api s es) w))"
proof -
  let ?v = "log_size api s es" and ?es = "map (reloaded api) es"
  let ?os = "frame_offsets api kHeaderSize s es"
  define l1 where "l1 = (fresh_store p)\<lparr>ls_start_index := s, entries := indexed s ?es, offsets := ?os,
    file_size := of_nat ?v, durable_index := s + of_nat (length es) - 1\<rparr>"
  define w1 where "w1 = (if tail = [] then w else sync_file p (truncate_file p ?v w))"
  have v1: "?v \<le> length (content f)" "?v = length (content f) \<longleftrightarrow> tail = []"
    using c by (simp_all add: log_size_def)
  then have "?v < 2 ^ 64" using small by (simp add: kMaximumLogFile_def)
  then have "unat (of_nat ?v :: u64) = ?v" by (simp add: unat_of_nat)
  note v = v1 this
  have loop: "wal_loop api (content f) kHeaderSize s [] [] kHeaderSize = Inr (indexed s ?es, ?os, ?v)"
    using wal_loop_frames [OF api tail es, of "header_image s"] c by (simp add: log_size_def)
  have nxt: "next_slot_locked ((fresh_store p)\<lparr>ls_start_index := s, entries := indexed s ?es, offsets := ?os,
      file_size := of_nat ?v\<rparr>) = s + of_nat (length es)"
    using next_slot_indexed [of "(fresh_store p)\<lparr>ls_start_index := s, entries := indexed s ?es, offsets := ?os,
      file_size := of_nat ?v\<rparr>" ?es] by simp
  have hdr: "parse_wal_header (content f) = Inr s" using c s by (simp add: parse_header_image)
  have wal: "load_wal_locked api (content f) (fresh_store p, w) = (Ret (), (l1, w1))"
    using hdr loop nxt v f w
    by (simp add: load_wal_locked_def bindP_def get_store_def mod_store_def fresh_store_def l1_def w1_def
        open_locked_def open_file_def truncate_locked_def close_locked_def in_world_def sys_call_def
        sync_data_def del: of_nat_add)
  have w1: "script w1 = []" "files w1 p \<noteq> None" using w f by (auto simp: w1_def files_ops)
  have read: "read_file p kMaximumLogFile w = (Ret (content f), w)"
    using w f small by (rule read_file_ok)
  have "load api (fresh_store p, w) = (Ret (), (l1\<lparr>fd_open := True\<rparr>, w1))"
    using read wal w f open_locked_ok [of w1 l1] w1 starts_with_header [of s "frames api s es @ tail"] c
    by (simp add: load_def bindP_def get_store_def in_world_def fresh_store_def l1_def create_directories_def
        sys_call_def file_exists_def)
  then show ?thesis
    by (simp add: new_FileLogStore_def loaded_store_def l1_def w1_def)
qed

lemma load_recovers:
  assumes api: "entry_api_ok api" and w: "script w = []" and f: "files w p = Some f"
    and old: "older w p = []" and c: "content f = header_image s @ frames api s es @ tail" and sy: "synced f = length (content f)"
    and small: "length (content f) \<le> kMaximumLogFile"
    and s: "s \<noteq> 0" and es: "list_all (entry_ok api) es" "no_wrap s (length es)"
    and tail: "tail = [] \<or> torn_tail api tail"
  shows "\<exists>w'. new_FileLogStore api p w = (Ret (loaded_store api p s es), w') \<and> script w' = [] \<and>
    store_ok api s (map (reloaded api) es) [] (loaded_store api p s es) w'"
proof -
  define w1 where "w1 = (if tail = [] then w else sync_file p (truncate_file p (log_size api s es) w))"
  have "new_FileLogStore api p w = (Ret (loaded_store api p s es), w1)"
    using load_result [OF api w f c small s es tail] by (simp add: w1_def)
  moreover have "script w1 = []" "older w1 p = []" "files w1 p = Some \<lparr>content = header_image s @ frames api s es,
      synced = (if tail = [] then synced f else log_size api s es)\<rparr>"
    using w f c sy old by (auto simp: w1_def files_ops truncated_node_def log_size_def)
  ultimately show ?thesis
    using s es sy c api
    by (auto simp: store_ok_def loaded_store_def fresh_store_def log_size_def frames_reloaded frame_offsets_reloaded
        entry_ok_reloaded list.pred_map comp_def)
qed

section \<open>Syncing a batch\<close>

text \<open>Whatever the outcome of the writes, a prefix of the bytes has been appended.\<close>

lemma write_all_prefix:
  "write_all err p bs w = (r, w') \<Longrightarrow> files w p = Some f \<Longrightarrow>
     \<exists>k. files w' p = Some (f\<lparr>content := content f @ take k bs\<rparr>)"
proof (induction err p bs w arbitrary: f rule: write_all.induct)
  case (1 err p bs w)
  show ?case
  proof (cases "bs = []")
    case True
    with 1 show ?thesis by (auto simp: write_all.simps)
  next
    case False
    obtain r1 w1 where wr: "sys_write p bs w = (r1, w1)" by fastforce
    then obtain k where k: "files w1 p = Some (f\<lparr>content := content f @ take k bs\<rparr>)"
      "\<And>n. r1 = Ret (Wrote n) \<Longrightarrow> take n bs = take k bs" "r1 = Ret Write_eintr \<Longrightarrow> k = 0"
    proof -
      assume that: "\<And>k. files w1 p = Some (f\<lparr>content := content f @ take k bs\<rparr>) \<Longrightarrow>
        (\<And>n. r1 = Ret (Wrote n) \<Longrightarrow> take n bs = take k bs) \<Longrightarrow> (r1 = Ret Write_eintr \<Longrightarrow> k = 0) \<Longrightarrow> thesis"
      obtain c w0 where pop: "pop w = (c, w0)" by fastforce
      then have "files w0 p = Some f" using "1.prems"(2) pop_eq_files by metis
      then show thesis
        using wr pop that [of 0] that [of "length bs"] that [of "case c of Short n \<Rightarrow> n | Die n \<Rightarrow> n | _ \<Rightarrow> 0"]
        by (cases c) (auto simp: sys_write_def files_ops min_def)
    qed
    consider (again) n where "r1 = Ret (Wrote n)" "write_all err p (drop n bs) w1 = (r, w')" "n \<noteq> 0"
      | (eintr) "r1 = Ret Write_eintr" "write_all err p bs w1 = (r, w')"
      | (stop) "w' = w1"
      using "1.prems"(1) wr False
      by (auto simp: write_all.simps [of err p bs w] split: outcome.splits write_result.splits if_splits)
    then show ?thesis
    proof cases
      case again
      obtain j where "files w' p = Some (f\<lparr>content := (content f @ take k bs) @ take j (drop n bs)\<rparr>)"
        using "1.IH"(1) [OF False wr [symmetric] again(1) refl again(3,2) k(1)] by auto
      moreover have "take k bs @ take j (drop n bs) = take (n + j) bs"
        using k(2) [OF again(1)] by (simp add: take_add)
      ultimately show ?thesis by (metis append.assoc)
    next
      case eintr
      then show ?thesis using "1.IH"(2) [OF False wr [symmetric]] k by simp
    next
      case stop
      then show ?thesis using k(1) by auto
    qed
  qed
qed

lemma frames_prefix:
  "list_all (entry_ok api) es \<Longrightarrow>
     \<exists>j tail. j \<le> length es \<and> take k (frames api s es) = frames api s (take j es) @ tail \<and>
       (tail = [] \<or> torn_tail api tail) \<and> (length (frames api s es) \<le> k \<longrightarrow> j = length es)"
proof (induction es arbitrary: s k)
  case (Cons e es)
  let ?f = "frame_image api s e"
  show ?case
  proof (cases "length ?f \<le> k")
    case True
    obtain j tail where "j \<le> length es" "tail = [] \<or> torn_tail api tail"
      "take (k - length ?f) (frames api (s + 1) es) = frames api (s + 1) (take j es) @ tail"
      "length (frames api (s + 1) es) \<le> k - length ?f \<longrightarrow> j = length es"
      using Cons.IH [of "k - length ?f" "s + 1"] Cons.prems by auto
    then show ?thesis using True by (intro exI [of _ "Suc j"] exI [of _ tail]) auto
  next
    case False
    then have "?f = take k ?f @ drop k ?f" "drop k ?f \<noteq> []" by auto
    then have "torn_tail api (take k ?f)"
      using Cons.prems unfolding torn_tail_def by (metis list.pred_inject(2))
    then show ?thesis using False by (intro exI [of _ 0] exI [of _ "take k ?f"]) auto
  qed
qed simp

lemma sync_data_cases:
  assumes "sync_data p w = (r, w')" and "files w p = Some f"
  shows "r = Ret () \<and> files w' p = Some (f\<lparr>synced := length (content f)\<rparr>) \<or> r \<noteq> Ret () \<and> files w' p = Some f"
proof (cases "r = Ret ()")
  case True
  then obtain w0 where "files w0 = files w" "w' = sync_file p w0"
    using assms(1) unfolding sync_data_def by (metis sys_call_Ret)
  then show ?thesis using assms(2) True by (simp add: files_ops)
next
  case False
  then show ?thesis using assms sys_call_not_Ret unfolding sync_data_def by metis
qed

lemma frames_eq_Nil [simp]: "frames api s es = [] \<longleftrightarrow> es = []"
proof (cases es)
  case (Cons e es')
  have "frame_image api s e \<noteq> []" using length_frame_image [of api s e] by auto
  with Cons show ?thesis by simp
qed simp

text \<open>The writes and the sync of a batch, on a store that is open.\<close>

lemma sync_pending_open:
  assumes "fd_open l" and "pending l \<noteq> []"
  shows "sync_pending_locked (l, w) =
    (case bindP (write_all (log_io_error ''write'' (log_file l)) (log_file l) (pending l))
            (\<lambda>_. sync_data (log_file l)) w of
       (Ret _, w') \<Rightarrow> (Ret (), (l\<lparr>file_size := file_size l + of_nat (length (pending l)),
          durable_index := pending_start_index l + pending_count l - 1,
          pending := [], pending_start_index := 0, pending_count := 0\<rparr>, w'))
     | (Throw e, w') \<Rightarrow> (Throw e, (l, w'))
     | (Died, w') \<Rightarrow> (Died, (l, w')))"
  using assms
  by (auto simp: sync_pending_locked_def bindP_def get_store_def mod_store_def open_locked_def in_world_def
      split: prod.splits outcome.splits)

lemma write_sync_cases:
  assumes "bindP (write_all err p bs) (\<lambda>_. sync_data p) w = (r, w')" and "files w p = Some f"
  shows "r = Ret () \<and> files w' p = Some \<lparr>content = content f @ bs, synced = length (content f @ bs)\<rparr> \<or>
    r \<noteq> Ret () \<and> (\<exists>k. files w' p = Some (f\<lparr>content := content f @ take k bs\<rparr>))"
proof -
  obtain r1 w1 where wa: "write_all err p bs w = (r1, w1)" by fastforce
  obtain k where k: "files w1 p = Some (f\<lparr>content := content f @ take k bs\<rparr>)"
    using write_all_prefix [OF wa assms(2)] by blast
  show ?thesis
  proof (cases "r1 = Ret ()")
    case True
    then have w1: "files w1 p = Some (f\<lparr>content := content f @ bs\<rparr>)"
      using write_all_Ret [of err p bs w w1] wa assms(2) by simp
    have sd: "sync_data p w1 = (r, w')" using assms(1) wa True by (simp add: bindP_eq)
    show ?thesis
      using sync_data_cases [OF sd w1] by (cases f) (auto intro: exI [of _ "length bs"])
  next
    case False
    then have "w' = w1 \<and> r \<noteq> Ret ()" using assms(1) wa by (cases r1) (auto simp: bindP_def)
    then show ?thesis using k by blast
  qed
qed

lemma write_sync_names:
  assumes "bindP (write_all err p bs) (\<lambda>_. sync_data p) w = (r, w')"
  shows "older w' = older w"
proof -
  have "keeps names_same (bindP (write_all err p bs) (\<lambda>_. sync_data p))"
    unfolding sync_data_def by (intro names.keeps_bindP names_write_all names_sys_call names_effects)
  then show ?thesis using assms unfolding keeps_def names_same_def by (metis snd_conv)
qed

lemma sync_pending_cases:
  assumes ok: "store_ok api s ds ps l w" and run: "sync_pending_locked (l, w) = (r, (l', w'))"
  shows "r = Ret () \<and> store_ok api s (ds @ ps) [] l' w' \<and> log_file l' = log_file l \<or>
    r \<noteq> Ret () \<and> l' = l \<and> older w' (log_file l) = [] \<and> (\<exists>k. files w' (log_file l) =
      Some \<lparr>content = header_image s @ frames api s ds @ take k (pending l), synced = log_size api s ds\<rparr>)"
proof -
  obtain f where f: "files w (log_file l) = Some f" "content f = header_image s @ frames api s ds"
    "synced f = length (content f)" and old: "older w (log_file l) = []" using ok by (auto simp: store_ok_def)
  have pend: "pending l = frames api (s + of_nat (length ds)) ps" and op: "fd_open l"
    using ok by (auto simp: store_ok_def)
  show ?thesis
  proof (cases "ps = []")
    case True
    then have "r = Ret () \<and> l' = l \<and> w' = w"
      using run pend by (simp add: sync_pending_locked_def get_store_def bindP_def)
    then show ?thesis using ok True by simp
  next
    case False
    obtain r1 w1 where io: "bindP (write_all (log_io_error ''write'' (log_file l)) (log_file l) (pending l))
        (\<lambda>_. sync_data (log_file l)) w = (r1, w1)" by fastforce
    note c = write_sync_cases [OF io f(1)]
    have old1: "older w1 (log_file l) = []" using write_sync_names [OF io] old by simp
    have run1: "(r, (l', w')) = (case (r1, w1) of
         (Ret _, w') \<Rightarrow> (Ret (), (l\<lparr>file_size := file_size l + of_nat (length (pending l)),
          durable_index := pending_start_index l + pending_count l - 1,
          pending := [], pending_start_index := 0, pending_count := 0\<rparr>, w'))
       | (Throw e, w') \<Rightarrow> (Throw e, (l, w')) | (Died, w') \<Rightarrow> (Died, (l, w')))"
      using sync_pending_open [OF op] False pend run io by simp
    show ?thesis
    proof (cases "r1 = Ret ()")
      case True
      then have "files w1 (log_file l) = Some \<lparr>content = header_image s @ frames api s (ds @ ps),
          synced = length (header_image s @ frames api s (ds @ ps))\<rparr>"
        using c f(2) pend by (simp add: frames_append)
      then have "store_ok api s (ds @ ps) [] l' w'"
        using run1 True ok False old1
        by (auto simp: store_ok_def frames_append add.assoc)
      then show ?thesis using run1 True by simp
    next
      case False
      then have "r \<noteq> Ret () \<and> l' = l \<and> w' = w1" using run1 by (cases r1) auto
      then show ?thesis using c False f(2,3) old1 by (cases f) (auto simp: log_size_def)
    qed
  qed
qed

section \<open>Operations on the list of entries\<close>

lemma frame_offsets_append:
  "frame_offsets api pos s (es @ ds) =
     frame_offsets api pos s es @ frame_offsets api (pos + length (frames api s es)) (s + of_nat (length es)) ds"
  by (induction es arbitrary: pos s) (simp_all add: add.assoc)

lemma fst_frame_offsets: "map fst (frame_offsets api pos s es) = map fst (indexed s es)"
  by (induction es arbitrary: pos s) simp_all

lemma fst_set_frame_offsets: "fst ` set (frame_offsets api pos s es) = fst ` set (indexed s es)"
  using fst_frame_offsets by (metis list.set_map)

lemma below_next:
  assumes "no_wrap s (length es)" and "k \<in> fst ` set (indexed s es)"
  shows "k < s + of_nat (length es)"
  using assms fst_set_indexed [of s es k] unat_offset by (simp add: word_less_nat_alt)

lemma of_nat_length_eq_0: "no_wrap s (length es) \<Longrightarrow> (of_nat (length es) :: u64) = 0 \<longleftrightarrow> es = []"
  by (auto simp: no_wrap_def word_unat_eq_iff unat_of_nat)

lemma append_entry_ok:
  assumes api: "entry_api_ok api" and ok: "store_ok api s ds ps l w" and e: "entry_ok api e"
    and room: "no_wrap s (Suc (length (ds @ ps)))"
  shows "\<exists>l'. append_entry api (Some e) (l, w) = (Ret (s + of_nat (length (ds @ ps))), (l', w)) \<and>
    store_ok api s ds (ps @ [e]) l' w \<and> log_file l' = log_file l"
proof -
  let ?all = "ds @ ps" and ?i = "s + of_nat (length (ds @ ps))"
  have wrap: "no_wrap s (length ?all)" using ok by (simp add: store_ok_def)
  have "ls_start_index l = s" "entries l = indexed s ?all" using ok by (simp_all add: store_ok_def)
  then have nxt: "next_slot_locked l = ?i" using next_slot_indexed [of l ?all] by simp
  have ins: "om_insert ?i e (indexed s ?all) = indexed s (?all @ [e])"
    using om_insert_indexed [OF room] by simp
  have off: "om_insert ?i v (frame_offsets api kHeaderSize s ?all) = frame_offsets api kHeaderSize s ?all @ [(?i, v)]" for v
    using below_next [OF wrap] by (intro om_insert_append) (simp add: fst_set_frame_offsets)
  have cnt: "(of_nat (length ps) :: u64) = 0 \<longleftrightarrow> ps = []"
    using of_nat_length_eq_0 [of "s" ps] wrap by (auto simp: no_wrap_def)
  define l' where "l' = l\<lparr>entries := indexed s (?all @ [e]),
    pending_start_index := (if ps = [] then ?i else pending_start_index l),
    offsets := frame_offsets api kHeaderSize s (?all @ [e]),
    pending := pending l @ frame_image api ?i e, pending_count := pending_count l + 1\<rparr>"
  have "append_entry api (Some e) (l, w) = (Ret ?i, (l', w))"
    using ok nxt ins off cnt encode_entry_image [OF api e]
    by (cases "ps = []") (simp_all add: append_entry_def queue_entry_locked_def get_store_def mod_store_def bindP_def store_ok_def
        l'_def frame_offsets_append frames_append)
  moreover have "store_ok api s ds (ps @ [e]) l' w"
    using ok e room
    by (auto simp: store_ok_def l'_def frames_append add.assoc)
  ultimately show ?thesis by (auto simp: l'_def)
qed

lemma rewrite_offsets_indexed:
  "entry_api_ok api \<Longrightarrow> list_all (entry_ok api) es \<Longrightarrow> no_wrap s (length es) \<Longrightarrow> \<forall>k\<in>fst ` set os. k < s \<Longrightarrow>
     rewrite_offsets api (indexed s es) (of_nat pos) os = Inr (os @ frame_offsets api pos s es)"
proof (induction es arbitrary: s pos os)
  case (Cons e es)
  have n: "unat (s + 1) = Suc (unat s)" "no_wrap (s + 1) (length es)"
    using Cons.prems(3) no_wrap_Suc by auto
  have "k < s \<Longrightarrow> k < s + 1" "s < s + 1" for k using n(1) by (simp_all add: word_less_nat_alt)
  then have "\<forall>k\<in>fst ` set (os @ [(s, of_nat pos :: u64)]). k < s + 1" using Cons.prems(4) by auto
  then show ?case
    using Cons.IH [OF Cons.prems(1) _ n(2), of "os @ [(s, of_nat pos)]" "pos + length (frame_image api s e)"]
      Cons.prems encode_entry_image [of api e s]
    by (simp add: om_insert_append)
qed simp

lemma rewrite_ok:
  assumes api: "entry_api_ok api" and w: "script w = []" and s: "s \<noteq> 0"
    and es: "list_all (entry_ok api) es" "no_wrap s (length es)"
    and l: "ls_start_index l = s" "entries l = indexed s es"
  shows "\<exists>l' w'. rewrite_locked api (l, w) = (Ret (), (l', w')) \<and> script w' = [] \<and>
    store_ok api s es [] l' w' \<and> log_file l' = log_file l"
proof -
  let ?bs = "header_image s @ frames api s es"
  obtain w' where wr: "atomic_write_file (log_file l) ?bs w = (Ret (), w')" "script w' = []"
    and node: "files w' (log_file l) = Some \<lparr>content = ?bs, synced = length ?bs\<rparr>" "older w' (log_file l) = []"
    using atomic_write_file_ok [OF w] atomic_write_file_cases [of "log_file l" ?bs w "Ret ()"] w
    by (auto simp: replaced_def)
  have offs: "rewrite_offsets api (indexed s es) (of_nat kHeaderSize) [] = Inr (frame_offsets api kHeaderSize s es)"
    using rewrite_offsets_indexed [OF api es, of "[]"] by simp
  define l' where "l' = l\<lparr>pending := [], pending_start_index := 0, pending_count := 0, fd_open := True,
    offsets := frame_offsets api kHeaderSize s es, file_size := of_nat (length ?bs),
    durable_index := s + of_nat (length es) - 1\<rparr>"
  have nxt: "next_slot_locked (l\<lparr>pending := [], pending_start_index := 0, pending_count := 0,
      fd_open := False\<rparr>) = s + of_nat (length es)"
    using next_slot_indexed [of "l\<lparr>pending := [], pending_start_index := 0, pending_count := 0,
      fd_open := False\<rparr>" es] l by simp
  have "rewrite_locked api (l, w) = (Ret (), (l', w'))"
    using encode_all_image [OF api es(1), of s] wr node(1) offs l nxt
    by (simp add: rewrite_locked_def get_store_def mod_store_def close_locked_def bindP_def in_world_def
        open_locked_def open_file_def sys_call_def l'_def)
  moreover have "store_ok api s es [] l' w'"
    using s es l node by (simp add: store_ok_def l'_def)
  ultimately show ?thesis using wr(2) by (auto simp: l'_def)
qed

lemma sync_pending_ok:
  assumes ok: "store_ok api s ds ps l w" and w: "script w = []"
  shows "\<exists>l' w'. sync_pending_locked (l, w) = (Ret (), (l', w')) \<and> script w' = [] \<and>
    store_ok api s (ds @ ps) [] l' w' \<and> log_file l' = log_file l"
proof -
  obtain r l' w' where run: "sync_pending_locked (l, w) = (r, (l', w'))" by (metis prod.exhaust)
  have "r = Ret () \<and> script w' = []"
  proof (cases "pending l = []")
    case True
    then show ?thesis using run w by (simp add: sync_pending_locked_def get_store_def bindP_def)
  next
    case False
    moreover have "fd_open l" using ok by (simp add: store_ok_def)
    ultimately show ?thesis
      using run w
      by (auto simp: sync_pending_open write_all_empty_script bindP_def sync_data_def sys_call_def)
  qed
  then show ?thesis using sync_pending_cases [OF ok run] run by auto
qed

lemma erase_upto_indexed:
  "no_wrap s (length es) \<Longrightarrow>
     om_erase_upto i (indexed s es) =
       indexed (s + of_nat (Suc (unat i) - unat s)) (drop (Suc (unat i) - unat s) es)"
proof (induction es arbitrary: s)
  case (Cons e es)
  then have n: "unat (s + 1) = Suc (unat s)" "no_wrap (s + 1) (length es)" using no_wrap_Suc by auto
  note IH = Cons.IH [OF n(2)]
  show ?case
  proof (cases "i < s")
    case True
    then have "\<forall>k\<in>fst ` set (indexed (s + 1) es). i < k"
      using fst_set_indexed [OF n(2)] n(1) by (auto simp: word_less_nat_alt)
    then have "filter (\<lambda>(k', _). i < k') (indexed (s + 1) es) = indexed (s + 1) es"
      by (intro filter_True) auto
    then show ?thesis using True by (simp add: om_erase_upto_def word_less_nat_alt)
  next
    case False
    then obtain k where k: "Suc (unat i) - unat s = Suc k" "Suc (unat i) - unat (s + 1) = k"
      using n(1) by (simp add: word_less_nat_alt not_less Suc_diff_le)
    have "om_erase_upto i ((s, e) # indexed (s + 1) es) = om_erase_upto i (indexed (s + 1) es)"
      using False by (simp add: om_erase_upto_def)
    then show ?thesis using IH k by (simp add: add.assoc)
  qed
qed (simp add: om_erase_upto_def)

lemma filter_keys_empty: "\<forall>k\<in>fst ` set xs. \<not> P k \<Longrightarrow> filter (\<lambda>(k, _). P k) xs = []"
  by (auto simp: filter_empty_conv)

lemma erase_from_indexed:
  "no_wrap s (length es) \<Longrightarrow> s \<le> i \<Longrightarrow>
     om_erase_from i (indexed s es) = indexed s (take (unat i - unat s) es) \<and>
     om_erase_from i (frame_offsets api pos s es) = frame_offsets api pos s (take (unat i - unat s) es)"
proof (induction es arbitrary: s pos)
  case (Cons e es)
  then have n: "unat (s + 1) = Suc (unat s)" "no_wrap (s + 1) (length es)" using no_wrap_Suc by auto
  show ?case
  proof (cases "s = i")
    case True
    have "\<forall>k\<in>fst ` set (indexed (s + 1) es). \<not> k < i"
      using fst_set_indexed [OF n(2)] n(1) True by (auto simp: word_less_nat_alt)
    then have "filter (\<lambda>(k', _). k' < i) (indexed (s + 1) es) = []"
      "filter (\<lambda>(k', _). k' < i) (frame_offsets api p (s + 1) es) = []" for p
      by (intro filter_keys_empty; simp only: fst_set_frame_offsets)+
    then show ?thesis using True by (simp add: om_erase_from_def)
  next
    case False
    then have lt: "s < i" "s + 1 \<le> i" using Cons.prems(2) n(1)
      by (auto simp: word_less_nat_alt word_le_nat_alt word_unat_eq_iff)
    then obtain k where k: "unat i - unat s = Suc k" "unat i - unat (s + 1) = k"
      using n(1) by (metis Suc_diff_Suc word_less_nat_alt)
    show ?thesis
      using Cons.IH [OF n(2) lt(2)] lt(1) k by (simp add: om_erase_from_def)
  qed
qed (simp add: om_erase_from_def)

lemma find_offset:
  "no_wrap s (length es) \<Longrightarrow> s \<le> i \<Longrightarrow>
     om_find (frame_offsets api pos s es) i =
       (if unat i - unat s < length es then Some (of_nat (pos + length (frames api s (take (unat i - unat s) es))))
        else None)"
proof (induction es arbitrary: s pos)
  case (Cons e es)
  then have n: "unat (s + 1) = Suc (unat s)" "no_wrap (s + 1) (length es)" using no_wrap_Suc by auto
  show ?case
  proof (cases "s = i")
    case False
    then have lt: "s < i" "s + 1 \<le> i" using Cons.prems(2) n(1)
      by (auto simp: word_less_nat_alt word_le_nat_alt word_unat_eq_iff)
    then obtain k where k: "unat i - unat s = Suc k" "unat i - unat (s + 1) = k"
      using n(1) by (metis Suc_diff_Suc word_less_nat_alt)
    show ?thesis
      using Cons.IH [OF n(2) lt(2)] False k by (simp add: om_find_Cons add.assoc)
  qed (simp add: om_find_Cons)
qed simp

lemma compact_ok:
  assumes api: "entry_api_ok api" and ok: "store_ok api s ds ps l w" and w: "script w = []"
    and lim0: "idx \<noteq> u64_max" and room: "no_wrap s (length (ds @ ps))"
  shows "\<exists>l' w'. compact api idx (l, w) = (Ret True, (l', w')) \<and> script w' = [] \<and> log_file l' = log_file l \<and>
    store_ok api (if s \<le> idx then idx + 1 else s) (drop (Suc (unat idx) - unat s) (ds @ ps)) [] l' w'"
proof -
  let ?all = "ds @ ps" and ?k = "Suc (unat idx) - unat s"
  let ?s = "if s \<le> idx then idx + 1 else s"
  obtain l1 w1 where sync: "sync_pending_locked (l, w) = (Ret (), (l1, w1))" "script w1 = []"
    "store_ok api s ?all [] l1 w1" "log_file l1 = log_file l"
    using sync_pending_ok [OF ok w] by blast
  have "unat idx \<noteq> unat u64_max" using lim0 by (simp add: word_unat_eq_iff)
  moreover have "unat idx < 2 ^ 64" using unsigned_less [of idx, where ?'a = nat] by simp
  ultimately have lim: "Suc (unat idx) < 2 ^ 64" by simp
  then have last1: "unat (idx + 1) = Suc (unat idx)" by (simp add: unat_word_ariths)
  have start: "s + of_nat ?k = ?s"
  proof (cases "s \<le> idx")
    case True
    then have "unat s \<le> unat idx" by (simp add: word_le_nat_alt)
    then have "no_wrap s ?k" using lim by (simp add: no_wrap_def)
    then have "unat (s + of_nat ?k) = unat (idx + 1)"
      using \<open>unat s \<le> unat idx\<close> last1 by (simp add: unat_offset del: of_nat_diff)
    then show ?thesis using True by (simp add: word_unat_eq_iff)
  next
    case False
    then show ?thesis by (simp add: word_le_nat_alt not_le)
  qed
  define l2 where "l2 = l1\<lparr>entries := indexed ?s (drop ?k ?all), ls_start_index := ?s\<rparr>"
  have ents: "entries l1 = indexed s ?all" "ls_start_index l1 = s" and s: "s \<noteq> 0"
    and all: "list_all (entry_ok api) ?all"
    using sync(3) by (auto simp: store_ok_def)
  have er: "om_erase_upto idx (entries l1) = indexed ?s (drop ?k ?all)"
    using erase_upto_indexed [OF room, of idx] start ents by simp
  have s0: "?s \<noteq> 0" using s last1 by (auto simp: word_unat_eq_iff)
  have wrap: "no_wrap ?s (length (drop ?k ?all))"
  proof (cases "s \<le> idx")
    case True
    then show ?thesis using room lim last1 by (auto simp: no_wrap_def word_le_nat_alt)
  next
    case False
    then show ?thesis using room by (auto simp: no_wrap_def)
  qed
  have "list_all (entry_ok api) (drop ?k ?all)"
    using all by (auto simp: list_all_iff dest: in_set_dropD)
  then obtain l' w' where "rewrite_locked api (l2, w1) = (Ret (), (l', w'))" "script w' = []"
    "store_ok api ?s (drop ?k ?all) [] l' w'" "log_file l' = log_file l2"
    using rewrite_ok [OF api sync(2) s0 _ wrap, of l2] by (auto simp: l2_def)
  moreover have "compact api idx (l, w) = bindP (rewrite_locked api) (\<lambda>_. retP True) (l2, w1)"
    using sync(1) er ents by (auto simp: compact_def bindP_eq mod_store_def bindP_def l2_def)
  ultimately show ?thesis using sync(4) by (auto simp: bindP_def l2_def)
qed

lemma write_at_ok:
  assumes api: "entry_api_ok api" and ok: "store_ok api s ds ps l w" and w: "script w = []"
    and e: "entry_ok api e" and i: "s \<le> i" "unat i - unat s \<le> length (ds @ ps)"
    and small: "log_size api s (ds @ ps) < 2 ^ 64" and room: "no_wrap s (Suc (length (ds @ ps)))"
  shows "\<exists>l' w'. write_at api i (Some e) (l, w) = (Ret (), (l', w')) \<and> script w' = [] \<and> log_file l' = log_file l \<and>
    store_ok api s (take (unat i - unat s) (ds @ ps)) [e] l' w'"
proof -
  define all where "all = ds @ ps"
  define k where "k = unat i - unat s"
  define kept where "kept = take k all"
  have wrap: "no_wrap s (length all)" "no_wrap s (Suc (length all))" and k: "k \<le> length all" and len: "length kept = k"
    using room i(2) by (simp_all add: no_wrap_def all_def k_def kept_def)
  have ik: "i = s + of_nat k"
  proof -
    have "no_wrap s k" using wrap k by (simp add: no_wrap_def)
    then have "unat (s + of_nat k) = unat i" using i(1) by (simp add: unat_offset word_le_nat_alt k_def)
    then show ?thesis by (simp add: word_unat_eq_iff)
  qed
  have l: "ls_start_index l = s" "entries l = indexed s all" using ok by (simp_all add: store_ok_def all_def)
  have nxt: "next_slot_locked l = s + of_nat (length all)" using next_slot_indexed [of l all] l by simp
  have guards: "\<not> i < ls_start_index l" "\<not> i > next_slot_locked l"
    using i(1) k l nxt unat_offset [OF wrap(1)] by (auto simp: word_less_nat_alt word_le_nat_alt k_def)
  obtain l1 w1 where sync: "sync_pending_locked (l, w) = (Ret (), (l1, w1))" "script w1 = []"
    "store_ok api s all [] l1 w1" "log_file l1 = log_file l"
    using sync_pending_ok [OF ok w] unfolding all_def by blast
  obtain f where f: "files w1 (log_file l1) = Some f" "content f = header_image s @ frames api s all"
    "synced f = length (content f)" using sync(3) by (auto simp: store_ok_def)
  have at: "(case om_find (offsets l1) i of None \<Rightarrow> file_size l1 | Some off \<Rightarrow> off) = of_nat (log_size api s kept)"
    using sync(3) find_offset [OF wrap(1) i(1), of api kHeaderSize] k
    by (auto simp: store_ok_def log_size_def kept_def simp flip: k_def)
  have split: "frames api s all = frames api s kept @ frames api i (drop k all)"
    using frames_append [of api s kept "drop k all"] len ik by (simp add: kept_def)
  have "log_size api s kept < 2 ^ 64" using small split by (simp add: log_size_def flip: all_def)
  then have n: "unat (of_nat (log_size api s kept) :: u64) = log_size api s kept" by (simp add: unat_of_nat)
  define l2 where "l2 = l1\<lparr>file_size := of_nat (log_size api s kept), entries := indexed s kept,
    offsets := frame_offsets api kHeaderSize s kept, durable_index := i - 1\<rparr>"
  define w2 where "w2 = truncate_file (log_file l1) (log_size api s kept) w1"
  have s1: "s \<noteq> 0" "fd_open l1" "entries l1 = indexed s all" "offsets l1 = frame_offsets api kHeaderSize s all"
    "ls_start_index l1 = s" using sync(3) by (auto simp: store_ok_def)
  then have i0: "i > 0" using i(1) by (auto simp: word_le_nat_alt word_less_nat_alt word_unat_eq_iff)
  have tr: "truncate_locked (of_nat (log_size api s kept)) (l1, w1) =
      (Ret (), (l1\<lparr>file_size := of_nat (log_size api s kept)\<rparr>, w2))"
    using s1(2) sync(2) n
    by (simp add: truncate_locked_def open_locked_def get_store_def mod_store_def bindP_def in_world_def
        sys_call_def w2_def)
  have er: "om_erase_from i (entries l1) = indexed s kept"
    "om_erase_from i (offsets l1) = frame_offsets api kHeaderSize s kept"
    using erase_from_indexed [OF wrap(1) i(1)] s1(3,4) by (simp_all add: kept_def flip: k_def)
  have nxt2: "next_slot_locked l2 = i"
    using next_slot_indexed [of l2 kept] s1(5) len ik by (simp add: l2_def)
  have run: "write_at api i (Some e) (l, w) = bindP (append_entry api (Some e)) (\<lambda>_. retP ()) (l2, w2)"
    using sync(1) guards at tr er i0 nxt2
    by (simp add: write_at_def append_entry_def get_store_bind mod_store_bind bindP_eq bindP_assoc l2_def)
  have "store_ok api s kept [] l2 w2"
    using sync(3) f split len wrap ik k
    by (auto simp: store_ok_def l2_def w2_def files_ops truncated_node_def log_size_def no_wrap_def list_all_iff
        kept_def dest: in_set_takeD)
  moreover have "no_wrap s (Suc (length (kept @ [])))" using wrap(2) k len by (simp add: no_wrap_def)
  ultimately obtain l' where
    "append_entry api (Some e) (l2, w2) = (Ret i, (l', w2))" "store_ok api s kept [e] l' w2" "log_file l' = log_file l2"
    using append_entry_ok [OF api _ e, of s kept "[]" l2 w2] len ik by auto
  then show ?thesis using run sync(2,4)
    by (auto simp: bindP_def w2_def l2_def kept_def k_def all_def)
qed

section \<open>Reading ranges and packs\<close>

lemma collect_all:
  assumes "no_wrap s (length es)"
  shows "unat b - unat a = n \<Longrightarrow> a \<le> b \<Longrightarrow>
    collect_entries (indexed s es) a b 0 acc =
      (if n = 0 \<or> unat s \<le> unat a \<and> unat b \<le> unat s + length es
       then Some (take n (drop (unat a - unat s) es)) else None)"
proof (induction n arbitrary: a acc)
  case 0
  then have "\<not> a < b" by (simp add: word_le_nat_alt word_less_nat_alt)
  then show ?case by (simp add: collect_entries.simps)
next
  case (Suc n)
  then have ab: "a < b" by (simp add: word_less_nat_alt)
  have a1: "unat (a + 1) = Suc (unat a)" using unat_plus_one [OF ab] .
  have IH: "collect_entries (indexed s es) (a + 1) b 0 acc' =
      (if n = 0 \<or> unat s \<le> unat (a + 1) \<and> unat b \<le> unat s + length es
       then Some (take n (drop (unat (a + 1) - unat s) es)) else None)" for acc'
    using Suc.prems(1) ab a1 by (intro Suc.IH) (auto simp: word_le_nat_alt word_less_nat_alt)
  let ?j = "unat a - unat s"
  show ?case
  proof (cases "unat s \<le> unat a \<and> unat a < unat s + length es")
    case True
    then have "drop ?j es = es ! ?j # drop (Suc ?j) es" by (intro Cons_nth_drop_Suc [symmetric]) linarith
    moreover have "unat (a + 1) - unat s = Suc ?j" using True a1 by linarith
    ultimately show ?thesis
      using ab True IH a1 Suc.prems(1) om_find_indexed [OF assms, of a]
      by (subst collect_entries.simps) (auto simp: Let_def)
  next
    case False
    then have "om_find (indexed s es) a = None" using om_find_indexed [OF assms] by simp
    then show ?thesis using ab False Suc.prems(1) by (subst collect_entries.simps) auto
  qed
qed

lemma pack_collect_indexed:
  assumes "no_wrap s (length es)"
  shows "unat s \<le> unat i \<Longrightarrow> unat i + n \<le> unat s + length es \<Longrightarrow>
    pack_collect api (indexed s es) i n =
      Inr (map (le_serialize api) (take n (drop (unat i - unat s) es)))"
proof (induction n arbitrary: i)
  case (Suc n)
  let ?j = "unat i - unat s"
  have "unat s + length es < 2 ^ 64" using assms by (simp add: no_wrap_def)
  then have i1: "unat (i + 1) = Suc (unat i)" using Suc.prems by (simp add: unat_word_ariths)
  have "drop ?j es = es ! ?j # drop (Suc ?j) es"
    using Suc.prems by (intro Cons_nth_drop_Suc [symmetric]) linarith
  moreover have "unat (i + 1) - unat s = Suc ?j" using Suc.prems(1) i1 by linarith
  ultimately show ?case
    using Suc i1 om_find_indexed [OF assms, of i] by simp
qed simp

primrec pack_body :: "buffer_api \<Rightarrow> bytes list \<Rightarrow> bytes" where
  "pack_body bapi [] = []"
| "pack_body bapi (x # xs) = put_int32 bapi (of_nat (length x)) @ x @ pack_body bapi xs"

lemma pack_write_body:
  "\<forall>x\<in>set xs. length x \<le> i32_max \<Longrightarrow> pack_write bapi xs out = Inr (out @ pack_body bapi xs)"
  by (induction xs arbitrary: out) simp_all

lemma unpack_body:
  assumes "entry_api_ok api" and "buffer_api_ok bapi"
  shows "list_all (entry_ok api) es \<Longrightarrow>
    unpack api bapi (pre @ pack_body bapi (map (le_serialize api) es)) (length es) (length pre) =
      Inr (map (reloaded api) es, length (pre @ pack_body bapi (map (le_serialize api) es)))"
proof (induction es arbitrary: pre)
  case (Cons e es)
  let ?x = "le_serialize api e" and ?r = "pack_body bapi (map (le_serialize api) es)"
  let ?n = "of_nat (length ?x) :: i32"
  have x: "length ?x \<le> 64 * 1024 * 1024" "?x \<noteq> []"
    using Cons.prems reloaded_facts(3) [OF assms(1)] by (auto simp: entry_ok_def kMaximumEntrySize_def)
  then have n: "unat ?n = length ?x" "sint ?n = int (length ?x)"
    by (simp_all add: unat_of_nat signed_of_nat signed_take_bit_int_eq_self)
  have g: "get_int bapi (pre @ put_int32 bapi ?n @ ?x @ ?r) (length pre) = Inr ?n" "length (put_int32 bapi ?n) = 4"
    using assms(2) unfolding buffer_api_ok_def by auto
  have IH: "unpack api bapi ((pre @ put_int32 bapi ?n @ ?x) @ ?r) (length es) (length (pre @ put_int32 bapi ?n @ ?x)) =
      Inr (map (reloaded api) es, length ((pre @ put_int32 bapi ?n @ ?x) @ ?r))"
    using Cons.prems by (intro Cons.IH) simp
  show ?case
    using IH g x n reloaded_facts(1) [OF assms(1), of e] by (simp add: Let_def add.assoc)
qed simp

lemma decode_pack_ok:
  assumes "entry_api_ok api" and "buffer_api_ok bapi" and "list_all (entry_ok api) es" and "length es \<le> i32_max"
  shows "decode_pack api bapi (put_int32 bapi (of_nat (length es)) @ pack_body bapi (map (le_serialize api) es)) =
    Inr (map (reloaded api) es)"
proof -
  let ?n = "of_nat (length es) :: i32" and ?b = "pack_body bapi (map (le_serialize api) es)"
  have n: "unat ?n = length es" "sint ?n = int (length es)"
    using assms(4) by (simp_all add: unat_of_nat signed_of_nat signed_take_bit_int_eq_self)
  have "get_int bapi ([] @ put_int32 bapi ?n @ ?b) (length ([] :: bytes)) = Inr ?n" "length (put_int32 bapi ?n) = 4"
    using assms(2) unfolding buffer_api_ok_def by blast+
  then show ?thesis
    using unpack_body [OF assms(1,2,3), of "put_int32 bapi ?n"] n by (simp add: decode_pack_def)
qed

section \<open>Properties\<close>

lemma batch_sync_cases:
  assumes ok: "store_ok api s ds ps l w" and run: "end_of_append_batch start count (l, w) = (r, (l', w'))"
  shows "older w' (log_file l) = [] \<and> (\<exists>k. files w' (log_file l) =
      Some \<lparr>content = header_image s @ frames api s ds @ take k (pending l),
        synced = log_size api s (if r = Ret () \<and> count \<noteq> 0 then ds @ ps else ds)\<rparr> \<and>
      (r = Ret () \<and> count \<noteq> 0 \<longrightarrow> length (pending l) \<le> k))"
proof -
  obtain f where f: "files w (log_file l) = Some f" "content f = header_image s @ frames api s ds"
    "synced f = length (content f)" and old: "older w (log_file l) = []" and pend: "pending l = frames api (s + of_nat (length ds)) ps"
    and cnt: "pending_count l = of_nat (length ps)" and wrap: "no_wrap s (length (ds @ ps))"
    using ok by (auto simp: store_ok_def)
  have idle: "?thesis" if "w' = w" "count = 0 \<or> r \<noteq> Ret () \<or> ps = []"
    using that f pend old by (cases f) (auto simp: log_size_def intro: exI [of _ 0])
  have ps0: "pending_count l = 0 \<longleftrightarrow> ps = []"
    using of_nat_length_eq_0 [of s ps] wrap cnt by (auto simp: no_wrap_def)
  show ?thesis
  proof (cases "sync_pending_locked (l, w) = (r, (l', w')) \<and> count \<noteq> 0")
    case True
    then consider "r = Ret ()" "store_ok api s (ds @ ps) [] l' w'" "log_file l' = log_file l"
      | "r \<noteq> Ret ()" "older w' (log_file l) = []" "\<exists>k. files w' (log_file l) =
          Some \<lparr>content = header_image s @ frames api s ds @ take k (pending l), synced = log_size api s ds\<rparr>"
      using sync_pending_cases [OF ok] by blast
    then show ?thesis
    proof cases
      case 1
      then obtain g where "files w' (log_file l) = Some g" "content g = header_image s @ frames api s (ds @ ps)"
        "synced g = length (content g)" "older w' (log_file l) = []" by (auto simp: store_ok_def)
      then show ?thesis using 1(1) True pend
        by (cases g) (auto simp: frames_append log_size_def intro!: exI [of _ "length (pending l)"])
    qed auto
  next
    case False
    then show ?thesis
      using run ps0 by (intro idle)
        (auto simp: end_of_append_batch_def get_store_bind Let_def split: if_splits)
  qed
qed

text \<open>
  C1. Crash safety of an append batch: however the writes and the sync of a batch fail, wherever the
  process dies and whatever prefix of the unsynced bytes a power loss leaves, the next start loads a
  log with the same first index that holds every entry that was durable before and a prefix of the
  batch, and it holds the whole batch if the batch had been acknowledged. The recovered store is
  consistent with its file again. The log is at most 4 GiB, the limit of the loader.
\<close>

theorem append_batch_crash_safe:
  assumes "entry_api_ok api" and "store_ok api s ds ps l w"
    and "end_of_append_batch start count (l, w) = (r, (l', w'))"
    and "log_size api s (ds @ ps) \<le> kMaximumLogFile"
  shows "\<exists>j l'' w''. length ds \<le> j \<and> j \<le> length (ds @ ps) \<and>
      new_FileLogStore api (log_file l) (power_loss kept w') = (Ret l'', w'') \<and>
      start_index l'' = s \<and> map fst (entries l'') = map fst (indexed s (take j (ds @ ps))) \<and>
      map (entry_core \<circ> snd) (entries l'') = map entry_core (take j (ds @ ps)) \<and>
      store_ok api s (map (reloaded api) (take j (ds @ ps))) [] l'' w'' \<and>
      (r = Ret () \<and> count \<noteq> 0 \<longrightarrow> j = length (ds @ ps))"
proof -
  have facts: "s \<noteq> 0" "no_wrap s (length (ds @ ps))" "list_all (entry_ok api) ds" "list_all (entry_ok api) ps"
    and pend: "pending l = frames api (s + of_nat (length ds)) ps"
    using assms(2) by (auto simp: store_ok_def)
  obtain k where node: "files w' (log_file l) =
      Some \<lparr>content = header_image s @ frames api s ds @ take k (pending l),
        synced = log_size api s (if r = Ret () \<and> count \<noteq> 0 then ds @ ps else ds)\<rparr>"
    and all: "r = Ret () \<and> count \<noteq> 0 \<longrightarrow> length (pending l) \<le> k" and old: "older w' (log_file l) = []"
    using batch_sync_cases [OF assms(2,3)] by blast
  let ?c = "header_image s @ frames api s ds @ take k (pending l)"
  let ?n = "max (log_size api s (if r = Ret () \<and> count \<noteq> 0 then ds @ ps else ds)) (fst (kept (log_file l)))"
  let ?m = "min k (?n - log_size api s ds)"
  have cut: "take ?n ?c = header_image s @ frames api s ds @ take ?m (pending l)"
    by (auto simp: log_size_def frames_append min_def)
  obtain j tail where j: "j \<le> length ps" "take ?m (pending l) = frames api (s + of_nat (length ds)) (take j ps) @ tail"
    "tail = [] \<or> torn_tail api tail" "length (pending l) \<le> ?m \<longrightarrow> j = length ps"
    using frames_prefix [OF facts(4)] pend by metis
  let ?es = "ds @ take j ps"
  have es: "take (length ds + j) (ds @ ps) = ?es" by simp
  have full: "r = Ret () \<and> count \<noteq> 0 \<longrightarrow> j = length ps"
    using all j(4) pend by (auto simp: log_size_def frames_append)
  have c: "take ?n ?c = header_image s @ frames api s ?es @ tail"
    unfolding cut j(2) by (simp add: frames_append)
  have node': "files (power_loss kept w') (log_file l) =
      Some \<lparr>content = take ?n ?c, synced = length (take ?n ?c)\<rparr>"
    using node old by (simp add: power_loss_files survived_def Let_def)
  have small: "length (take ?n ?c) \<le> kMaximumLogFile"
    unfolding cut using assms(4) pend by (simp add: log_size_def frames_append)
  have ok: "list_all (entry_ok api) ?es" "no_wrap s (length ?es)"
    using facts j(1) by (auto simp: list_all_iff no_wrap_def dest: in_set_takeD)
  from load_recovers [OF assms(1) power_loss_script node' _ _ _ _ facts(1) ok j(3)] c small
  obtain w'' where "new_FileLogStore api (log_file l) (power_loss kept w') = (Ret (loaded_store api (log_file l) s ?es), w'')"
    "store_ok api s (map (reloaded api) ?es) [] (loaded_store api (log_file l) s ?es) w''"
    by auto
  then show ?thesis
    using es full j(1) loaded_store_entries [OF assms(1), of "log_file l" s ?es]
    by (intro exI [of _ "length ds + j"] exI [of _ "loaded_store api (log_file l) s ?es"] exI [of _ w''])
      (simp only: es, simp)
qed

text \<open>A concrete entry format, on which the hypothesis about NuRaft's holds.\<close>

definition plain_entries :: entry_api where
  "plain_entries = \<lparr>
     le_serialize = (\<lambda>e. be_bytes 8 (le_term e) @ le_val_type e # le_buf e),
     le_deserialize = (\<lambda>bs. if length bs < 9 then Inl (DecodeError '''')
       else Inr \<lparr>le_term = be_value (take 8 bs), le_buf = drop 9 bs, le_val_type = bs ! 8,
         le_timestamp = 0, le_has_crc32 = False, le_crc32 = 0\<rparr>)\<rparr>"

lemma plain_entries_ok: "entry_api_ok plain_entries"
  by (simp add: entry_api_ok_def plain_entries_def entry_core_def be_value_be_bytes nth_append)

definition example_entry :: log_entry where
  "example_entry = \<lparr>le_term = 3, le_buf = [1, 2], le_val_type = 1, le_timestamp = 0,
     le_has_crc32 = False, le_crc32 = 0\<rparr>"

lemma example_entry_ok: "entry_ok plain_entries example_entry"
  by (simp add: entry_ok_def plain_entries_def example_entry_def kMaximumEntrySize_def)

definition log_world :: "call_result list \<Rightarrow> world" where
  "log_world sc = \<lparr>files = [''d/log'' \<mapsto> \<lparr>content = header_image 1, synced = kHeaderSize\<rparr>], older = (\<lambda>_. []), script = sc\<rparr>"

lemma example_store:
  obtains l where "store_ok plain_entries 1 [] [example_entry] l (log_world sc)" and "log_file l = ''d/log''"
proof -
  have "store_ok plain_entries 1 [] [] (loaded_store plain_entries ''d/log'' 1 []) (log_world sc)"
    by (simp add: store_ok_def loaded_store_def fresh_store_def log_size_def log_world_def no_wrap_def)
  from append_entry_ok [OF plain_entries_ok this example_entry_ok] that
  show thesis by (auto simp: no_wrap_def loaded_store_def fresh_store_def)
qed

theorem append_batch_crash_safe_witness:
  "\<exists>l r l' w' l'' w''. store_ok plain_entries 1 [] [example_entry] l (log_world [Short 3, Die 5]) \<and>
     end_of_append_batch 1 1 (l, log_world [Short 3, Die 5]) = (r, (l', w')) \<and>
     new_FileLogStore plain_entries (log_file l) (power_loss (\<lambda>_. (1000, 0)) w') = (Ret l'', w'') \<and>
     start_index l'' = 1"
proof -
  let ?w = "log_world [Short 3, Die 5]"
  obtain l where l: "store_ok plain_entries 1 [] [example_entry] l ?w" using example_store by blast
  obtain r l' w' where run: "end_of_append_batch 1 1 (l, ?w) = (r, (l', w'))" by (metis prod.exhaust)
  have "log_size plain_entries 1 ([] @ [example_entry]) \<le> kMaximumLogFile"
    by (simp add: log_size_def length_frame_image plain_entries_def example_entry_def kMaximumLogFile_def
        kHeaderSize_def)
  from append_batch_crash_safe [OF plain_entries_ok l run this, of "\<lambda>_. (1000, 0)"] l run
  show ?thesis by blast
qed

text \<open>The log as a first index, the durable entries and the pending entries, and its operations.\<close>

type_synonym spec_log = "u64 \<times> log_entry list \<times> log_entry list"

datatype log_op = Op_append log_entry | Op_write_at u64 log_entry | Op_flush | Op_compact u64

fun run_op :: "entry_api \<Rightarrow> log_op \<Rightarrow> unit store_prog" where
  "run_op api (Op_append e) = bindP (append_entry api (Some e)) (\<lambda>_. retP ())"
| "run_op api (Op_write_at i e) = write_at api i (Some e)"
| "run_op api Op_flush = bindP flush (\<lambda>_. retP ())"
| "run_op api (Op_compact i) = bindP (compact api i) (\<lambda>_. retP ())"

fun run_ops :: "entry_api \<Rightarrow> log_op list \<Rightarrow> unit store_prog" where
  "run_ops api [] = retP ()"
| "run_ops api (x # xs) = bindP (run_op api x) (\<lambda>_. run_ops api xs)"

fun spec_op :: "log_op \<Rightarrow> spec_log \<Rightarrow> spec_log" where
  "spec_op (Op_append e) (s, ds, ps) = (s, ds, ps @ [e])"
| "spec_op (Op_write_at i e) (s, ds, ps) = (s, take (unat i - unat s) (ds @ ps), [e])"
| "spec_op Op_flush (s, ds, ps) = (s, ds @ ps, [])"
| "spec_op (Op_compact i) (s, ds, ps) =
     (if s \<le> i then i + 1 else s, drop (Suc (unat i) - unat s) (ds @ ps), [])"

text \<open>
  When an operation is accepted: entries within the size limit, no index beyond 64 bits, no gap, and
  a file size the offsets can hold.
\<close>

fun op_ok :: "entry_api \<Rightarrow> log_op \<Rightarrow> spec_log \<Rightarrow> bool" where
  "op_ok api (Op_append e) (s, ds, ps) \<longleftrightarrow> entry_ok api e \<and> no_wrap s (Suc (length (ds @ ps)))"
| "op_ok api (Op_write_at i e) (s, ds, ps) \<longleftrightarrow>
     entry_ok api e \<and> no_wrap s (Suc (length (ds @ ps))) \<and> s \<le> i \<and> unat i - unat s \<le> length (ds @ ps) \<and>
     log_size api s (ds @ ps) < 2 ^ 64"
| "op_ok api Op_flush (s, ds, ps) \<longleftrightarrow> True"
| "op_ok api (Op_compact i) (s, ds, ps) \<longleftrightarrow> i \<noteq> u64_max"

fun ops_ok :: "entry_api \<Rightarrow> log_op list \<Rightarrow> spec_log \<Rightarrow> bool" where
  "ops_ok api [] g \<longleftrightarrow> True"
| "ops_ok api (x # xs) g \<longleftrightarrow> op_ok api x g \<and> ops_ok api xs (spec_op x g)"

lemma flush_ok:
  assumes "store_ok api s ds ps l w" and "script w = []"
  shows "\<exists>l' w'. flush (l, w) = (Ret True, (l', w')) \<and> script w' = [] \<and> log_file l' = log_file l \<and>
    store_ok api s (ds @ ps) [] l' w'"
proof -
  obtain l1 w1 where sync: "sync_pending_locked (l, w) = (Ret (), (l1, w1))" "script w1 = []"
    "store_ok api s (ds @ ps) [] l1 w1" "log_file l1 = log_file l"
    using sync_pending_ok [OF assms] by blast
  have "flush (l, w) = (Ret True, (l1, sync_file (log_file l1) w1))"
    using sync by (simp add: flush_def bindP_eq get_store_bind store_ok_def)
      (simp add: bindP_def in_world_def sync_data_def sys_call_def)
  moreover have "store_ok api s (ds @ ps) [] l1 (sync_file (log_file l1) w1)"
    using sync(3) by (auto simp: store_ok_def files_ops)
  ultimately show ?thesis using sync(2,4) by auto
qed

lemma run_op_refines:
  assumes "entry_api_ok api" and "store_ok api s ds ps l w" and "script w = []" and "op_ok api x (s, ds, ps)"
  shows "\<exists>l' w' s' ds' ps'. run_op api x (l, w) = (Ret (), (l', w')) \<and> script w' = [] \<and> log_file l' = log_file l \<and>
    spec_op x (s, ds, ps) = (s', ds', ps') \<and> store_ok api s' ds' ps' l' w'"
proof (cases x)
  case (Op_append e)
  then show ?thesis
    using append_entry_ok [OF assms(1,2), of e] assms(3,4) by (auto simp: bindP_def)
next
  case (Op_write_at i e)
  then show ?thesis using write_at_ok [OF assms(1-3), of e i] assms(4) by auto
next
  case Op_flush
  then show ?thesis using flush_ok [OF assms(2,3)] by (auto simp: bindP_def)
next
  case (Op_compact i)
  have "no_wrap s (length (ds @ ps))" using assms(2) by (simp add: store_ok_def)
  then show ?thesis
    using Op_compact compact_ok [OF assms(1-3), of i] assms(4) by (auto simp: bindP_def)
qed

text \<open>
  C6. Refinement of the log store to a list: any accepted sequence of appends, suffix overwrites,
  flushes and compactions, with system calls that succeed, leaves the store with exactly the
  entries of the list specification, contiguous from its first index; the reported next slot and
  durable index are those of the list, and the file holds precisely the durable entries.
\<close>

theorem log_store_refines_list:
  assumes "entry_api_ok api" and "store_ok api s ds ps l w" and "script w = []" and "ops_ok api xs (s, ds, ps)"
  shows "\<exists>l' w' s' ds' ps'. run_ops api xs (l, w) = (Ret (), (l', w')) \<and>
    fold spec_op xs (s, ds, ps) = (s', ds', ps') \<and> store_ok api s' ds' ps' l' w' \<and>
    next_slot l' = s' + of_nat (length (ds' @ ps')) \<and> last_durable_index l' = s' + of_nat (length ds') - 1"
  using assms(2-)
proof (induction xs arbitrary: s ds ps l w)
  case Nil
  then show ?case
    using next_slot_indexed [of l "ds @ ps"] by (auto simp: store_ok_def next_slot_def last_durable_index_def)
next
  case (Cons x xs)
  from run_op_refines [OF assms(1) Cons.prems(1,2), of x] Cons.prems(3)
  obtain l1 w1 s1 ds1 ps1 where run: "run_op api x (l, w) = (Ret (), (l1, w1))" "script w1 = []"
    and sp: "spec_op x (s, ds, ps) = (s1, ds1, ps1)" and ok: "store_ok api s1 ds1 ps1 l1 w1" by auto
  then show ?case using Cons.IH [OF ok run(2)] Cons.prems(3) by (simp add: bindP_eq)
qed

theorem log_store_refines_list_witness:
  "\<exists>l l' w' ds. store_ok plain_entries 1 [] [example_entry] l (log_world []) \<and>
     run_ops plain_entries [Op_append example_entry, Op_flush, Op_write_at 2 example_entry, Op_flush, Op_compact 1]
       (l, log_world []) = (Ret (), (l', w')) \<and> store_ok plain_entries 2 ds [] l' w' \<and> ds = [example_entry]"
proof -
  let ?xs = "[Op_append example_entry, Op_flush, Op_write_at 2 example_entry, Op_flush, Op_compact 1]"
  obtain l where l: "store_ok plain_entries 1 [] [example_entry] l (log_world [])" using example_store by blast
  have "length (le_serialize plain_entries example_entry) = 11"
    by (simp add: plain_entries_def example_entry_def)
  then have ok: "ops_ok plain_entries ?xs (1, [], [example_entry])"
    by (simp add: example_entry_ok no_wrap_def log_size_def length_frame_image kHeaderSize_def word_le_nat_alt)
  have "script (log_world []) = []" by (simp add: log_world_def)
  from log_store_refines_list [OF plain_entries_ok l this ok] l
  show ?thesis by (auto simp: word_le_nat_alt)
qed

text \<open>
  Reading a range returns exactly the entries of the range, durable or pending, and the null
  pointer when any of them is missing (compacted away or not yet written) or the range is
  reversed.
\<close>

theorem log_entries_range:
  assumes "store_ok api s ds ps l w"
  shows "log_entries a b l =
    (if b < a then None
     else if a = b then Some []
     else if s \<le> a \<and> unat b \<le> unat s + length (ds @ ps)
     then Some (take (unat b - unat a) (drop (unat a - unat s) (ds @ ps)))
     else None)"
proof (cases "b < a")
  case True
  then show ?thesis by (simp add: log_entries_def log_entries_ext_def)
next
  case False
  have "entries l = indexed s (ds @ ps)" "no_wrap s (length (ds @ ps))"
    using assms by (simp_all add: store_ok_def)
  moreover have "unat b - unat a = 0 \<longleftrightarrow> a = b"
    using False by (auto simp: word_less_nat_alt word_unat_eq_iff)
  ultimately show ?thesis
    using False collect_all [of s "ds @ ps" b a "unat b - unat a" 0]
    by (auto simp: log_entries_def log_entries_ext_def word_le_nat_alt word_less_nat_alt)
qed

theorem log_entries_range_witness:
  "\<exists>l. store_ok plain_entries 1 [] [example_entry] l (log_world []) \<and>
     log_entries 1 2 l = Some [example_entry] \<and> log_entries 1 3 l = None"
proof -
  obtain l where l: "store_ok plain_entries 1 [] [example_entry] l (log_world [])" using example_store by blast
  show ?thesis
    using log_entries_range [OF l, of 1 2] log_entries_range [OF l, of 1 3] l
    by (auto simp: word_less_nat_alt)
qed

text \<open>
  C32. A pack of a range of entries decodes to entries with the same term, type and payload, in the
  same order: what one node packs is what another node applies.
\<close>

theorem pack_roundtrip:
  assumes "entry_api_ok api" and "buffer_api_ok bapi" and "store_ok api s ds ps l w"
    and "s \<le> i" and "unat i + n \<le> unat s + length (ds @ ps)" and "n \<le> i32_max"
  shows "\<exists>packed es. pack api bapi i (of_nat n) l = Inr packed \<and> decode_pack api bapi packed = Inr es \<and>
    map entry_core es = map entry_core (take n (drop (unat i - unat s) (ds @ ps)))"
proof -
  let ?es = "take n (drop (unat i - unat s) (ds @ ps))"
  have st: "entries l = indexed s (ds @ ps)" "no_wrap s (length (ds @ ps))" "list_all (entry_ok api) (ds @ ps)"
    using assms(3) by (simp_all add: store_ok_def)
  then have ok: "list_all (entry_ok api) ?es" by (auto simp: list_all_iff dest!: in_set_takeD in_set_dropD)
  have len: "length ?es = n" using assms(4,5) by (auto simp: word_le_nat_alt)
  have n: "unat (of_nat n :: i32) = n" "sint (of_nat n :: i32) = int n"
    using assms(6) by (simp_all add: unat_of_nat signed_of_nat signed_take_bit_int_eq_self)
  have small: "\<forall>x\<in>set (map (le_serialize api) ?es). length x \<le> i32_max"
    using ok le_trans [of _ kMaximumEntrySize i32_max]
    by (auto simp only: list_all_iff entry_ok_def set_map kMaximumEntrySize_def)
  have "pack api bapi i (of_nat n) l =
      Inr (put_int32 bapi (of_nat n) @ pack_body bapi (map (le_serialize api) ?es))"
    using pack_collect_indexed [OF st(2), of i n api] assms(4,5) pack_write_body [OF small] st(1) n
    by (simp add: pack_def word_le_nat_alt)
  moreover have "decode_pack api bapi (put_int32 bapi (of_nat n) @ pack_body bapi (map (le_serialize api) ?es)) =
      Inr (map (reloaded api) ?es)"
    using decode_pack_ok [OF assms(1,2) ok] len assms(6) by metis
  moreover have "map entry_core (map (reloaded api) ?es) = map entry_core ?es"
    using reloaded_facts(2) [OF assms(1)] by simp
  ultimately show ?thesis by blast
qed

definition plain_buffers :: buffer_api where
  "plain_buffers = \<lparr>put_int32 = be_bytes 4,
     get_int = (\<lambda>bs pos. if length bs < pos + 4 then Inl (Runtime_error '''')
       else Inr (be_value (take 4 (drop pos bs))))\<rparr>"

lemma plain_buffers_ok: "buffer_api_ok plain_buffers"
  by (simp add: buffer_api_ok_def plain_buffers_def be_value_be_bytes)

theorem pack_roundtrip_witness:
  "\<exists>l packed es. store_ok plain_entries 1 [] [example_entry] l (log_world []) \<and>
     pack plain_entries plain_buffers 1 1 l = Inr packed \<and>
     decode_pack plain_entries plain_buffers packed = Inr es \<and> map entry_core es = [entry_core example_entry]"
proof -
  obtain l where l: "store_ok plain_entries 1 [] [example_entry] l (log_world [])" using example_store by blast
  show ?thesis using pack_roundtrip [OF plain_entries_ok plain_buffers_ok l, of 1 1] l by auto
qed

text \<open>
  C35. A batch whose sync failed must not be retried: the frames stay pending after they reached the
  file, so a later flush that succeeds appends them a second time, and the next start of the node
  refuses the log.
\<close>

theorem retried_batch_blocks_restart:
  assumes "entry_api_ok api" and "store_ok api s ds ps l w" and "ps \<noteq> []" and "script w = [Ok, Err m]"
    and "log_size api s (ds @ ps @ ps) \<le> kMaximumLogFile"
  shows "\<exists>l' w' l'' w'' w3. sync_pending_locked (l, w) = (Throw (log_io_error ''fdatasync'' (log_file l) m), (l', w')) \<and>
    flush (l', w') = (Ret True, (l'', w'')) \<and>
    new_FileLogStore api (log_file l) (power_loss kept w'') =
      (Throw (DecodeError ''invalid Raft WAL entry sequence''), w3)"
proof -
  let ?p = "log_file l" and ?pend = "frames api (s + of_nat (length ds)) ps"
  obtain f where f: "files w ?p = Some f" "content f = header_image s @ frames api s ds"
    "synced f = length (content f)" and old: "older w ?p = []" and pend: "pending l = ?pend" and op: "fd_open l"
    and st: "s \<noteq> 0" "no_wrap s (length (ds @ ps))" "list_all (entry_ok api) (ds @ ps)"
    using assms(2) by (auto simp: store_ok_def)
  have ne: "pending l \<noteq> []" using pend assms(3) by simp
  define w1 where "w1 = append_file ?p (pending l) (w\<lparr>script := []\<rparr>)"
  have s1: "sync_pending_locked (l, w) = (Throw (log_io_error ''fdatasync'' ?p m), (l, w1))"
    using ne op assms(4) f(1)
    by (simp add: sync_pending_open write_all.simps bindP_def sys_write_def pop_def sync_data_def
        sys_call_def w1_def append_file_def)
  have w1: "script w1 = []" "files w1 ?p = Some (f\<lparr>content := content f @ pending l\<rparr>)"
    using f(1) by (simp_all add: w1_def files_ops)
  define w2 where "w2 = sync_file ?p (sync_file ?p (append_file ?p (pending l) w1))"
  have s2: "\<exists>l''. flush (l, w1) = (Ret True, (l'', w2))"
    using w1(1) ne op
    by (simp add: flush_def sync_pending_open bindP_def get_store_def in_world_def write_all_empty_script
        sync_data_def sys_call_def w2_def)
  let ?c = "header_image s @ frames api s (ds @ ps) @ ?pend"
  have "files w2 ?p = Some \<lparr>content = ?c, synced = length ?c\<rparr>"
    using w1(2) f(2) pend by (cases f) (simp add: w2_def files_ops frames_append)
  moreover have "older w2 ?p = []" using old by (simp add: w2_def w1_def)
  ultimately have node: "files (power_loss kept w2) ?p = Some \<lparr>content = ?c, synced = length ?c\<rparr>"
    by (simp add: power_loss_synced)
  obtain e rest where ps: "ps = e # rest" using assms(3) by (cases ps) auto
  have "no_wrap s (length ps)" using st(2) by (simp add: no_wrap_def)
  then have "(of_nat (length ps) :: u64) \<noteq> 0" using of_nat_length_eq_0 assms(3) by blast
  then have idx: "s + of_nat (length ds) \<noteq> s + of_nat (length (ds @ ps))" by simp
  have "wal_loop api ?c kHeaderSize s [] [] kHeaderSize = Inl (DecodeError ''invalid Raft WAL entry sequence'')"
    using wal_loop_gap [OF assms(1) st(3,2) _ idx, of e "header_image s"
        "frames api (s + of_nat (length ds) + 1) rest"] st(3) ps by simp
  moreover have "length ?c \<le> kMaximumLogFile"
    using assms(5) length_frames_start [of api "s + of_nat (length (ds @ ps))" ps "s + of_nat (length ds)"]
    by (simp add: log_size_def frames_append add.assoc)
  ultimately have "new_FileLogStore api ?p (power_loss kept w2) =
      (Throw (DecodeError ''invalid Raft WAL entry sequence''), power_loss kept w2)"
    using node read_file_ok [OF power_loss_script node] parse_header_image [OF st(1)]
      starts_with_header [of s "frames api s (ds @ ps) @ ?pend"]
    by (simp add: new_FileLogStore_def load_def load_wal_locked_def get_store_def mod_store_def
        fresh_store_def bindP_def in_world_def create_directories_def sys_call_def file_exists_def)
  then show ?thesis using s1 s2 by blast
qed

theorem retried_batch_blocks_restart_witness:
  "\<exists>l e l' w' l'' w'' w3. store_ok plain_entries 1 [] [example_entry] l (log_world [Ok, Err ''EIO'']) \<and>
     sync_pending_locked (l, log_world [Ok, Err ''EIO'']) = (Throw e, (l', w')) \<and> flush (l', w') = (Ret True, (l'', w'')) \<and>
     new_FileLogStore plain_entries (log_file l) (power_loss (\<lambda>_. (0, 0)) w'') =
       (Throw (DecodeError ''invalid Raft WAL entry sequence''), w3)"
proof -
  obtain l where l: "store_ok plain_entries 1 [] [example_entry] l (log_world [Ok, Err ''EIO''])"
    using example_store by blast
  have "log_size plain_entries 1 ([] @ [example_entry] @ [example_entry]) \<le> kMaximumLogFile"
    by (simp add: log_size_def length_frame_image plain_entries_def example_entry_def kMaximumLogFile_def
        kHeaderSize_def)
  moreover have "script (log_world [Ok, Err ''EIO'']) = [Ok, Err ''EIO'']" by (simp add: log_world_def)
  ultimately show ?thesis
    using retried_batch_blocks_restart [OF plain_entries_ok l, of "''EIO''" "\<lambda>_. (0, 0)"] l by blast
qed

text \<open>
  C36. After a process crash between the write and the sync of a batch, the next start counts the
  batch as durable although its bytes are not synced: the durable index it reports covers entries
  that a power loss can still remove.
\<close>

theorem restart_counts_unsynced_as_durable:
  assumes "entry_api_ok api" and "store_ok api s ds ps l w" and "ps \<noteq> []" and "script w = [Ok, Die n]"
    and "log_size api s (ds @ ps) \<le> kMaximumLogFile"
  shows "\<exists>w' w'' l'' f. sync_pending_locked (l, w) = (Died, (l, w')) \<and> script w' = [] \<and>
    new_FileLogStore api (log_file l) w' = (Ret l'', w'') \<and>
    last_durable_index l'' = s + of_nat (length (ds @ ps)) - 1 \<and>
    files w'' (log_file l) = Some f \<and> synced f = log_size api s ds \<and> synced f < length (content f)"
proof -
  let ?p = "log_file l"
  obtain f where f: "files w ?p = Some f" "content f = header_image s @ frames api s ds"
    "synced f = length (content f)" and pend: "pending l = frames api (s + of_nat (length ds)) ps" and op: "fd_open l"
    and st: "s \<noteq> 0" "no_wrap s (length (ds @ ps))" "list_all (entry_ok api) (ds @ ps)"
    using assms(2) by (auto simp: store_ok_def)
  have ne: "pending l \<noteq> []" using pend assms(3) by simp
  define w1 where "w1 = append_file ?p (pending l) (w\<lparr>script := []\<rparr>)"
  have "sync_pending_locked (l, w) = (Died, (l, w1))"
    using ne op assms(4) f(1)
    by (simp add: sync_pending_open write_all.simps bindP_def sys_write_def pop_def sync_data_def
        sys_call_def w1_def append_file_def)
  moreover have w1: "script w1 = []" "files w1 ?p = Some (f\<lparr>content := content f @ pending l\<rparr>)"
    using f(1) by (simp_all add: w1_def files_ops)
  moreover have "new_FileLogStore api ?p w1 = (Ret (loaded_store api ?p s (ds @ ps)), w1)"
    using load_result [OF assms(1) w1, of s "ds @ ps" "[]"] f(2) pend st assms(5)
    by (simp add: frames_append log_size_def)
  ultimately show ?thesis
    using f(2,3) ne by (auto simp: loaded_store_def last_durable_index_def log_size_def)
qed

theorem restart_counts_unsynced_as_durable_witness:
  "\<exists>l w' w'' l'' f. store_ok plain_entries 1 [] [example_entry] l (log_world [Ok, Die 0]) \<and>
     sync_pending_locked (l, log_world [Ok, Die 0]) = (Died, (l, w')) \<and>
     new_FileLogStore plain_entries (log_file l) w' = (Ret l'', w'') \<and> last_durable_index l'' = 1 \<and>
     files w'' (log_file l) = Some f \<and> synced f < length (content f)"
proof -
  obtain l where l: "store_ok plain_entries 1 [] [example_entry] l (log_world [Ok, Die 0])"
    using example_store by blast
  have "log_size plain_entries 1 ([] @ [example_entry]) \<le> kMaximumLogFile"
    by (simp add: log_size_def length_frame_image plain_entries_def example_entry_def kMaximumLogFile_def
        kHeaderSize_def)
  then show ?thesis
    using restart_counts_unsynced_as_durable [OF plain_entries_ok l, of 0] l by (auto simp: log_world_def)
qed

end
