(* ===== verification/Config.thy ===== *)
theory Config
  imports Decimal
begin

text \<open>
  The configuration file, \<^verbatim>\<open>src/src/config/config.cpp\<close>: the line scanner, one assignment function
  per section, and the validation of the whole. The environment is a partial map and the file is
  its content, or \<open>None\<close> when it cannot be opened. A \<^theory_text>\<open>ClusterNode*\<close> into the vector of
  nodes is the index of the node.

  The theorems: a configuration that was loaded is valid, with every number in its range; loading
  the documented layout of a valid configuration gives back the configuration.
\<close>

section \<open>Data\<close>

record ClusterNode =
  cn_id :: int
  cn_host :: string
  cn_raft_port :: nat
  cn_client_port :: nat

record Config =
  cfg_node_id :: int
  cfg_bind_address :: string
  cfg_client_port :: nat
  cfg_raft_port :: nat
  cfg_cluster_nodes :: "ClusterNode list"
  cfg_requirepass :: string
  cfg_data_dir :: string
  cfg_raft_log_dir :: string
  cfg_snapshot_dir :: string
  cfg_heartbeat_ms :: int
  cfg_election_timeout_lower_ms :: int
  cfg_election_timeout_upper_ms :: int
  cfg_client_request_timeout_ms :: int
  cfg_enable_lease_reads :: bool
  cfg_snapshot_distance :: int
  cfg_reserved_log_items :: int
  cfg_max_connections :: nat
  cfg_max_request_size :: nat
  cfg_log_level :: string
  cfg_log_path :: string

definition default_node :: ClusterNode where
  "default_node = \<lparr>cn_id = 0, cn_host = '''', cn_raft_port = 0, cn_client_port = 0\<rparr>"

definition default_config :: Config where
  "default_config = \<lparr>cfg_node_id = 0, cfg_bind_address = ''0.0.0.0'', cfg_client_port = 0, cfg_raft_port = 0,
     cfg_cluster_nodes = [], cfg_requirepass = '''', cfg_data_dir = '''', cfg_raft_log_dir = '''',
     cfg_snapshot_dir = '''', cfg_heartbeat_ms = 100, cfg_election_timeout_lower_ms = 300,
     cfg_election_timeout_upper_ms = 600, cfg_client_request_timeout_ms = 5000,
     cfg_enable_lease_reads = True, cfg_snapshot_distance = 1000000, cfg_reserved_log_items = 100000,
     cfg_max_connections = 10000, cfg_max_request_size = 1024 * 1024, cfg_log_level = ''info'',
     cfg_log_path = ''''\<rparr>"

definition raft_endpoint :: "ClusterNode \<Rightarrow> string" where
  "raft_endpoint n = cn_host n @ '':'' @ to_string_nat (cn_raft_port n)"

definition client_endpoint :: "ClusterNode \<Rightarrow> string" where
  "client_endpoint n = cn_host n @ '':'' @ to_string_nat (cn_client_port n)"

definition find_node :: "int \<Rightarrow> Config \<Rightarrow> ClusterNode option" where
  "find_node i c = find (\<lambda>n. cn_id n = i) (cfg_cluster_nodes c)"

definition local_node :: "Config \<Rightarrow> exn + ClusterNode" where
  "local_node c =
     (case find_node (cfg_node_id c) c of
        None \<Rightarrow> Inl (Logic_error ''validated config lost local node'')
      | Some n \<Rightarrow> Inr n)"

section \<open>Text\<close>

definition is_space :: "char \<Rightarrow> bool" where
  "is_space c \<longleftrightarrow> c = CHR '' '' \<or> (9 \<le> (of_char c :: nat) \<and> (of_char c :: nat) \<le> 13)"

definition trim :: "string \<Rightarrow> string" where
  "trim s = rev (dropWhile is_space (rev (dropWhile is_space s)))"

abbreviation double_quote :: char where "double_quote \<equiv> CHR 0x22"
abbreviation single_quote :: char where "single_quote \<equiv> CHR 0x27"
abbreviation colon :: char where "colon \<equiv> CHR '':''"

definition quoted :: "string \<Rightarrow> bool" where
  "quoted v \<longleftrightarrow> length v \<ge> 2 \<and>
     (hd v = double_quote \<and> last v = double_quote \<or> hd v = single_quote \<and> last v = single_quote)"

definition unquote :: "string \<Rightarrow> string" where
  "unquote s = (let v = trim s in if quoted v then take (length v - 2) (drop 1 v) else v)"

definition resolve_environment_reference :: "(string \<rightharpoonup> string) \<Rightarrow> string \<Rightarrow> string \<Rightarrow> exn + string" where
  "resolve_environment_reference env v field =
     (if length v < 4 \<or> take 2 v \<noteq> ''${'' \<or> last v \<noteq> CHR ''}'' then Inr v
      else
        let name = take (length v - 3) (drop 2 v) in
        if name = [] then
          Inl (Runtime_error (field @ '' contains an empty environment variable reference''))
        else
          case env (takeWhile (\<lambda>c. c \<noteq> CHR 0x00) name) of
            None \<Rightarrow> Inl (Runtime_error (field @ '' requires non-empty environment variable '' @ name))
          | Some resolved \<Rightarrow>
              if resolved = [] then
                Inl (Runtime_error (field @ '' requires non-empty environment variable '' @ name))
              else Inr resolved)"

definition line_error :: "nat \<Rightarrow> string \<Rightarrow> exn" where
  "line_error n m = Runtime_error (''config line '' @ to_string_nat n @ '': '' @ m)"

definition split_assignment :: "string \<Rightarrow> nat \<Rightarrow> exn + string \<times> string" where
  "split_assignment text line_number =
     (if colon \<notin> set text then Inl (line_error line_number ''expected key: value'')
      else
        let key = trim (takeWhile (\<lambda>c. c \<noteq> colon) text);
            v = unquote (tl (dropWhile (\<lambda>c. c \<noteq> colon) text))
        in if key = [] then Inl (line_error line_number ''empty key'') else Inr (key, v))"

definition parse_unsigned :: "string \<Rightarrow> string \<Rightarrow> exn + u64" where
  "parse_unsigned text field =
     (if text = [] then Inl (Runtime_error (''missing numeric config field: '' @ field))
      else
        case digit_loop u64_max 0 text of
          Inl Non_digit \<Rightarrow> Inl (Runtime_error (''invalid unsigned value for '' @ field @ '': '' @ text))
        | Inl Too_large \<Rightarrow> Inl (Runtime_error (''numeric overflow for '' @ field))
        | Inr v \<Rightarrow> Inr v)"

definition parse_bounded :: "string \<Rightarrow> string \<Rightarrow> nat \<Rightarrow> nat \<Rightarrow> exn + u64" where
  "parse_bounded text field minimum maximum =
     bindE (parse_unsigned text field) (\<lambda>v.
     if unat v < minimum \<or> unat v > maximum then
       Inl (Runtime_error (field @ '' is outside allowed range ['' @ to_string_nat minimum @ '', '' @
         to_string_nat maximum @ '']''))
     else Inr v)"

text \<open>The three result types of the template.\<close>

definition bounded_int32 :: "string \<Rightarrow> string \<Rightarrow> nat \<Rightarrow> nat \<Rightarrow> exn + int" where
  "bounded_int32 text field minimum maximum =
     bindE (parse_bounded text field minimum maximum) (\<lambda>v. Inr (sint (ucast v :: i32)))"

definition bounded_uint16 :: "string \<Rightarrow> string \<Rightarrow> nat \<Rightarrow> nat \<Rightarrow> exn + nat" where
  "bounded_uint16 text field minimum maximum =
     bindE (parse_bounded text field minimum maximum) (\<lambda>v. Inr (unat (ucast v :: u16)))"

definition bounded_size :: "string \<Rightarrow> string \<Rightarrow> nat \<Rightarrow> nat \<Rightarrow> exn + nat" where
  "bounded_size text field minimum maximum =
     bindE (parse_bounded text field minimum maximum) (\<lambda>v. Inr (unat v))"

definition parse_boolean :: "string \<Rightarrow> string \<Rightarrow> exn + bool" where
  "parse_boolean text field =
     (if text = ''true'' then Inr True
      else if text = ''false'' then Inr False
      else Inl (Runtime_error (''invalid boolean value for '' @ field @ '': '' @ text)))"

definition reject_unknown :: "string \<Rightarrow> string \<Rightarrow> nat \<Rightarrow> exn" where
  "reject_unknown section key line_number =
     line_error line_number (''unknown field '' @ section @ ''.'' @ key)"

section \<open>Assignments\<close>

definition assign_cluster_field :: "string \<Rightarrow> string \<Rightarrow> nat \<Rightarrow> ClusterNode \<Rightarrow> exn + ClusterNode" where
  "assign_cluster_field key v line_number n =
     (if key = ''id'' then
        bindE (bounded_int32 v ''cluster.nodes.id'' 1 i32_max) (\<lambda>x. Inr (n\<lparr>cn_id := x\<rparr>))
      else if key = ''host'' then Inr (n\<lparr>cn_host := v\<rparr>)
      else if key = ''raft_port'' then
        bindE (bounded_uint16 v ''cluster.nodes.raft_port'' 1 65535) (\<lambda>x. Inr (n\<lparr>cn_raft_port := x\<rparr>))
      else if key = ''client_port'' then
        bindE (bounded_uint16 v ''cluster.nodes.client_port'' 1 65535) (\<lambda>x. Inr (n\<lparr>cn_client_port := x\<rparr>))
      else Inl (reject_unknown ''cluster.nodes'' key line_number))"

definition assign_node :: "string \<Rightarrow> string \<Rightarrow> nat \<Rightarrow> Config \<Rightarrow> exn + Config" where
  "assign_node key v line_number c =
     (if key = ''id'' then bindE (bounded_int32 v ''node.id'' 1 i32_max) (\<lambda>x. Inr (c\<lparr>cfg_node_id := x\<rparr>))
      else Inl (reject_unknown ''node'' key line_number))"

definition assign_network :: "string \<Rightarrow> string \<Rightarrow> nat \<Rightarrow> Config \<Rightarrow> exn + Config" where
  "assign_network key v line_number c =
     (if key = ''bind'' then Inr (c\<lparr>cfg_bind_address := v\<rparr>)
      else if key = ''client_port'' then
        bindE (bounded_uint16 v ''network.client_port'' 1 65535) (\<lambda>x. Inr (c\<lparr>cfg_client_port := x\<rparr>))
      else if key = ''raft_port'' then
        bindE (bounded_uint16 v ''network.raft_port'' 1 65535) (\<lambda>x. Inr (c\<lparr>cfg_raft_port := x\<rparr>))
      else Inl (reject_unknown ''network'' key line_number))"

definition assign_security :: "(string \<rightharpoonup> string) \<Rightarrow> string \<Rightarrow> string \<Rightarrow> nat \<Rightarrow> Config \<Rightarrow> exn + Config" where
  "assign_security env key v line_number c =
     (if key = ''requirepass'' then
        bindE (resolve_environment_reference env v ''security.requirepass'') (\<lambda>x.
        Inr (c\<lparr>cfg_requirepass := x\<rparr>))
      else Inl (reject_unknown ''security'' key line_number))"

definition assign_storage :: "string \<Rightarrow> string \<Rightarrow> nat \<Rightarrow> Config \<Rightarrow> exn + Config" where
  "assign_storage key v line_number c =
     (if key = ''data_dir'' then Inr (c\<lparr>cfg_data_dir := v\<rparr>)
      else if key = ''raft_log_dir'' then Inr (c\<lparr>cfg_raft_log_dir := v\<rparr>)
      else if key = ''snapshot_dir'' then Inr (c\<lparr>cfg_snapshot_dir := v\<rparr>)
      else Inl (reject_unknown ''storage'' key line_number))"

definition assign_raft :: "string \<Rightarrow> string \<Rightarrow> nat \<Rightarrow> Config \<Rightarrow> exn + Config" where
  "assign_raft key v line_number c =
     (if key = ''heartbeat_ms'' then
        bindE (bounded_int32 v ''raft.heartbeat_ms'' 10 60000) (\<lambda>x. Inr (c\<lparr>cfg_heartbeat_ms := x\<rparr>))
      else if key = ''election_timeout_lower_ms'' then
        bindE (bounded_int32 v ''raft.election_timeout_lower_ms'' 20 120000) (\<lambda>x.
        Inr (c\<lparr>cfg_election_timeout_lower_ms := x\<rparr>))
      else if key = ''election_timeout_upper_ms'' then
        bindE (bounded_int32 v ''raft.election_timeout_upper_ms'' 20 120000) (\<lambda>x.
        Inr (c\<lparr>cfg_election_timeout_upper_ms := x\<rparr>))
      else if key = ''client_request_timeout_ms'' then
        bindE (bounded_int32 v ''raft.client_request_timeout_ms'' 100 300000) (\<lambda>x.
        Inr (c\<lparr>cfg_client_request_timeout_ms := x\<rparr>))
      else if key = ''enable_lease_reads'' then
        bindE (parse_boolean v ''raft.enable_lease_reads'') (\<lambda>x. Inr (c\<lparr>cfg_enable_lease_reads := x\<rparr>))
      else if key = ''snapshot_distance'' then
        bindE (bounded_int32 v ''raft.snapshot_distance'' 1 i32_max) (\<lambda>x. Inr (c\<lparr>cfg_snapshot_distance := x\<rparr>))
      else if key = ''reserved_log_items'' then
        bindE (bounded_int32 v ''raft.reserved_log_items'' 0 i32_max) (\<lambda>x. Inr (c\<lparr>cfg_reserved_log_items := x\<rparr>))
      else Inl (reject_unknown ''raft'' key line_number))"

definition assign_server :: "string \<Rightarrow> string \<Rightarrow> nat \<Rightarrow> Config \<Rightarrow> exn + Config" where
  "assign_server key v line_number c =
     (if key = ''max_connections'' then
        bindE (bounded_size v ''server.max_connections'' 1 1000000) (\<lambda>x. Inr (c\<lparr>cfg_max_connections := x\<rparr>))
      else if key = ''max_request_size'' then
        bindE (bounded_size v ''server.max_request_size'' 64 (1024 * 1024 * 1024)) (\<lambda>x.
        Inr (c\<lparr>cfg_max_request_size := x\<rparr>))
      else Inl (reject_unknown ''server'' key line_number))"

definition assign_logging :: "string \<Rightarrow> string \<Rightarrow> nat \<Rightarrow> Config \<Rightarrow> exn + Config" where
  "assign_logging key v line_number c =
     (if key = ''level'' then Inr (c\<lparr>cfg_log_level := v\<rparr>)
      else if key = ''path'' then Inr (c\<lparr>cfg_log_path := v\<rparr>)
      else Inl (reject_unknown ''logging'' key line_number))"

text \<open>The chain over the sections other than \<^theory_text>\<open>cluster\<close>.\<close>

definition assign_field ::
  "(string \<rightharpoonup> string) \<Rightarrow> string \<Rightarrow> string \<Rightarrow> string \<Rightarrow> nat \<Rightarrow> Config \<Rightarrow> exn + Config" where
  "assign_field env section key v line_number c =
     (if section = ''node'' then assign_node key v line_number c
      else if section = ''network'' then assign_network key v line_number c
      else if section = ''security'' then assign_security env key v line_number c
      else if section = ''storage'' then assign_storage key v line_number c
      else if section = ''raft'' then assign_raft key v line_number c
      else if section = ''server'' then assign_server key v line_number c
      else if section = ''logging'' then assign_logging key v line_number c
      else Inr c)"

section \<open>Lines\<close>

record LoadState =
  ld_config :: Config
  ld_section :: string
  ld_cluster_nodes :: bool
  ld_current_node :: "nat option"

definition initial_load :: LoadState where
  "initial_load = \<lparr>ld_config = default_config, ld_section = '''', ld_cluster_nodes = False,
     ld_current_node = None\<rparr>"

definition allowed_sections :: "string list" where
  "allowed_sections = [''node'', ''network'', ''cluster'', ''security'', ''storage'', ''raft'', ''server'', ''logging'']"

definition section_line :: "nat \<Rightarrow> string \<Rightarrow> LoadState \<Rightarrow> exn + LoadState" where
  "section_line line_number text st =
     (if last text \<noteq> colon then Inl (line_error line_number (''top-level section must end in '' @ [single_quote, colon, single_quote]))
      else
        let section = butlast text in
        if section \<notin> set allowed_sections
        then Inl (line_error line_number (''unknown section '' @ section))
        else Inr (st\<lparr>ld_section := section, ld_cluster_nodes := False, ld_current_node := None\<rparr>))"

text \<open>A line inside a section: an assignment, possibly behind the dash that opens a node.\<close>

definition open_node :: "LoadState \<Rightarrow> LoadState" where
  "open_node st =
     (let nodes = cfg_cluster_nodes (ld_config st)
      in st\<lparr>ld_config := (ld_config st)\<lparr>cfg_cluster_nodes := nodes @ [default_node]\<rparr>,
            ld_current_node := Some (length nodes)\<rparr>)"

definition cluster_assignment :: "nat \<Rightarrow> string \<Rightarrow> string \<Rightarrow> LoadState \<Rightarrow> exn + LoadState" where
  "cluster_assignment line_number key v st =
     (case (ld_cluster_nodes st, ld_current_node st) of
        (True, Some i) \<Rightarrow>
          (let nodes = cfg_cluster_nodes (ld_config st)
           in bindE (assign_cluster_field key v line_number (nodes ! i)) (\<lambda>n.
              Inr (st\<lparr>ld_config := (ld_config st)\<lparr>cfg_cluster_nodes := nodes[i := n]\<rparr>\<rparr>)))
      | _ \<Rightarrow> Inl (line_error line_number ''cluster fields must be inside cluster.nodes''))"

definition field_line :: "(string \<rightharpoonup> string) \<Rightarrow> nat \<Rightarrow> string \<Rightarrow> LoadState \<Rightarrow> exn + LoadState" where
  "field_line env line_number text st =
     (if ld_section st = [] then Inl (line_error line_number ''field appears before a section'')
      else if ld_section st = ''cluster'' \<and> text = ''nodes:''
      then Inr (st\<lparr>ld_cluster_nodes := True, ld_current_node := None\<rparr>)
      else
        let dash = (ld_section st = ''cluster'' \<and> ld_cluster_nodes st \<and> take 2 text = ''- '');
            st = (if dash then open_node st else st);
            assignment = (if dash then drop 2 text else text)
        in bindE (split_assignment assignment line_number) (\<lambda>(key, v).
           if ld_section st = ''cluster'' then cluster_assignment line_number key v st
           else bindE (assign_field env (ld_section st) key v line_number (ld_config st)) (\<lambda>c.
             Inr (st\<lparr>ld_config := c\<rparr>))))"

definition config_line :: "(string \<rightharpoonup> string) \<Rightarrow> nat \<Rightarrow> string \<Rightarrow> LoadState \<Rightarrow> exn + LoadState" where
  "config_line env line_number raw_line st =
     (let raw_line = (if raw_line \<noteq> [] \<and> last raw_line = CHR 0x0D then butlast raw_line else raw_line) in
      if CHR 0x09 \<in> set raw_line then Inl (line_error line_number ''tabs are not allowed'')
      else
        let raw_line = takeWhile (\<lambda>c. c \<noteq> CHR ''#'') raw_line in
        if trim raw_line = [] then Inr st
        else
          let indent = length (takeWhile (\<lambda>c. c = CHR '' '') raw_line);
              text = trim raw_line
          in if indent = 0 then section_line line_number text st
             else field_line env line_number text st)"

lemma length_rest_lines: "s \<noteq> [] \<Longrightarrow> length (tl (dropWhile P s)) < length s"
proof -
  assume "s \<noteq> []"
  then have "0 < length s" by simp
  moreover have "length (dropWhile P s) \<le> length s" by (rule length_dropWhile_le)
  ultimately show ?thesis by (simp only: length_tl)
qed

text \<open>\<^theory_text>\<open>std::getline\<close> until the end of the file: a last line without a line feed counts, an empty one does not.\<close>

function getlines :: "string \<Rightarrow> string list" where
  "getlines s =
     (if s = [] then []
      else if CHR 0x0A \<notin> set s then [s]
      else takeWhile (\<lambda>c. c \<noteq> CHR 0x0A) s # getlines (tl (dropWhile (\<lambda>c. c \<noteq> CHR 0x0A) s)))"
  by pat_completeness auto

termination
  by (relation "measure length") (simp_all add: length_rest_lines del: length_tl)

declare getlines.simps [simp del]

primrec config_lines :: "(string \<rightharpoonup> string) \<Rightarrow> string list \<Rightarrow> nat \<Rightarrow> LoadState \<Rightarrow> exn + LoadState" where
  "config_lines env [] n st = Inr st"
| "config_lines env (l # ls) n st = bindE (config_line env (n + 1) l st) (config_lines env ls (n + 1))"

section \<open>Validation\<close>

fun validate_nodes :: "ClusterNode list \<Rightarrow> int set \<Rightarrow> string set \<Rightarrow> string set \<Rightarrow> exn + unit" where
  "validate_nodes [] ids raft_endpoints client_endpoints = Inr ()"
| "validate_nodes (n # ns) ids raft_endpoints client_endpoints =
     (if cn_id n \<le> 0 \<or> cn_host n = [] \<or> cn_raft_port n = 0 \<or> cn_client_port n = 0
      then Inl (Runtime_error ''each cluster node requires id, host, raft_port, client_port'')
      else if cn_id n \<in> ids then Inl (Runtime_error ''duplicate cluster node id'')
      else if raft_endpoint n \<in> raft_endpoints then Inl (Runtime_error ''duplicate cluster Raft endpoint'')
      else if client_endpoint n \<in> client_endpoints
      then Inl (Runtime_error ''duplicate cluster client endpoint'')
      else validate_nodes ns (insert (cn_id n) ids) (insert (raft_endpoint n) raft_endpoints)
             (insert (client_endpoint n) client_endpoints))"

definition validate :: "Config \<Rightarrow> exn + unit" where
  "validate c =
     bindE (guardE (\<not> cfg_node_id c \<le> 0) (Runtime_error ''node.id is required'')) (\<lambda>_.
     bindE (guardE (\<not> (cfg_bind_address c = [] \<or> cfg_client_port c = 0 \<or> cfg_raft_port c = 0))
       (Runtime_error ''network.bind, client_port, and raft_port are required'')) (\<lambda>_.
     bindE (guardE (\<not> length (cfg_cluster_nodes c) < 3)
       (Runtime_error ''StrongKV prototype requires at least three voting nodes'')) (\<lambda>_.
     bindE (validate_nodes (cfg_cluster_nodes c) {} {} {}) (\<lambda>_.
     case find_node (cfg_node_id c) c of
       None \<Rightarrow> Inl (Runtime_error ''node.id is absent from cluster.nodes'')
     | Some local \<Rightarrow>
         bindE (guardE (\<not> (cn_raft_port local \<noteq> cfg_raft_port c \<or> cn_client_port local \<noteq> cfg_client_port c))
           (Runtime_error ''local network ports do not match cluster.nodes entry'')) (\<lambda>_.
         bindE (guardE (cfg_requirepass c \<noteq> []) (Runtime_error ''security.requirepass must not be empty'')) (\<lambda>_.
         bindE (guardE (\<not> (cfg_data_dir c = [] \<or> cfg_raft_log_dir c = [] \<or> cfg_snapshot_dir c = []))
           (Runtime_error ''all storage directories are required'')) (\<lambda>_.
         bindE (guardE (\<not> (cfg_heartbeat_ms c \<ge> cfg_election_timeout_lower_ms c \<or>
             cfg_election_timeout_lower_ms c \<ge> cfg_election_timeout_upper_ms c))
           (Runtime_error ''require heartbeat_ms < election lower < election upper'')) (\<lambda>_.
         bindE (guardE (\<not> cfg_snapshot_distance c \<le> cfg_reserved_log_items c)
           (Runtime_error ''raft.snapshot_distance must exceed reserved_log_items'')) (\<lambda>_.
         bindE (guardE (cfg_log_level c \<in> {''debug'', ''info'', ''warn'', ''error''})
           (Runtime_error ''logging.level must be debug, info, warn, or error'')) (\<lambda>_.
         guardE (cfg_log_path c \<noteq> []) (Runtime_error ''logging.path is required'')))))))))))"

definition Config_load :: "(string \<rightharpoonup> string) \<Rightarrow> string \<Rightarrow> string option \<Rightarrow> exn + Config" where
  "Config_load env path input =
     (case input of
        None \<Rightarrow> Inl (Runtime_error (''cannot open config file: '' @ path))
      | Some content \<Rightarrow>
          bindE (config_lines env (getlines content) 0 initial_load) (\<lambda>st.
          bindE (validate (ld_config st)) (\<lambda>_. Inr (ld_config st))))"

section \<open>Numbers\<close>

lemma parse_unsigned_iff:
  "parse_unsigned s field = Inr v \<longleftrightarrow>
     s \<noteq> [] \<and> list_all is_digit s \<and> decimal_value s < 2 ^ 64 \<and> v = of_nat (decimal_value s)"
proof (cases "digit_loop u64_max 0 s")
  case (Inl e)
  moreover have "\<not> (list_all is_digit s \<and> decimal_value s < 2 ^ 64)"
    using digit_loop_Inr_iff [of u64_max s "of_nat (decimal_value s)"] Inl by (auto simp: list_all_iff)
  ultimately show ?thesis by (cases e) (auto simp: parse_unsigned_def)
next
  case (Inr r)
  moreover have "list_all is_digit s \<and> decimal_value s < 2 ^ 64 \<and> r = of_nat (decimal_value s)"
    using digit_loop_Inr_iff [of u64_max s r] Inr by (auto simp: list_all_iff)
  ultimately show ?thesis by (auto simp: parse_unsigned_def)
qed

lemma parse_bounded_range:
  "parse_bounded s field mn mx = Inr v \<Longrightarrow> mn \<le> unat v \<and> unat v \<le> mx"
  by (auto simp: parse_bounded_def exn_simps split: if_splits)

lemma parse_bounded_nat:
  assumes "mn \<le> n" and "n \<le> mx" and "n < 2 ^ 64"
  shows "parse_bounded (to_string_nat n) field mn mx = Inr (of_nat n)"
proof -
  have "parse_unsigned (to_string_nat n) field = Inr (of_nat n)"
    using assms(3) by (simp add: parse_unsigned_iff list_all_iff digits_to_string_nat)
  moreover have "unat (of_nat n :: u64) = n" using assms(3) by (simp add: unat_of_nat)
  ultimately show ?thesis using assms(1,2) by (simp add: parse_bounded_def)
qed

lemma ucast_of_nat_small: "(ucast (v :: u64) :: 'a::len word) = of_nat (unat v)"
proof -
  have "v = of_nat (unat v)" by simp
  then have "(ucast v :: 'a word) = ucast (of_nat (unat v) :: u64)" by simp
  also have "\<dots> = of_nat (take_bit 64 (unat v))" by (simp only: unsigned_of_nat len_num0 len_bit0 len_num1) simp
  also have "take_bit 64 (unat v) = unat v"
    using unsigned_less [of v, where ?'a = nat] by (simp add: take_bit_nat_eq_self)
  finally show ?thesis .
qed

lemma small_int32:
  assumes "unat (v :: u64) \<le> i32_max"
  shows "sint (ucast v :: i32) = int (unat v)"
proof -
  have "sint (of_int (int (unat v)) :: i32) = int (unat v)"
    using assms by (subst signed_of_int, subst signed_take_bit_int_eq_self) (simp_all del: of_nat_unat)
  then show ?thesis by (simp only: ucast_of_nat_small of_int_of_nat_eq)
qed

lemma bounded_int32_range:
  assumes "bounded_int32 s field mn mx = Inr x" and "mx \<le> i32_max"
  shows "int mn \<le> x \<and> x \<le> int mx"
proof -
  obtain v where v: "parse_bounded s field mn mx = Inr v" "x = sint (ucast v :: i32)"
    using assms(1) by (auto simp: bounded_int32_def exn_simps)
  have "x = int (unat v)" using v small_int32 [of v] parse_bounded_range [OF v(1)] assms(2) by simp
  then show ?thesis using parse_bounded_range [OF v(1)] by (simp only: of_nat_le_iff)
qed

lemma bounded_int32_nat:
  assumes "int mn \<le> i" and "i \<le> int mx" and "mx \<le> i32_max"
  shows "bounded_int32 (to_string_nat (nat i)) field mn mx = Inr i"
proof -
  have n: "mn \<le> nat i" "nat i \<le> mx" "nat i < 2 ^ 64" using assms by auto
  have "unat (of_nat (nat i) :: u64) = nat i" using n(3) by (simp add: unat_of_nat)
  then show ?thesis
    using parse_bounded_nat [OF n] small_int32 [of "of_nat (nat i)"] n assms by (simp add: bounded_int32_def)
qed

lemma small_uint16: "unat (v :: u64) \<le> 65535 \<Longrightarrow> unat (ucast v :: u16) = unat v"
  by (simp add: ucast_of_nat_small unat_of_nat del: of_nat_unat)

lemma bounded_uint16_range:
  assumes "bounded_uint16 s field mn mx = Inr x" and "mx \<le> 65535"
  shows "mn \<le> x \<and> x \<le> mx"
proof -
  obtain v where "parse_bounded s field mn mx = Inr v" "x = unat (ucast v :: u16)"
    using assms(1) by (auto simp: bounded_uint16_def exn_simps)
  then show ?thesis using parse_bounded_range [of s field mn mx v] small_uint16 [of v] assms(2) by simp
qed

section \<open>Valid configurations\<close>

text \<open>The range every number of a configuration stays in from the defaults on.\<close>

definition node_ranges :: "ClusterNode \<Rightarrow> bool" where
  "node_ranges n \<longleftrightarrow> 0 \<le> cn_id n \<and> cn_id n \<le> int i32_max \<and> cn_raft_port n \<le> 65535 \<and> cn_client_port n \<le> 65535"

definition config_ranges :: "Config \<Rightarrow> bool" where
  "config_ranges c \<longleftrightarrow>
     0 \<le> cfg_node_id c \<and> cfg_node_id c \<le> int i32_max \<and> cfg_client_port c \<le> 65535 \<and> cfg_raft_port c \<le> 65535 \<and>
     10 \<le> cfg_heartbeat_ms c \<and> cfg_heartbeat_ms c \<le> 60000 \<and>
     20 \<le> cfg_election_timeout_lower_ms c \<and> cfg_election_timeout_lower_ms c \<le> 120000 \<and>
     20 \<le> cfg_election_timeout_upper_ms c \<and> cfg_election_timeout_upper_ms c \<le> 120000 \<and>
     100 \<le> cfg_client_request_timeout_ms c \<and> cfg_client_request_timeout_ms c \<le> 300000 \<and>
     1 \<le> cfg_snapshot_distance c \<and> cfg_snapshot_distance c \<le> int i32_max \<and>
     0 \<le> cfg_reserved_log_items c \<and> cfg_reserved_log_items c \<le> int i32_max \<and>
     1 \<le> cfg_max_connections c \<and> cfg_max_connections c \<le> 1000000 \<and>
     64 \<le> cfg_max_request_size c \<and> cfg_max_request_size c \<le> 1024 * 1024 * 1024 \<and>
     list_all node_ranges (cfg_cluster_nodes c)"

text \<open>What \<open>validate\<close> asks of a configuration.\<close>

definition nodes_valid :: "ClusterNode list \<Rightarrow> bool" where
  "nodes_valid ns \<longleftrightarrow>
     list_all (\<lambda>n. 0 < cn_id n \<and> cn_host n \<noteq> [] \<and> cn_raft_port n \<noteq> 0 \<and> cn_client_port n \<noteq> 0) ns \<and>
     distinct (map cn_id ns) \<and> distinct (map raft_endpoint ns) \<and> distinct (map client_endpoint ns)"

definition config_valid :: "Config \<Rightarrow> bool" where
  "config_valid c \<longleftrightarrow>
     0 < cfg_node_id c \<and> cfg_bind_address c \<noteq> [] \<and> cfg_client_port c \<noteq> 0 \<and> cfg_raft_port c \<noteq> 0 \<and>
     3 \<le> length (cfg_cluster_nodes c) \<and> nodes_valid (cfg_cluster_nodes c) \<and>
     (\<exists>n\<in>set (cfg_cluster_nodes c). cn_id n = cfg_node_id c \<and> cn_raft_port n = cfg_raft_port c \<and>
        cn_client_port n = cfg_client_port c) \<and>
     cfg_requirepass c \<noteq> [] \<and> cfg_data_dir c \<noteq> [] \<and> cfg_raft_log_dir c \<noteq> [] \<and> cfg_snapshot_dir c \<noteq> [] \<and>
     cfg_heartbeat_ms c < cfg_election_timeout_lower_ms c \<and>
     cfg_election_timeout_lower_ms c < cfg_election_timeout_upper_ms c \<and>
     cfg_reserved_log_items c < cfg_snapshot_distance c \<and>
     cfg_log_level c \<in> {''debug'', ''info'', ''warn'', ''error''} \<and> cfg_log_path c \<noteq> []"

lemma validate_nodes_iff:
  "validate_nodes ns ids res ces = Inr () \<longleftrightarrow>
     nodes_valid ns \<and> ids \<inter> cn_id ` set ns = {} \<and> res \<inter> raft_endpoint ` set ns = {} \<and>
     ces \<inter> client_endpoint ` set ns = {}"
  by (induction ns arbitrary: ids res ces) (auto simp: nodes_valid_def)

lemma find_SomeD: "find P xs = Some x \<Longrightarrow> x \<in> set xs \<and> P x"
  by (induction xs) (auto split: if_splits)

lemma find_node_iff:
  assumes "distinct (map cn_id (cfg_cluster_nodes c))"
  shows "find_node i c = Some n \<longleftrightarrow> n \<in> set (cfg_cluster_nodes c) \<and> cn_id n = i"
proof
  assume "find_node i c = Some n"
  then show "n \<in> set (cfg_cluster_nodes c) \<and> cn_id n = i"
    unfolding find_node_def by (auto dest: find_SomeD)
next
  assume n: "n \<in> set (cfg_cluster_nodes c) \<and> cn_id n = i"
  then obtain m where m: "find_node i c = Some m"
    unfolding find_node_def by (metis (mono_tags, lifting) find_None_iff option.exhaust)
  then have "m \<in> set (cfg_cluster_nodes c) \<and> cn_id m = i"
    unfolding find_node_def by (auto dest: find_SomeD)
  then show "find_node i c = Some n"
    using n m assms by (auto simp: distinct_map inj_on_def)
qed

lemma find_node_None: "find_node i c = None \<longleftrightarrow> (\<forall>n\<in>set (cfg_cluster_nodes c). cn_id n \<noteq> i)"
  by (auto simp: find_node_def find_None_iff)

lemma validate_iff: "validate c = Inr () \<longleftrightarrow> config_valid c"
proof (cases "nodes_valid (cfg_cluster_nodes c)")
  case True
  then have d: "distinct (map cn_id (cfg_cluster_nodes c))" by (simp add: nodes_valid_def)
  have v: "validate_nodes (cfg_cluster_nodes c) {} {} {} = Inr ()"
    using True by (simp add: validate_nodes_iff)
  show ?thesis
  proof (cases "find_node (cfg_node_id c) c")
    case None
    then have "\<forall>n\<in>set (cfg_cluster_nodes c). cn_id n \<noteq> cfg_node_id c" by (simp add: find_node_None)
    then show ?thesis
      using v None by (auto simp: validate_def exn_simps config_valid_def)
  next
    case (Some n)
    then have n: "n \<in> set (cfg_cluster_nodes c)" "cn_id n = cfg_node_id c" using find_node_iff [OF d] by auto
    have u: "\<And>m. m \<in> set (cfg_cluster_nodes c) \<Longrightarrow> cn_id m = cfg_node_id c \<Longrightarrow> m = n"
      using find_node_iff [OF d] Some by (metis option.inject)
    have l: "(\<exists>m\<in>set (cfg_cluster_nodes c). cn_id m = cfg_node_id c \<and> cn_raft_port m = cfg_raft_port c \<and>
        cn_client_port m = cfg_client_port c) \<longleftrightarrow> cn_raft_port n = cfg_raft_port c \<and> cn_client_port n = cfg_client_port c"
      using n u by blast
    show ?thesis
      unfolding validate_def config_valid_def l using Some v True
      by (simp add: exn_simps not_le not_less)
  qed
next
  case False
  then have "validate_nodes (cfg_cluster_nodes c) {} {} {} \<noteq> Inr ()" by (simp add: validate_nodes_iff)
  then show ?thesis using False by (auto simp: validate_def exn_simps config_valid_def)
qed

section \<open>Loading keeps the ranges\<close>

definition load_ok :: "LoadState \<Rightarrow> bool" where
  "load_ok st \<longleftrightarrow> config_ranges (ld_config st) \<and>
     (\<forall>i. ld_current_node st = Some i \<longrightarrow> i < length (cfg_cluster_nodes (ld_config st)))"

lemma bounded_size_range: "bounded_size s field mn mx = Inr x \<Longrightarrow> mn \<le> x \<and> x \<le> mx"
  by (auto simp: bounded_size_def exn_simps dest: parse_bounded_range)

lemma assign_cluster_field_ranges [inv_intros]:
  "assign_cluster_field key v l n = Inr n' \<Longrightarrow> node_ranges n \<Longrightarrow> node_ranges n'"
  by (auto simp: assign_cluster_field_def node_ranges_def exn_simps split: if_splits
      dest: bounded_int32_range bounded_uint16_range)

lemma assign_network_ranges: "assign_network key v l c = Inr c' \<Longrightarrow> config_ranges c \<Longrightarrow> config_ranges c'"
  by (auto simp: assign_network_def config_ranges_def exn_simps split: if_splits dest: bounded_uint16_range)

lemma assign_node_ranges: "assign_node key v l c = Inr c' \<Longrightarrow> config_ranges c \<Longrightarrow> config_ranges c'"
  by (auto simp: assign_node_def config_ranges_def exn_simps split: if_splits dest: bounded_int32_range)

lemma branchE:
  "(if b then bindE m (\<lambda>x. Inr (g x)) else r) = Inr c' \<Longrightarrow>
    (\<And>x. m = Inr x \<Longrightarrow> c' = g x \<Longrightarrow> Q) \<Longrightarrow> (r = Inr c' \<Longrightarrow> Q) \<Longrightarrow> Q"
  by (auto simp: exn_simps split: if_splits)

lemma assign_raft_ranges: "assign_raft key v l c = Inr c' \<Longrightarrow> config_ranges c \<Longrightarrow> config_ranges c'"
  unfolding assign_raft_def
  by (elim branchE) (auto simp: config_ranges_def dest: bounded_int32_range)

lemma assign_server_ranges: "assign_server key v l c = Inr c' \<Longrightarrow> config_ranges c \<Longrightarrow> config_ranges c'"
  by (auto simp: assign_server_def config_ranges_def exn_simps split: if_splits dest!: bounded_size_range)

lemma assign_text_ranges:
  "assign_security env key v l c = Inr c' \<Longrightarrow> config_ranges c \<Longrightarrow> config_ranges c'"
  "assign_storage key v l c = Inr c' \<Longrightarrow> config_ranges c \<Longrightarrow> config_ranges c'"
  "assign_logging key v l c = Inr c' \<Longrightarrow> config_ranges c \<Longrightarrow> config_ranges c'"
  by (auto simp: assign_security_def assign_storage_def assign_logging_def config_ranges_def exn_simps
      split: if_splits)

lemmas assign_ranges = assign_network_ranges assign_node_ranges assign_raft_ranges assign_server_ranges
  assign_text_ranges

lemma assign_field_ranges: "assign_field env s key v l c = Inr c' \<Longrightarrow> config_ranges c \<Longrightarrow> config_ranges c'"
  by (auto simp: assign_field_def split: if_splits dest: assign_ranges)

lemma assign_field_nodes: "assign_field env s key v l c = Inr c' \<Longrightarrow> cfg_cluster_nodes c' = cfg_cluster_nodes c"
  unfolding assign_field_def assign_network_def assign_node_def assign_raft_def assign_server_def
    assign_security_def assign_storage_def assign_logging_def
  by (auto simp: exn_simps split: if_splits)

lemma open_node_ok: "load_ok st \<Longrightarrow> load_ok (open_node st)"
  by (auto simp: load_ok_def open_node_def config_ranges_def Let_def default_node_def node_ranges_def)

lemma cluster_assignment_ok:
  assumes "cluster_assignment l key v st = Inr st'" and "load_ok st"
  shows "load_ok st'"
proof -
  let ?ns = "cfg_cluster_nodes (ld_config st)"
  obtain i n where i: "ld_current_node st = Some i" "assign_cluster_field key v l (?ns ! i) = Inr n"
      "st' = st\<lparr>ld_config := (ld_config st)\<lparr>cfg_cluster_nodes := ?ns[i := n]\<rparr>\<rparr>"
    using assms(1) by (auto simp: cluster_assignment_def Let_def exn_simps split: bool.splits option.splits)
  have "node_ranges n"
    using assign_cluster_field_ranges [OF i(2)] i(1) assms(2)
    by (simp add: load_ok_def config_ranges_def list_all_length)
  then have "list_all node_ranges (?ns[i := n])"
    using assms(2) set_update_subset_insert [of ?ns i n]
    by (auto simp: load_ok_def config_ranges_def list_all_iff)
  then show ?thesis using i assms(2) by (simp add: load_ok_def config_ranges_def)
qed

lemma assign_field_ok:
  "assign_field env s key v l (ld_config st) = Inr c \<Longrightarrow> load_ok st \<Longrightarrow> load_ok (st\<lparr>ld_config := c\<rparr>)"
  by (simp add: load_ok_def assign_field_ranges [of env s key v l "ld_config st"]
      assign_field_nodes [of env s key v l "ld_config st"])

lemma nodes_line_ok: "load_ok st \<Longrightarrow> load_ok (st\<lparr>ld_cluster_nodes := True, ld_current_node := None\<rparr>)"
  by (simp add: load_ok_def)

lemma field_line_ok: "field_line env l s st = Inr st' \<Longrightarrow> load_ok st \<Longrightarrow> load_ok st'"
  by (auto simp: field_line_def Let_def exn_simps nodes_line_ok open_node_ok split: if_splits
      dest: cluster_assignment_ok assign_field_ok)

lemma config_line_ok: "config_line env l s st = Inr st' \<Longrightarrow> load_ok st \<Longrightarrow> load_ok st'"
  by (auto simp: config_line_def section_line_def Let_def split: if_splits dest: field_line_ok)
    (auto simp: load_ok_def)

lemma config_lines_ok: "config_lines env ls n st = Inr st' \<Longrightarrow> load_ok st \<Longrightarrow> load_ok st'"
  by (induction ls arbitrary: n st) (auto simp: exn_simps dest: config_line_ok)

lemma initial_load_ok: "load_ok initial_load"
  by (simp add: load_ok_def initial_load_def default_config_def config_ranges_def)

section \<open>The layout of the shipped configuration files\<close>

text \<open>
  The lines of \<^verbatim>\<open>src/conf/node1.yaml\<close> with the values of a configuration, the password given as
  a reference to an environment variable.
\<close>

definition header_text :: "string \<Rightarrow> string" where
  "header_text s = s @ '':''"

definition field_text :: "nat \<Rightarrow> string \<Rightarrow> string \<Rightarrow> string" where
  "field_text indent key v = replicate indent CHR '' '' @ key @ '': '' @ v"

definition boolean_text :: "bool \<Rightarrow> string" where
  "boolean_text b = (if b then ''true'' else ''false'')"

abbreviation int32_text :: "int \<Rightarrow> string" where
  "int32_text i \<equiv> to_string_nat (nat i)"

definition node_text :: "ClusterNode \<Rightarrow> string list" where
  "node_text n =
     [field_text 4 ''- id'' (int32_text (cn_id n)), field_text 6 ''host'' (cn_host n),
      field_text 6 ''raft_port'' (to_string_nat (cn_raft_port n)),
      field_text 6 ''client_port'' (to_string_nat (cn_client_port n))]"

definition network_text :: "Config \<Rightarrow> string list" where
  "network_text c =
     [header_text ''node'', field_text 2 ''id'' (int32_text (cfg_node_id c)),
      header_text ''network'', field_text 2 ''bind'' (cfg_bind_address c),
      field_text 2 ''client_port'' (to_string_nat (cfg_client_port c)),
      field_text 2 ''raft_port'' (to_string_nat (cfg_raft_port c))]"

definition cluster_text :: "Config \<Rightarrow> string list" where
  "cluster_text c = [header_text ''cluster'', ''  nodes:''] @ concat (map node_text (cfg_cluster_nodes c))"

definition storage_text :: "string \<Rightarrow> Config \<Rightarrow> string list" where
  "storage_text var c =
     [header_text ''security'', field_text 2 ''requirepass'' (''${'' @ var @ ''}''),
      header_text ''storage'', field_text 2 ''data_dir'' (cfg_data_dir c),
      field_text 2 ''raft_log_dir'' (cfg_raft_log_dir c), field_text 2 ''snapshot_dir'' (cfg_snapshot_dir c)]"

definition raft_text :: "Config \<Rightarrow> string list" where
  "raft_text c =
     [header_text ''raft'', field_text 2 ''heartbeat_ms'' (int32_text (cfg_heartbeat_ms c)),
      field_text 2 ''election_timeout_lower_ms'' (int32_text (cfg_election_timeout_lower_ms c)),
      field_text 2 ''election_timeout_upper_ms'' (int32_text (cfg_election_timeout_upper_ms c)),
      field_text 2 ''client_request_timeout_ms'' (int32_text (cfg_client_request_timeout_ms c)),
      field_text 2 ''enable_lease_reads'' (boolean_text (cfg_enable_lease_reads c)),
      field_text 2 ''snapshot_distance'' (int32_text (cfg_snapshot_distance c)),
      field_text 2 ''reserved_log_items'' (int32_text (cfg_reserved_log_items c))]"

definition server_text :: "Config \<Rightarrow> string list" where
  "server_text c =
     [header_text ''server'', field_text 2 ''max_connections'' (to_string_nat (cfg_max_connections c)),
      field_text 2 ''max_request_size'' (to_string_nat (cfg_max_request_size c)),
      header_text ''logging'', field_text 2 ''level'' (cfg_log_level c), field_text 2 ''path'' (cfg_log_path c)]"

definition config_text :: "string \<Rightarrow> Config \<Rightarrow> string list" where
  "config_text var c = network_text c @ cluster_text c @ storage_text var c @ raft_text c @ server_text c"

definition file_text :: "string list \<Rightarrow> string" where
  "file_text ls = concat (map (\<lambda>l. l @ [CHR 0x0A]) ls)"

text \<open>The texts that stand for themselves in a line.\<close>

definition plain_char :: "char \<Rightarrow> bool" where
  "plain_char c \<longleftrightarrow> c \<noteq> CHR 0x0A \<and> c \<noteq> CHR 0x0D \<and> c \<noteq> CHR 0x09 \<and> c \<noteq> CHR ''#''"

definition plain :: "string \<Rightarrow> bool" where
  "plain s \<longleftrightarrow> s \<noteq> [] \<and> list_all plain_char s \<and> \<not> is_space (hd s) \<and> \<not> is_space (last s) \<and> \<not> quoted s"

definition config_plain :: "string \<Rightarrow> Config \<Rightarrow> bool" where
  "config_plain var c \<longleftrightarrow>
     list_all plain [var, cfg_bind_address c, cfg_data_dir c, cfg_raft_log_dir c, cfg_snapshot_dir c,
       cfg_log_level c, cfg_log_path c] \<and>
     list_all (\<lambda>n. plain (cn_host n)) (cfg_cluster_nodes c) \<and> CHR 0x00 \<notin> set var"

lemma getlines_file_text:
  "list_all (\<lambda>l. CHR 0x0A \<notin> set l) ls \<Longrightarrow> getlines (file_text ls) = ls"
proof (induction ls)
  case Nil
  then show ?case by (simp add: file_text_def getlines.simps)
next
  case (Cons l ls)
  have "takeWhile (\<lambda>c. c \<noteq> CHR 0x0A) (l @ CHR 0x0A # t) = l"
    "dropWhile (\<lambda>c. c \<noteq> CHR 0x0A) (l @ CHR 0x0A # t) = CHR 0x0A # t" for t
    using Cons.prems by (induction l) auto
  then show ?case
    using Cons by (simp add: file_text_def getlines.simps [of "l @ CHR 0x0A # _"])
qed

lemma trim_plain:
  assumes "s \<noteq> []" and "\<not> is_space (hd s)" and "\<not> is_space (last s)"
  shows "trim (replicate k CHR '' '' @ s) = s"
proof -
  have "dropWhile is_space (replicate k CHR '' '' @ s) = s"
    using assms(1,2) by (induction k) (auto simp: is_space_def dropWhile_eq_self_iff)
  moreover have "dropWhile is_space (rev s) = rev s"
    using assms(1,3) by (simp add: dropWhile_eq_self_iff hd_rev)
  ultimately show ?thesis by (simp add: trim_def)
qed

lemma takeWhile_all: "(\<And>c. c \<in> set s \<Longrightarrow> P c) \<Longrightarrow> takeWhile P s = s"
  by (simp add: takeWhile_eq_all_conv)

lemma config_line_plain:
  assumes "s \<noteq> []" and "\<not> is_space (hd s)" and "\<not> is_space (last s)" and "list_all plain_char s"
  shows "config_line env n (replicate k CHR '' '' @ s) st =
    (if k = 0 then section_line n s st else field_line env n s st)"
proof -
  define l where "l = replicate k CHR '' '' @ s"
  have ne: "l \<noteq> []" using assms(1) by (simp add: l_def)
  have cs: "c \<in> set l \<Longrightarrow> plain_char c" for c
    using assms(4) by (auto simp: l_def list_all_iff plain_char_def)
  have cr: "last l \<noteq> CHR 0x0D" using cs [OF last_in_set [OF ne]] by (simp only: plain_char_def) blast
  have "\<not> plain_char CHR 0x09" "\<not> plain_char CHR ''#''" by (simp_all add: plain_char_def)
  then have tab: "CHR 0x09 \<notin> set l" and "CHR ''#'' \<notin> set l" using cs by metis+
  then have hash: "takeWhile (\<lambda>c. c \<noteq> CHR ''#'') l = l" by (intro takeWhile_all) auto
  obtain c s' where "s = c # s'" using assms(1) by (cases s) auto
  then have indent: "length (takeWhile (\<lambda>c. c = CHR '' '') l) = k"
    using assms(2) by (simp add: l_def is_space_def takeWhile_append)
  have "trim l = s" using trim_plain [OF assms(1-3)] by (simp add: l_def)
  then show ?thesis
    using assms(1) cr by (simp only: l_def [symmetric] config_line_def Let_def tab hash indent if_False if_True not_False_eq_True simp_thms)
qed

definition simple_key :: "string \<Rightarrow> bool" where
  "simple_key k \<longleftrightarrow> k \<noteq> [] \<and> list_all (\<lambda>c. plain_char c \<and> c \<noteq> colon) k \<and> \<not> is_space (hd k) \<and> \<not> is_space (last k)"

lemma header_text_line:
  assumes "s \<in> set allowed_sections"
  shows "config_line env n (header_text s) st =
    Inr (st\<lparr>ld_section := s, ld_cluster_nodes := False, ld_current_node := None\<rparr>)"
proof -
  have s: "s \<noteq> []" "\<not> is_space (hd s)" "list_all plain_char s"
    using assms by (auto simp: allowed_sections_def is_space_def plain_char_def)
  have "config_line env n (replicate 0 CHR '' '' @ s @ [colon]) st = section_line n (s @ [colon]) st"
    by (subst config_line_plain) (use s in \<open>simp_all add: is_space_def [of colon] plain_char_def [of colon]\<close>)
  then show ?thesis using assms by (simp add: header_text_def section_line_def)
qed

lemma field_text_line:
  assumes "simple_key key" and "plain v" and "0 < k"
  shows "config_line env n (field_text k key v) st = field_line env n (key @ '': '' @ v) st"
proof -
  have "key @ '': '' @ v \<noteq> []" "\<not> is_space (hd (key @ '': '' @ v))" "\<not> is_space (last (key @ '': '' @ v))"
      "list_all plain_char (key @ '': '' @ v)"
    using assms(1,2) by (auto simp: simple_key_def plain_def plain_char_def list_all_iff)
  from config_line_plain [OF this, of env n k st] assms(3) show ?thesis by (simp add: field_text_def)
qed

lemma split_assignment_text:
  assumes "simple_key key" and "plain v"
  shows "split_assignment (key @ '': '' @ v) n = Inr (key, v)"
proof -
  have nc: "\<And>c. c \<in> set key \<Longrightarrow> c \<noteq> colon" using assms(1) by (auto simp: simple_key_def list_all_iff)
  have "takeWhile (\<lambda>c. c \<noteq> colon) (key @ colon # t) = key" "dropWhile (\<lambda>c. c \<noteq> colon) (key @ colon # t) = colon # t" for t
    using nc by (induction key) auto
  moreover have "trim key = key"
    using trim_plain [of key 0] assms(1) by (simp add: simple_key_def)
  moreover have "trim (CHR '' '' # v) = v"
    using trim_plain [of v 1] assms(2) by (simp add: plain_def)
  ultimately show ?thesis
    using assms by (simp add: split_assignment_def unquote_def plain_def simple_key_def)
qed

lemma section_field:
  assumes "simple_key key" and "plain v" and "ld_section st \<noteq> ''cluster''" and "ld_section st \<noteq> []"
  shows "config_line env n (field_text 2 key v) st =
    bindE (assign_field env (ld_section st) key v n (ld_config st)) (\<lambda>c. Inr (st\<lparr>ld_config := c\<rparr>))"
  using assms field_text_line [OF assms(1,2)] split_assignment_text [OF assms(1,2), of n]
  by (simp add: field_line_def)

lemma cluster_field:
  assumes "simple_key key" and "plain v" and "hd key \<noteq> CHR ''-''" and "0 < k"
    and "ld_section st = ''cluster''" and "ld_cluster_nodes st"
  shows "config_line env n (field_text k key v) st = cluster_assignment n key v st"
proof -
  have "CHR '' '' \<notin> set ''nodes:''" by simp
  moreover have "CHR '' '' \<in> set (key @ '': '' @ v)" by simp
  ultimately have "key @ '': '' @ v \<noteq> ''nodes:''" by metis
  moreover have "take 2 (key @ '': '' @ v) \<noteq> ''- ''"
    using assms(1,3) by (cases key) (simp_all add: simple_key_def numeral_2_eq_2)
  ultimately show ?thesis
    using assms field_text_line [OF assms(1,2,4)] split_assignment_text [OF assms(1,2), of n]
    by (simp add: field_line_def)
qed

lemma cluster_dash:
  assumes "simple_key key" and "plain v" and "0 < k"
    and "ld_section st = ''cluster''" and "ld_cluster_nodes st"
  shows "config_line env n (field_text k (''- '' @ key) v) st = cluster_assignment n key v (open_node st)"
proof -
  have k: "simple_key (''- '' @ key)"
    using assms(1) by (auto simp: simple_key_def plain_char_def is_space_def)
  have s: "ld_section (open_node st) = ''cluster''" using assms(4) by (simp add: open_node_def Let_def)
  show ?thesis
    using assms s field_text_line [OF k assms(2,3)] split_assignment_text [OF assms(1,2), of n]
    by (simp add: field_line_def)
qed

lemma config_lines_append:
  "config_lines env (xs @ ys) n st = bindE (config_lines env xs n st) (config_lines env ys (n + length xs))"
  by (induction xs arbitrary: n st) (auto simp: bindE_def split: sum.split)

lemma plain_digits [simp]: "plain (to_string_nat n)"
proof -
  have d: "\<And>c. c \<in> set (to_string_nat n) \<Longrightarrow> is_digit c" by (rule digits_to_string_nat)
  then have "is_digit (hd (to_string_nat n))" "is_digit (last (to_string_nat n))" by simp_all
  moreover have "is_digit c \<Longrightarrow> plain_char c \<and> \<not> is_space c \<and> c \<noteq> double_quote \<and> c \<noteq> single_quote" for c
    by (auto simp: is_digit_def plain_char_def is_space_def)
  ultimately show ?thesis using d by (auto simp: plain_def list_all_iff quoted_def)
qed

lemma simple_keys [simp]:
  "simple_key ''id''" "simple_key ''host''" "simple_key ''raft_port''" "simple_key ''client_port''"
  "simple_key ''bind''" "simple_key ''requirepass''" "simple_key ''data_dir''" "simple_key ''raft_log_dir''"
  "simple_key ''snapshot_dir''" "simple_key ''heartbeat_ms''" "simple_key ''election_timeout_lower_ms''"
  "simple_key ''election_timeout_upper_ms''" "simple_key ''client_request_timeout_ms''"
  "simple_key ''enable_lease_reads''" "simple_key ''snapshot_distance''" "simple_key ''reserved_log_items''"
  "simple_key ''max_connections''" "simple_key ''max_request_size''" "simple_key ''level''" "simple_key ''path''"
  by (simp_all add: simple_key_def plain_char_def is_space_def)

lemma plain_boolean [simp]: "plain (boolean_text b)"
  by (simp add: boolean_text_def plain_def plain_char_def is_space_def quoted_def)

lemma parse_boolean_text: "parse_boolean (boolean_text b) f = Inr b"
  by (simp add: boolean_text_def parse_boolean_def)

lemma bounded_uint16_nat:
  assumes "mn \<le> n" and "n \<le> mx" and "mx \<le> 65535"
  shows "bounded_uint16 (to_string_nat n) f mn mx = Inr n"
proof -
  have "n < 2 ^ 64" using assms by simp
  moreover have "unat (of_nat n :: u64) = n" using assms by (simp add: unat_of_nat)
  ultimately show ?thesis
    using parse_bounded_nat [OF assms(1,2)] small_uint16 [of "of_nat n"] assms by (simp add: bounded_uint16_def)
qed

lemma bounded_size_nat:
  assumes "mn \<le> n" and "n \<le> mx" and "mx < 2 ^ 64"
  shows "bounded_size (to_string_nat n) f mn mx = Inr n"
proof -
  have n: "n < 2 ^ 64" using assms by linarith
  then have "unat (of_nat n :: u64) = n" by (simp add: unat_of_nat)
  then show ?thesis using parse_bounded_nat [OF assms(1,2) n] by (simp add: bounded_size_def)
qed

lemma resolve_reference:
  assumes "CHR 0x00 \<notin> set var" and "var \<noteq> []" and "env var = Some pw" and "pw \<noteq> []"
  shows "resolve_environment_reference env (''${'' @ var @ ''}'') f = Inr pw"
proof -
  have "takeWhile (\<lambda>c. c \<noteq> CHR 0x00) var = var" using assms(1) by (intro takeWhile_all) auto
  then have "env (takeWhile (\<lambda>c. c \<noteq> CHR 0x00) var) = Some pw" using assms(3) by (simp only:)
  moreover have "4 \<le> length (''${'' @ var @ ''}'')" using assms(2) by (cases var) simp_all
  ultimately show ?thesis using assms(2-4) by (simp add: resolve_environment_reference_def)
qed

lemma plain_reference: "plain var \<Longrightarrow> plain (''${'' @ var @ ''}'')"
  by (simp add: plain_def is_space_def plain_char_def quoted_def)

lemma network_section:
  assumes "config_ranges c" and "config_valid c" and "plain (cfg_bind_address c)"
  shows "config_lines env (network_text c) n st =
    Inr (st\<lparr>ld_section := ''network'', ld_cluster_nodes := False, ld_current_node := None,
      ld_config := (ld_config st)\<lparr>cfg_node_id := cfg_node_id c, cfg_bind_address := cfg_bind_address c,
        cfg_client_port := cfg_client_port c, cfg_raft_port := cfg_raft_port c\<rparr>\<rparr>)"
  using assms
  by (simp add: network_text_def header_text_line allowed_sections_def section_field assign_field_def
      assign_node_def assign_network_def bounded_int32_nat bounded_uint16_nat config_ranges_def config_valid_def)

lemma node_lines:
  assumes "node_ranges m" and "nodes_valid [m]" and "plain (cn_host m)"
    and "ld_section st = ''cluster''" and "ld_cluster_nodes st"
  shows "config_lines env (node_text m) n st =
    Inr (st\<lparr>ld_config := (ld_config st)\<lparr>cfg_cluster_nodes := cfg_cluster_nodes (ld_config st) @ [m]\<rparr>,
      ld_current_node := Some (length (cfg_cluster_nodes (ld_config st)))\<rparr>)"
proof -
  have d: "''- id'' = ''- '' @ ''id''" by simp
  show ?thesis
    using assms
    by (simp add: node_text_def d cluster_dash cluster_field cluster_assignment_def open_node_def Let_def
        assign_cluster_field_def bounded_int32_nat bounded_uint16_nat node_ranges_def nodes_valid_def
        default_node_def del: append.simps)
qed

lemma nodes_lines:
  assumes "list_all node_ranges ms" and "nodes_valid ms" and "list_all (\<lambda>m. plain (cn_host m)) ms"
    and "ld_section st = ''cluster''" and "ld_cluster_nodes st"
  shows "\<exists>i. config_lines env (concat (map node_text ms)) n st =
    Inr (st\<lparr>ld_config := (ld_config st)\<lparr>cfg_cluster_nodes := cfg_cluster_nodes (ld_config st) @ ms\<rparr>,
      ld_current_node := i\<rparr>)"
  using assms
proof (induction ms arbitrary: n st)
  case Nil
  then show ?case by (auto intro!: exI [of _ "ld_current_node st"])
next
  case (Cons m ms)
  let ?st = "st\<lparr>ld_config := (ld_config st)\<lparr>cfg_cluster_nodes := cfg_cluster_nodes (ld_config st) @ [m]\<rparr>,
      ld_current_node := Some (length (cfg_cluster_nodes (ld_config st)))\<rparr>"
  have m: "config_lines env (node_text m) n st = Inr ?st"
    using Cons.prems by (intro node_lines) (simp_all add: nodes_valid_def)
  have "\<exists>i. config_lines env (concat (map node_text ms)) (n + length (node_text m)) ?st =
      Inr (?st\<lparr>ld_config := (ld_config ?st)\<lparr>cfg_cluster_nodes := cfg_cluster_nodes (ld_config ?st) @ ms\<rparr>,
        ld_current_node := i\<rparr>)"
    using Cons.prems by (intro Cons.IH) (simp_all add: nodes_valid_def)
  then show ?case by (simp add: config_lines_append m)
qed

lemma cluster_section:
  assumes "config_ranges c" and "config_valid c" and "list_all (\<lambda>m. plain (cn_host m)) (cfg_cluster_nodes c)"
    and "cfg_cluster_nodes (ld_config st) = []"
  shows "\<exists>i. config_lines env (cluster_text c) n st =
    Inr (st\<lparr>ld_section := ''cluster'', ld_cluster_nodes := True, ld_current_node := i,
      ld_config := (ld_config st)\<lparr>cfg_cluster_nodes := cfg_cluster_nodes c\<rparr>\<rparr>)"
proof -
  let ?st = "st\<lparr>ld_section := ''cluster'', ld_cluster_nodes := True, ld_current_node := None\<rparr>"
  have h: "config_line env k (header_text ''cluster'') st =
      Inr (st\<lparr>ld_section := ''cluster'', ld_cluster_nodes := False, ld_current_node := None\<rparr>)" for k
    by (rule header_text_line) (simp add: allowed_sections_def)
  have "config_line env k (replicate 2 CHR '' '' @ ''nodes:'') s = field_line env k ''nodes:'' s" for k s
    by (subst config_line_plain) (simp_all add: is_space_def plain_char_def)
  then have "config_line env k ''  nodes:'' s = field_line env k ''nodes:'' s" for k s
    by (simp add: numeral_2_eq_2)
  then have two: "config_lines env [header_text ''cluster'', ''  nodes:''] n st = Inr ?st"
    by (simp add: h field_line_def)
  have "list_all node_ranges (cfg_cluster_nodes c)" "nodes_valid (cfg_cluster_nodes c)"
    using assms(1,2) by (simp_all add: config_ranges_def config_valid_def)
  then obtain i where i: "config_lines env (concat (map node_text (cfg_cluster_nodes c))) (n + 2) ?st =
      Inr (?st\<lparr>ld_config := (ld_config st)\<lparr>cfg_cluster_nodes := cfg_cluster_nodes c\<rparr>, ld_current_node := i\<rparr>)"
    using nodes_lines [of "cfg_cluster_nodes c" ?st env "n + 2"] assms(3,4) by auto
  have "config_lines env (cluster_text c) n st =
      config_lines env (concat (map node_text (cfg_cluster_nodes c))) (n + 2) ?st"
    unfolding cluster_text_def config_lines_append two by simp
  then show ?thesis using i by (intro exI [of _ i]) simp
qed

lemma storage_section:
  assumes "config_valid c" and "config_plain var c" and "env var = Some (cfg_requirepass c)"
  shows "config_lines env (storage_text var c) n st =
    Inr (st\<lparr>ld_section := ''storage'', ld_cluster_nodes := False, ld_current_node := None,
      ld_config := (ld_config st)\<lparr>cfg_requirepass := cfg_requirepass c, cfg_data_dir := cfg_data_dir c,
        cfg_raft_log_dir := cfg_raft_log_dir c, cfg_snapshot_dir := cfg_snapshot_dir c\<rparr>\<rparr>)"
proof -
  have v: "plain var" "CHR 0x00 \<notin> set var" "var \<noteq> []" "cfg_requirepass c \<noteq> []"
    using assms by (auto simp: config_plain_def config_valid_def plain_def)
  define ref where "ref = ''${'' @ var @ ''}''"
  have "plain ref" "resolve_environment_reference env ref f = Inr (cfg_requirepass c)" for f
    using plain_reference [OF v(1)] resolve_reference [where env = env, OF v(2,3) _ v(4)] assms(3)
    by (simp_all only: ref_def)
  then show ?thesis
    unfolding storage_text_def ref_def [symmetric] using assms(2)
    by (simp add: header_text_line allowed_sections_def section_field assign_field_def
        assign_security_def assign_storage_def config_plain_def)
qed

lemma raft_section:
  assumes "config_ranges c"
  shows "config_lines env (raft_text c) n st =
    Inr (st\<lparr>ld_section := ''raft'', ld_cluster_nodes := False, ld_current_node := None,
      ld_config := (ld_config st)\<lparr>cfg_heartbeat_ms := cfg_heartbeat_ms c,
        cfg_election_timeout_lower_ms := cfg_election_timeout_lower_ms c,
        cfg_election_timeout_upper_ms := cfg_election_timeout_upper_ms c,
        cfg_client_request_timeout_ms := cfg_client_request_timeout_ms c,
        cfg_enable_lease_reads := cfg_enable_lease_reads c,
        cfg_snapshot_distance := cfg_snapshot_distance c,
        cfg_reserved_log_items := cfg_reserved_log_items c\<rparr>\<rparr>)"
  using assms
  by (simp add: raft_text_def header_text_line allowed_sections_def section_field assign_field_def
      assign_raft_def bounded_int32_nat parse_boolean_text config_ranges_def)

lemma server_section:
  assumes "config_ranges c" and "plain (cfg_log_level c)" and "plain (cfg_log_path c)"
  shows "config_lines env (server_text c) n st =
    Inr (st\<lparr>ld_section := ''logging'', ld_cluster_nodes := False, ld_current_node := None,
      ld_config := (ld_config st)\<lparr>cfg_max_connections := cfg_max_connections c,
        cfg_max_request_size := cfg_max_request_size c, cfg_log_level := cfg_log_level c,
        cfg_log_path := cfg_log_path c\<rparr>\<rparr>)"
  using assms
  by (simp add: server_text_def header_text_line allowed_sections_def section_field assign_field_def
      assign_server_def assign_logging_def bounded_size_nat config_ranges_def)

lemma config_text_lines:
  assumes "config_ranges c" and "config_valid c" and "config_plain var c" and "env var = Some (cfg_requirepass c)"
  shows "\<exists>st. config_lines env (config_text var c) 0 initial_load = Inr st \<and> ld_config st = c"
proof -
  have p: "plain (cfg_bind_address c)" "plain (cfg_log_level c)" "plain (cfg_log_path c)"
      "list_all (\<lambda>m. plain (cn_host m)) (cfg_cluster_nodes c)"
    using assms(3) by (simp_all add: config_plain_def)
  define st1 where "st1 = initial_load\<lparr>ld_section := ''network'', ld_cluster_nodes := False, ld_current_node := None,
      ld_config := (ld_config initial_load)\<lparr>cfg_node_id := cfg_node_id c, cfg_bind_address := cfg_bind_address c,
        cfg_client_port := cfg_client_port c, cfg_raft_port := cfg_raft_port c\<rparr>\<rparr>"
  have 1: "config_lines env (network_text c) 0 initial_load = Inr st1"
    unfolding st1_def by (rule network_section [OF assms(1,2) p(1)])
  have "cfg_cluster_nodes (ld_config st1) = []" by (simp add: st1_def initial_load_def default_config_def)
  from cluster_section [OF assms(1,2) p(4) this] obtain i where
    2: "config_lines env (cluster_text c) (0 + length (network_text c)) st1 =
      Inr (st1\<lparr>ld_section := ''cluster'', ld_cluster_nodes := True, ld_current_node := i,
        ld_config := (ld_config st1)\<lparr>cfg_cluster_nodes := cfg_cluster_nodes c\<rparr>\<rparr>)" by blast
  show ?thesis
    unfolding config_text_def
    by (simp only: config_lines_append 1 2 bindE_Inr storage_section [where env = env and var = var and c = c, OF assms(2-4)] raft_section [OF assms(1)]
          server_section [OF assms(1) p(2,3)] sum.inject ex_simps simp_thms)
      (simp add: st1_def initial_load_def default_config_def)
qed

lemma plain_no_newline: "plain v \<Longrightarrow> CHR 0x0A \<notin> set v"
  by (auto simp: plain_def list_all_iff plain_char_def)

lemma field_text_no_newline: "CHR 0x0A \<notin> set key \<Longrightarrow> plain v \<Longrightarrow> CHR 0x0A \<notin> set (field_text k key v)"
  using plain_no_newline by (auto simp: field_text_def)

lemma config_text_no_newline:
  assumes "config_plain var c"
  shows "list_all (\<lambda>l. CHR 0x0A \<notin> set l) (config_text var c)"
proof -
  have ref: "CHR 0x0A \<notin> set (field_text 2 ''requirepass'' (''${'' @ var @ ''}''))"
    by (intro field_text_no_newline plain_reference) (use assms in \<open>simp_all add: config_plain_def\<close>)
  have nodes: "n \<in> set (cfg_cluster_nodes c) \<Longrightarrow> l \<in> set (node_text n) \<Longrightarrow> CHR 0x0A \<notin> set l" for n l
    using assms by (auto simp: node_text_def config_plain_def list_all_iff field_text_no_newline)
  show ?thesis
    unfolding config_text_def list_all_append
    using assms ref nodes
    by (auto simp: network_text_def cluster_text_def storage_text_def raft_text_def server_text_def
        header_text_def config_plain_def list_all_iff field_text_no_newline)
qed

lemma config_text_loads:
  assumes "config_ranges c" and "config_valid c" and "config_plain var c" and "env var = Some (cfg_requirepass c)"
  shows "Config_load env path (Some (file_text (config_text var c))) = Inr c"
proof -
  obtain st where st: "config_lines env (config_text var c) 0 initial_load = Inr st" "ld_config st = c"
    using config_text_lines [where env = env and var = var and c = c, OF assms] by blast
  have "validate (ld_config st) = Inr ()" using st(2) assms(2) by (simp add: validate_iff)
  then show ?thesis
    using st getlines_file_text [OF config_text_no_newline [OF assms(3)]] by (simp add: Config_load_def)
qed

text \<open>The configuration of \<^verbatim>\<open>src/conf/node1.yaml\<close>.\<close>

definition node1_config :: Config where
  "node1_config = default_config\<lparr>cfg_node_id := 1, cfg_client_port := 7401, cfg_raft_port := 7501,
     cfg_cluster_nodes :=
       [\<lparr>cn_id = 1, cn_host = ''127.0.0.1'', cn_raft_port = 7501, cn_client_port = 7401\<rparr>,
        \<lparr>cn_id = 2, cn_host = ''127.0.0.1'', cn_raft_port = 7502, cn_client_port = 7402\<rparr>,
        \<lparr>cn_id = 3, cn_host = ''127.0.0.1'', cn_raft_port = 7503, cn_client_port = 7403\<rparr>],
     cfg_requirepass := ''secret'', cfg_data_dir := ''./data/node1'', cfg_raft_log_dir := ''./data/node1/raft'',
     cfg_snapshot_dir := ''./data/node1/snapshot'', cfg_log_level := ''warn'', cfg_log_path := ''./logs/node1.log''\<rparr>"

lemma node1_config_ok:
  "config_ranges node1_config" "config_valid node1_config" "config_plain ''STRONGKV_PASSWORD'' node1_config"
  by (simp_all add: node1_config_def default_config_def config_ranges_def config_valid_def config_plain_def
      node_ranges_def nodes_valid_def plain_def plain_char_def is_space_def quoted_def raft_endpoint_def
      client_endpoint_def to_string_nat.simps digit_char_def)

section \<open>Properties\<close>

text \<open>
  C30. Whatever the file contains, a configuration that loads is one the server can run with: its
  own node is in the cluster with the ports it listens on, there are at least three nodes with
  distinct ids and endpoints, the password is not empty, the heartbeat is shorter than every
  election timeout, and all ports, sizes and timeouts are in the ranges the code allows. In
  particular \<open>local_node\<close> does not throw.
\<close>

theorem loaded_config_is_valid:
  assumes "Config_load env path input = Inr c"
  shows "config_valid c \<and> config_ranges c \<and>
    (\<exists>n. local_node c = Inr n \<and> cn_raft_port n = cfg_raft_port c \<and> cn_client_port n = cfg_client_port c)"
proof -
  obtain st content where st: "config_lines env (getlines content) 0 initial_load = Inr st"
      "validate (ld_config st) = Inr ()" "c = ld_config st"
    using assms by (auto simp: Config_load_def exn_simps split: option.splits)
  then have v: "config_valid c" by (simp add: validate_iff)
  have r: "config_ranges c" using config_lines_ok [OF st(1) initial_load_ok] st(3) by (simp add: load_ok_def)
  have "distinct (map cn_id (cfg_cluster_nodes c))" using v by (simp add: config_valid_def nodes_valid_def)
  then have "\<exists>n. find_node (cfg_node_id c) c = Some n \<and> cn_raft_port n = cfg_raft_port c \<and>
      cn_client_port n = cfg_client_port c"
    using find_node_iff v by (auto simp: config_valid_def)
  then show ?thesis using v r by (auto simp: local_node_def)
qed

theorem loaded_config_is_valid_witness:
  "config_valid node1_config \<and> config_ranges node1_config \<and>
    (\<exists>n. local_node node1_config = Inr n \<and> cn_raft_port n = 7501 \<and> cn_client_port n = 7401)"
proof -
  have "Config_load [''STRONGKV_PASSWORD'' \<mapsto> ''secret''] ''node1.yaml''
     (Some (file_text (config_text ''STRONGKV_PASSWORD'' node1_config))) = Inr node1_config"
    by (rule config_text_loads [OF node1_config_ok]) (simp add: node1_config_def)
  from loaded_config_is_valid [OF this] show ?thesis
    by (simp add: node1_config_def)
qed

text \<open>
  C31. A valid configuration written in the layout of the shipped files, with the password in an
  environment variable, is loaded as it was written: no field is lost, mixed up or changed.
\<close>

theorem config_text_roundtrip:
  assumes "config_ranges c" and "config_valid c" and "config_plain var c" and "env var = Some (cfg_requirepass c)"
  shows "Config_load env path (Some (file_text (config_text var c))) = Inr c"
  using assms by (rule config_text_loads)

theorem config_text_roundtrip_witness:
  "Config_load [''STRONGKV_PASSWORD'' \<mapsto> ''secret''] ''node1.yaml''
     (Some (file_text (config_text ''STRONGKV_PASSWORD'' node1_config))) = Inr node1_config"
  by (rule config_text_roundtrip [OF node1_config_ok]) (simp add: node1_config_def)

end
