(* ===== verification/File_State_Manager.thy ===== *)
theory File_State_Manager
  imports File_Util Config
begin

text \<open>
  The store of the cluster configuration and of the server's term and vote,
  \<^verbatim>\<open>src/src/storage/file_state_manager.{h,cpp}\<close>, over the files of \<open>File_Util\<close>. The classes
  \<^theory_text>\<open>nuraft::cluster_config\<close> and \<^theory_text>\<open>nuraft::srv_state\<close> belong to the consensus library:
  their values are parameters, with the constructor and the two serializations the code calls. What
  the code relies on, that deserializing a serialized object gives the object back, is the
  hypothesis \<open>meta_api_ok\<close>.

  The theorems: the vote survives failures and power loss; the first start writes the configured
  cluster and later starts load it.
\<close>

section \<open>Data\<close>

record srv_config =
  sc_id :: int
  sc_dc_id :: int
  sc_endpoint :: string
  sc_aux :: string
  sc_learner :: bool
  sc_priority :: int

record ('cc, 'ss) meta_api =
  new_cluster :: "srv_config list \<Rightarrow> 'cc"
  cc_serialize :: "'cc \<Rightarrow> bytes"
  cc_deserialize :: "bytes \<Rightarrow> exn + 'cc"
  ss_serialize :: "'ss \<Rightarrow> bytes"
  ss_deserialize :: "bytes \<Rightarrow> exn + 'ss"

definition meta_api_ok :: "('cc, 'ss) meta_api \<Rightarrow> bool" where
  "meta_api_ok api \<longleftrightarrow>
     (\<forall>c. cc_deserialize api (cc_serialize api c) = Inr c) \<and>
     (\<forall>s. ss_deserialize api (ss_serialize api s) = Inr s)"

definition kConfigMagic :: bytes where "kConfigMagic = string_bytes ''SKCF''"
definition kRaftStateMagic :: bytes where "kRaftStateMagic = string_bytes ''SKRS''"
definition kMaximumMetadataSize :: nat where "kMaximumMetadataSize = 16 * 1024 * 1024"

record 'ls FileStateManager =
  fsm_config :: Config
  fsm_log_store :: 'ls
  config_file :: path
  raft_state_file :: path
  fsm_fatal_error :: int

section \<open>Operations\<close>

definition new_FileStateManager :: "Config \<Rightarrow> 'ls option \<Rightarrow> exn + 'ls FileStateManager" where
  "new_FileStateManager c log_store =
     (case log_store of
        None \<Rightarrow> Inl (Invalid_argument ''FileStateManager requires log store'')
      | Some ls \<Rightarrow>
          Inr \<lparr>fsm_config = c, fsm_log_store = ls,
               config_file = path_join (cfg_raft_log_dir c) ''config.bin'',
               raft_state_file = path_join (cfg_raft_log_dir c) ''state.bin'', fsm_fatal_error = 0\<rparr>)"

definition server_of_node :: "ClusterNode \<Rightarrow> srv_config" where
  "server_of_node n = \<lparr>sc_id = cn_id n, sc_dc_id = 0, sc_endpoint = raft_endpoint n,
     sc_aux = client_endpoint n, sc_learner = False, sc_priority = 1\<rparr>"

definition initial_config :: "('cc, 'ss) meta_api \<Rightarrow> 'ls FileStateManager \<Rightarrow> 'cc" where
  "initial_config api m = new_cluster api (map server_of_node (cfg_cluster_nodes (fsm_config m)))"

definition load_config :: "('cc, 'ss) meta_api \<Rightarrow> 'ls FileStateManager \<Rightarrow> (world, 'cc) prog" where
  "load_config api m =
     bindP (file_exists (config_file m)) (\<lambda>present.
     if \<not> present then
       let created = initial_config api m in
       bindP (write_checked_record (config_file m) kConfigMagic (cc_serialize api created)) (\<lambda>_. retP created)
     else
       bindP (read_checked_record (config_file m) kConfigMagic kMaximumMetadataSize) (\<lambda>bs.
       liftP (cc_deserialize api bs)))"

definition save_config :: "('cc, 'ss) meta_api \<Rightarrow> 'cc \<Rightarrow> 'ls FileStateManager \<Rightarrow> (world, unit) prog" where
  "save_config api c m = write_checked_record (config_file m) kConfigMagic (cc_serialize api c)"

definition save_state :: "('cc, 'ss) meta_api \<Rightarrow> 'ss \<Rightarrow> 'ls FileStateManager \<Rightarrow> (world, unit) prog" where
  "save_state api s m = write_checked_record (raft_state_file m) kRaftStateMagic (ss_serialize api s)"

definition read_state :: "('cc, 'ss) meta_api \<Rightarrow> 'ls FileStateManager \<Rightarrow> (world, 'ss option) prog" where
  "read_state api m =
     bindP (file_exists (raft_state_file m)) (\<lambda>present.
     if \<not> present then retP None
     else
       bindP (read_checked_record (raft_state_file m) kRaftStateMagic kMaximumMetadataSize) (\<lambda>bs.
       bindP (liftP (ss_deserialize api bs)) (\<lambda>s. retP (Some s))))"

definition load_log_store :: "'ls FileStateManager \<Rightarrow> 'ls" where
  "load_log_store m = fsm_log_store m"

definition server_id :: "'ls FileStateManager \<Rightarrow> int" where
  "server_id m = cfg_node_id (fsm_config m)"

definition system_exit :: "int \<Rightarrow> 'ls FileStateManager \<Rightarrow> 'ls FileStateManager" where
  "system_exit exit_code m = m\<lparr>fsm_fatal_error := exit_code\<rparr>"

definition fatal_error :: "'ls FileStateManager \<Rightarrow> int" where
  "fatal_error m = fsm_fatal_error m"

section \<open>Recovery of the vote\<close>

lemma magic_lengths [simp]: "length kConfigMagic = 4" "length kRaftStateMagic = 4"
  by (simp_all add: kConfigMagic_def kRaftStateMagic_def)

lemma read_state_frame:
  assumes "script w = []" and "script w' = []" and "files w (raft_state_file m) = files w' (raft_state_file m)"
  shows "fst (read_state api m w) = fst (read_state api m w')"
proof -
  obtain x where x: "read_checked_record (raft_state_file m) kRaftStateMagic kMaximumMetadataSize w = (x, w)"
      "read_checked_record (raft_state_file m) kRaftStateMagic kMaximumMetadataSize w' = (x, w')"
    using read_checked_record_frame [OF assms] by blast
  show ?thesis
    using assms x
    by (cases x) (auto simp: read_state_def file_exists_def sys_call_def bindP_def liftP_def split: sum.splits)
qed

lemma read_state_image:
  assumes "script w = []" and "files w (raft_state_file m) = Some f"
    and "content f = record_image kRaftStateMagic (ss_serialize api s)"
    and "length (ss_serialize api s) \<le> kMaximumMetadataSize" and "meta_api_ok api"
  shows "read_state api m w = (Ret (Some s), w)"
proof -
  have "length (ss_serialize api s) < 2 ^ 32" using assms(4) by (simp add: kMaximumMetadataSize_def)
  then have "read_checked_record (raft_state_file m) kRaftStateMagic kMaximumMetadataSize w =
      (Ret (ss_serialize api s), w)"
    using assms by (intro read_checked_record_ok) simp_all
  then show ?thesis
    using assms by (simp add: read_state_def file_exists_def sys_call_def bindP_eq meta_api_ok_def)
qed

lemma load_config_image:
  assumes "script w = []" and "files w (config_file m) = Some f"
    and "content f = record_image kConfigMagic (cc_serialize api c)"
    and "length (cc_serialize api c) \<le> kMaximumMetadataSize" and "meta_api_ok api"
  shows "load_config api m w = (Ret c, w)"
proof -
  have "length (cc_serialize api c) < 2 ^ 32" using assms(4) by (simp add: kMaximumMetadataSize_def)
  then have "read_checked_record (config_file m) kConfigMagic kMaximumMetadataSize w =
      (Ret (cc_serialize api c), w)"
    using assms by (intro read_checked_record_ok) simp_all
  then show ?thesis
    using assms by (simp add: load_config_def file_exists_def sys_call_def bindP_eq meta_api_ok_def)
qed

lemma save_cases:
  "save_state api s m w = (r, w') \<Longrightarrow>
     replaced (raft_state_file m) (record_image kRaftStateMagic (ss_serialize api s)) w r w'"
  "save_config api c m w = (r, w') \<Longrightarrow>
     replaced (config_file m) (record_image kConfigMagic (cc_serialize api c)) w r w'"
  using write_checked_record_cases(1) [of "raft_state_file m" kRaftStateMagic "ss_serialize api s" w r w']
    write_checked_record_cases(1) [of "config_file m" kConfigMagic "cc_serialize api c" w r w']
  by (simp_all add: save_state_def save_config_def)

text \<open>The term and vote as a durable value.\<close>

interpretation vote: durable_value "\<lambda>s. save_state api s m" "read_state api m" "raft_state_file m"
    "\<lambda>s. record_image kRaftStateMagic (ss_serialize api s)" Some
    "\<lambda>s. meta_api_ok api \<and> length (ss_serialize api s) \<le> kMaximumMetadataSize" for api m
  by unfold_locales (erule save_cases(1), (rule read_state_image; simp), (rule read_state_frame; assumption))

text \<open>The cluster configuration is kept the same way; a first start writes the initial one.\<close>

lemma load_config_frame:
  assumes "script w = []" and "script w' = []" and "files w (config_file m) = files w' (config_file m)"
  shows "fst (load_config api m w) = fst (load_config api m w')"
proof -
  obtain x where x: "read_checked_record (config_file m) kConfigMagic kMaximumMetadataSize w = (x, w)"
      "read_checked_record (config_file m) kConfigMagic kMaximumMetadataSize w' = (x, w')"
    using read_checked_record_frame [OF assms] by blast
  show ?thesis
    using assms x
    by (cases x) (auto simp: load_config_def file_exists_def sys_call_def bindP_def liftP_def Let_def
        write_checked_record_def atomic_write_file_ok split: sum.splits)
qed

interpretation cluster: durable_value "\<lambda>c. save_config api c m" "load_config api m" "config_file m"
    "\<lambda>c. record_image kConfigMagic (cc_serialize api c)" id
    "\<lambda>c. meta_api_ok api \<and> length (cc_serialize api c) \<le> kMaximumMetadataSize" for api m
  by unfold_locales (erule save_cases(2), (simp only: id_apply, rule load_config_image; simp), (rule load_config_frame; assumption))

text \<open>
  A committed cluster configuration survives a power loss at any point of its save, like the vote.
\<close>

theorem cluster_config_survives_power_loss:
  assumes "save_config api c m w = (r, w')" and "meta_api_ok api"
    and "length (cc_serialize api c) \<le> kMaximumMetadataSize"
  shows "(\<exists>kept'. fst (load_config api m (power_loss kept w')) = fst (load_config api m (power_loss kept' w))) \<and> r \<noteq> Ret () \<or>
    fst (load_config api m (power_loss kept w')) = Ret c"
  using cluster.survives_power_loss [of api c m w r w' kept] assms by simp

section \<open>Properties\<close>

text \<open>
  C29. The term and vote survive: whatever happens to the system calls of \<open>save_state\<close> and whatever a
  power loss removes, the restarted server reads either what it could have read had the power failed
  before the save, and then the save had not returned, or exactly the state that was being saved. Once
  the save has returned, which is after the sync of the directory, only the second is possible, so a
  server never forgets a vote it has acknowledged.
\<close>

theorem vote_survives_power_loss:
  assumes "save_state api s m w = (r, w')" and "meta_api_ok api"
    and "length (ss_serialize api s) \<le> kMaximumMetadataSize"
  shows "(\<exists>kept'. fst (read_state api m (power_loss kept w')) = fst (read_state api m (power_loss kept' w))) \<and> r \<noteq> Ret () \<or>
    fst (read_state api m (power_loss kept w')) = Ret (Some s)"
  using vote.survives_power_loss [of api s m w r w' kept] assms by simp

text \<open>An instance of the parameter for the witnesses: a cluster is the list of its ids.\<close>

definition plain_meta :: "(bytes, u8) meta_api" where
  "plain_meta = \<lparr>new_cluster = map (\<lambda>s. of_int (sc_id s)), cc_serialize = id, cc_deserialize = Inr,
     ss_serialize = (\<lambda>s. [s]), ss_deserialize = (\<lambda>bs. Inr (hd bs))\<rparr>"

lemma plain_meta_ok: "meta_api_ok plain_meta"
  by (simp add: plain_meta_def meta_api_ok_def)

definition example_manager :: "unit FileStateManager" where
  "example_manager = \<lparr>fsm_config = node1_config, fsm_log_store = (), config_file = ''config.bin'',
     raft_state_file = ''state.bin'', fsm_fatal_error = 0\<rparr>"

text \<open>Witness: the vote 7 is replaced by 9, the process dies while it writes the temporary file.\<close>

definition vote_world :: world where
  "vote_world = \<lparr>files = [''state.bin'' \<mapsto> \<lparr>content = record_image kRaftStateMagic [7],
     synced = length (record_image kRaftStateMagic [7])\<rparr>], older = (\<lambda>_. []), script = [Ok, Ok, Die 3]\<rparr>"

lemma vote_world_reads: "fst (read_state plain_meta example_manager (power_loss kept vote_world)) = Ret (Some 7)"
proof -
  have "files (power_loss kept vote_world) (raft_state_file example_manager) =
      Some \<lparr>content = record_image kRaftStateMagic [7], synced = length (record_image kRaftStateMagic [7])\<rparr>"
    using power_loss_synced [of vote_world "''state.bin''"
        "\<lparr>content = record_image kRaftStateMagic [7], synced = length (record_image kRaftStateMagic [7])\<rparr>"]
    by (simp add: vote_world_def example_manager_def)
  moreover have "ss_serialize plain_meta 7 = [7]" by (simp add: plain_meta_def)
  ultimately show ?thesis
    using read_state_image [of "power_loss kept vote_world" example_manager _ plain_meta 7] plain_meta_ok
    by (simp add: kMaximumMetadataSize_def)
qed

theorem vote_survives_power_loss_witness:
  "\<exists>r w'. save_state plain_meta 9 example_manager vote_world = (r, w') \<and>
     fst (read_state plain_meta example_manager (power_loss (\<lambda>_. (5, 1)) w')) \<in> {Ret (Some 7), Ret (Some 9)}"
proof -
  obtain r w' where w: "save_state plain_meta 9 example_manager vote_world = (r, w')" by fastforce
  then show ?thesis
    using vote_survives_power_loss [OF w plain_meta_ok, of "\<lambda>_. (5, 1)"] vote_world_reads
    by (auto simp: plain_meta_def kMaximumMetadataSize_def)
qed

text \<open>
  The first start of a node writes the configured cluster, one voting server per configured node
  with its id and endpoints, and once it has returned, every later start loads the same cluster, also
  after a power loss.
\<close>

theorem first_start_config_is_kept:
  assumes "load_config api m w = (Ret c, w')" and "files w (config_file m) = None" and "meta_api_ok api"
    and "length (cc_serialize api (initial_config api m)) \<le> kMaximumMetadataSize"
  shows "c = new_cluster api (map server_of_node (cfg_cluster_nodes (fsm_config m))) \<and>
    fst (load_config api m (power_loss kept w')) = Ret c"
proof -
  obtain w1 where c: "c = initial_config api m" and
      w: "write_checked_record (config_file m) kConfigMagic (cc_serialize api c) w1 = (Ret (), w')"
    using assms(1,2)
    by (auto simp: load_config_def file_exists_def sys_call_def bindP_Ret_iff Let_def getP_def retP_def
        split: prod.splits call_result.splits if_splits dest: pop_eq_files)
  let ?img = "record_image kConfigMagic (cc_serialize api c)"
  have "files w' (config_file m) = Some \<lparr>content = ?img, synced = length ?img\<rparr>" "older w' (config_file m) = []"
    using write_checked_record_Ret [OF w] by simp_all
  then have "files (power_loss kept w') (config_file m) = Some \<lparr>content = ?img, synced = length ?img\<rparr>"
    by (simp add: power_loss_synced)
  then show ?thesis
    using load_config_image [of "power_loss kept w'" m _ api c] assms(3,4) c by (simp add: initial_config_def)
qed

lemma first_start_ok:
  "\<exists>w'. load_config plain_meta example_manager empty_world = (Ret [1, 2, 3], w')"
proof -
  have i: "initial_config plain_meta example_manager = [1, 2, 3]"
    by (simp add: initial_config_def plain_meta_def example_manager_def server_of_node_def node1_config_def)
  have "\<exists>w'. write_checked_record (config_file example_manager) kConfigMagic [1, 2, 3] empty_world = (Ret (), w')"
    using checked_record_bytes_iff [of kConfigMagic "[1, 2, 3]" "record_image kConfigMagic [1, 2, 3]"]
    by (simp add: write_checked_record_def bindP_def atomic_write_file_ok empty_world_def)
  then obtain w' where "write_checked_record (config_file example_manager) kConfigMagic [1, 2, 3] empty_world = (Ret (), w')" ..
  moreover have "cc_serialize plain_meta = id" by (simp add: plain_meta_def)
  ultimately have "load_config plain_meta example_manager empty_world = (Ret [1, 2, 3], w')"
    by (simp add: load_config_def file_exists_def sys_call_def bindP_def empty_world_def)
      (simp add: i Let_def bindP_def)
  then show ?thesis ..
qed

theorem first_start_config_is_kept_witness:
  "\<exists>w'. load_config plain_meta example_manager empty_world = (Ret [1, 2, 3], w') \<and>
     fst (load_config plain_meta example_manager (power_loss (\<lambda>_. (0, 1)) w')) = Ret [1, 2, 3]"
proof -
  obtain w' where w: "load_config plain_meta example_manager empty_world = (Ret [1, 2, 3], w')"
    using first_start_ok by blast
  then show ?thesis
    using first_start_config_is_kept [OF w _ plain_meta_ok, of "\<lambda>_. (0, 1)"]
    by (simp add: empty_world_def plain_meta_def initial_config_def example_manager_def node1_config_def
        kMaximumMetadataSize_def)
qed

end
