(* ===== verification/Raft_Node.thy ===== *)
theory Raft_Node
  imports Kv_State_Machine File_State_Manager "HOL-Library.State_Monad"
begin

text \<open>
  The node, \<^verbatim>\<open>src/src/raft/raft_node.{h,cpp}\<close>: proposing commands in batches, reading under a leader
  lease or behind a committed barrier, and the status reports. The consensus library is a
  parameter: an \<open>instant\<close> holds the answers of \<^theory_text>\<open>nuraft::raft_server\<close> at the time of one call and
  what the library did to the state machine since the call before, and a node runs against the
  sequence of the instants of its coming calls. So the answers may change between any two calls, and
  entries may be committed between any two calls. The interleaving of client threads and the two
  worker threads is in \<open>Raft_Workers\<close>. Log lines are not modelled.

  The theorems: every proposal of a batch receives the result its own command had when it was
  applied; every proposal is answered; while a read is served under the lease, no majority exists that
  could elect another leader. Reads behind a barrier are in \<open>Barrier_Reads\<close>.
\<close>

section \<open>Data\<close>

datatype RaftRequestStatus = kStatusOk | kNotLeader | kTimeout | kUnavailable | kRejected

record RaftCommandResult =
  rcr_status :: RaftRequestStatus
  rcr_result :: ApplyResult
  rcr_detail :: string

record LinearizableGetResult =
  lgr_status :: RaftRequestStatus
  lgr_value :: "string option"
  lgr_detail :: string

definition default_command_result :: RaftCommandResult where
  "default_command_result = \<lparr>rcr_status = kUnavailable, rcr_result = ApplyResult_ok, rcr_detail = ''''\<rparr>"

definition default_get_result :: LinearizableGetResult where
  "default_get_result = \<lparr>lgr_status = kUnavailable, lgr_value = None, lgr_detail = ''''\<rparr>"

definition unavailable_result :: "string \<Rightarrow> RaftCommandResult" where
  "unavailable_result detail = default_command_result\<lparr>rcr_detail := detail\<rparr>"

text \<open>The result codes of the library that the code names; it treats all others alike.\<close>

datatype cmd_result_code =
  OK | NOT_LEADER | TERM_MISMATCH | TIMEOUT | CANCELLED | RESULT_NOT_EXIST_YET | FAILED | Other_code int

definition map_status :: "cmd_result_code \<Rightarrow> RaftRequestStatus" where
  "map_status code =
     (case code of
        OK \<Rightarrow> kStatusOk
      | NOT_LEADER \<Rightarrow> kNotLeader | TERM_MISMATCH \<Rightarrow> kNotLeader
      | TIMEOUT \<Rightarrow> kTimeout
      | CANCELLED \<Rightarrow> kUnavailable | RESULT_NOT_EXIST_YET \<Rightarrow> kUnavailable | FAILED \<Rightarrow> kUnavailable
      | Other_code _ \<Rightarrow> kRejected)"

definition raft_request_status_name :: "RaftRequestStatus \<Rightarrow> string" where
  "raft_request_status_name s =
     (case s of kStatusOk \<Rightarrow> ''OK'' | kNotLeader \<Rightarrow> ''NOT_LEADER'' | kTimeout \<Rightarrow> ''TIMEOUT''
      | kUnavailable \<Rightarrow> ''UNAVAILABLE'' | kRejected \<Rightarrow> ''REJECTED'')"

section \<open>The consensus library\<close>

record peer_info =
  pi_id :: int
  pi_last_succ_resp_us :: u64

text \<open>
  The reply of \<^theory_text>\<open>append_entries_ext\<close>: \<open>ar_committed\<close> says whether \<^theory_text>\<open>get()\<close> is not null,
  \<open>ar_log_indexes\<close> are the indexes the call passed to \<^theory_text>\<open>after_precommit_\<close>.
\<close>

record append_reply =
  ar_accepted :: bool
  ar_code :: cmd_result_code
  ar_str :: string
  ar_committed :: bool
  ar_log_indexes :: "u64 list"

record 'snap instant =
  is_initialized :: bool
  srv_is_leader :: bool
  get_term :: u64
  get_leader :: int
  get_committed_log_idx :: u64
  get_last_log_idx :: u64
  get_last_snapshot_idx :: u64
  get_log_idx_at_becoming_leader :: u64
  get_srv_config_all :: "srv_config option list"
  get_srv_config :: "int \<Rightarrow> srv_config option"
  get_peer_info_all :: "peer_info list"
  append_entries_ext :: "buffer list \<Rightarrow> u64 \<Rightarrow> append_reply option"
  meanwhile :: "'snap KvStateMachine \<Rightarrow> 'snap KvStateMachine"

record 'snap RaftNode =
  rn_config :: Config
  rn_state_machine :: "'snap KvStateMachine option"
  rn_server :: bool
  rn_running :: bool
  rn_proposal_batches :: u64
  rn_proposal_entries :: u64
  rn_read_batches :: u64
  rn_read_requests :: u64
  rn_lease_reads :: u64

type_synonym 'snap calls = "nat \<Rightarrow> 'snap instant"
type_synonym ('snap, 'a) node_prog = "('snap RaftNode \<times> 'snap calls, 'a) state"

text \<open>One call: the machine has moved on, then the answer is taken.\<close>

definition ask :: "('snap instant \<Rightarrow> 'a) \<Rightarrow> ('snap, 'a) node_prog" where
  "ask f = State (\<lambda>(n, v).
     (f (v 0), (n\<lparr>rn_state_machine := map_option (meanwhile (v 0)) (rn_state_machine n)\<rparr>, \<lambda>k. v (Suc k))))"

text \<open>A call of an operation of the state machine, whose pointer the caller has checked.\<close>

definition on_machine :: "('snap KvStateMachine \<Rightarrow> 'a \<times> 'snap KvStateMachine) \<Rightarrow> ('snap, 'a option) node_prog" where
  "on_machine f = State (\<lambda>(n, v).
     case rn_state_machine n of
       None \<Rightarrow> (None, (n, v))
     | Some m \<Rightarrow>
         (let (x, m') = f (meanwhile (v 0) m)
          in (Some x, (n\<lparr>rn_state_machine := Some m'\<rparr>, \<lambda>k. v (Suc k)))))"

definition node_get :: "('snap RaftNode \<Rightarrow> 'a) \<Rightarrow> ('snap, 'a) node_prog" where
  "node_get f = State (\<lambda>(n, v). (f n, (n, v)))"

definition node_modify :: "('snap RaftNode \<Rightarrow> 'snap RaftNode) \<Rightarrow> ('snap, unit) node_prog" where
  "node_modify f = State (\<lambda>(n, v). ((), (f n, v)))"

text \<open>A condition evaluated left to right that stops at the first false conjunct.\<close>

definition and_then :: "('snap, bool) node_prog \<Rightarrow> ('snap, bool) node_prog \<Rightarrow> ('snap, bool) node_prog" where
  "and_then a b = do { x \<leftarrow> a; if x then b else State_Monad.return False }"

section \<open>Proposals\<close>

definition kMaximumProposalBatch :: nat where "kMaximumProposalBatch = 128"
definition kMaximumReadBatch :: nat where "kMaximumReadBatch = 4096"

text \<open>\<^theory_text>\<open>running_ && server && server->is_initialized()\<close>.\<close>

definition node_ready :: "('snap, bool) node_prog" where
  "node_ready = and_then (node_get (\<lambda>n. rn_running n \<and> rn_server n)) (ask is_initialized)"

text \<open>The part of \<^theory_text>\<open>submit\<close> before the queue: \<open>None\<close> when the command goes to the queue.\<close>

definition submit_checks :: "('snap, RaftCommandResult option) node_prog" where
  "submit_checks = do {
     ready \<leftarrow> node_ready;
     if \<not> ready then State_Monad.return (Some (unavailable_result ''Raft node is not ready''))
     else do {
       leader \<leftarrow> ask srv_is_leader;
       State_Monad.return
         (if \<not> leader
          then Some (default_command_result\<lparr>rcr_status := kNotLeader, rcr_detail := ''this node is not leader''\<rparr>)
          else None) } }"

fun encode_batch :: "Command list \<Rightarrow> exn + buffer list" where
  "encode_batch [] = Inr []"
| "encode_batch (c # cs) =
     bindE (encode_command c) (\<lambda>b. bindE (encode_batch cs) (\<lambda>bs. Inr (b # bs)))"

text \<open>The last loop: each proposal takes the result cached for its log index.\<close>

primrec take_results :: "u64 list \<Rightarrow> ('snap, RaftCommandResult list) node_prog" where
  "take_results [] = State_Monad.return []"
| "take_results (i # is) = do {
     applied \<leftarrow> on_machine (take_result i);
     rest \<leftarrow> take_results is;
     State_Monad.return
       ((case applied of
           Some (Some r) \<Rightarrow> default_command_result\<lparr>rcr_status := kStatusOk, rcr_result := r\<rparr>
         | _ \<Rightarrow> unavailable_result (''state-machine result cache missed committed index '' @ to_string_nat (unat i)))
        # rest) }"

text \<open>What the worker does with a reply: fail the whole batch, or collect the results.\<close>

definition batch_failure :: "nat \<Rightarrow> append_reply option \<Rightarrow> RaftCommandResult option" where
  "batch_failure batch_size reply =
     (case reply of
        None \<Rightarrow> Some (unavailable_result ''NuRaft returned no command result'')
      | Some r \<Rightarrow>
          if \<not> ar_accepted r then
            Some (default_command_result\<lparr>rcr_status := map_status (ar_code r), rcr_detail := ar_str r\<rparr>)
          else if ar_code r \<noteq> OK \<or> \<not> ar_committed r then
            Some (default_command_result\<lparr>rcr_status := map_status (ar_code r),
              rcr_detail := (if ar_str r = [] \<and> \<not> ar_committed r
                then ''committed batch has no state-machine result'' else ar_str r)\<rparr>)
          else if length (ar_log_indexes r) \<noteq> batch_size then
            Some (unavailable_result ''NuRaft returned incomplete batch indexes'')
          else None)"

text \<open>The results set on the promises of the batch, in order.\<close>

definition process_proposal_batch :: "Command list \<Rightarrow> ('snap, RaftCommandResult list) node_prog" where
  "process_proposal_batch batch =
     (let fail_all = (\<lambda>failure. State_Monad.return (replicate (length batch) failure)) in
      if batch = [] then State_Monad.return []
      else do {
        node_modify (\<lambda>n. n\<lparr>rn_proposal_batches := rn_proposal_batches n + 1,
          rn_proposal_entries := rn_proposal_entries n + of_nat (length batch)\<rparr>);
        ready \<leftarrow> and_then (node_get (\<lambda>n. rn_server n \<and> rn_state_machine n \<noteq> None)) (ask is_initialized);
        if \<not> ready then fail_all (unavailable_result ''Raft node is not ready'')
        else do {
          leader \<leftarrow> ask srv_is_leader;
          if \<not> leader then
            fail_all (default_command_result\<lparr>rcr_status := kNotLeader, rcr_detail := ''this node is not leader''\<rparr>)
          else
            case encode_batch batch of
              Inl e \<Rightarrow>
                fail_all (default_command_result\<lparr>rcr_status := kRejected,
                  rcr_detail := ''command encoding failed: '' @ what e\<rparr>)
            | Inr logs \<Rightarrow> do {
                expected_term \<leftarrow> ask get_term;
                reply \<leftarrow> ask (\<lambda>i. append_entries_ext i logs expected_term);
                case batch_failure (length batch) reply of
                  Some failure \<Rightarrow> fail_all failure
                | None \<Rightarrow> take_results (ar_log_indexes (the reply)) } } })"

section \<open>Reads\<close>

definition freshness_us :: "Config \<Rightarrow> u64" where
  "freshness_us c = of_int (max 1 (cfg_election_timeout_lower_ms c - cfg_heartbeat_ms c)) * 1000"

text \<open>The first loop: all voters, and whether this node is one of them.\<close>

definition is_voter :: "srv_config option \<Rightarrow> bool" where
  "is_voter s = (case s of None \<Rightarrow> False | Some c \<Rightarrow> \<not> sc_learner c)"

primrec count_voters :: "int \<Rightarrow> srv_config option list \<Rightarrow> nat \<times> nat \<Rightarrow> nat \<times> nat" where
  "count_voters self [] acc = acc"
| "count_voters self (s # ss) acc =
     count_voters self ss
       (if is_voter s
        then (fst acc + 1, if sc_id (the s) = self then snd acc + 1 else snd acc) else acc)"

text \<open>The second loop: voters that answered recently.\<close>

primrec count_fresh :: "u64 \<Rightarrow> peer_info list \<Rightarrow> nat \<Rightarrow> ('snap, nat) node_prog" where
  "count_fresh limit [] fresh = State_Monad.return fresh"
| "count_fresh limit (p # ps) fresh = do {
     peer_config \<leftarrow> ask (\<lambda>i. get_srv_config i (pi_id p));
     count_fresh limit ps
       (if is_voter peer_config \<and> pi_last_succ_resp_us p \<le> limit then fresh + 1 else fresh) }"

text \<open>The index of the last applied entry, 0 without a machine.\<close>

definition applied_index :: "('snap, u64) node_prog" where
  "applied_index = do {
     i \<leftarrow> on_machine (\<lambda>m. (last_commit_index m, m));
     State_Monad.return (case i of None \<Rightarrow> 0 | Some x \<Rightarrow> x) }"

definition lease_quorum :: "('snap, bool) node_prog" where
  "lease_quorum = do {
     c \<leftarrow> node_get rn_config;
     configs \<leftarrow> ask get_srv_config_all;
     let (voters, fresh) = count_voters (cfg_node_id c) configs (0, 0);
     if voters = 0 then State_Monad.return False
     else do {
       peers \<leftarrow> ask get_peer_info_all;
       fresh \<leftarrow> count_fresh (freshness_us c) peers fresh;
       State_Monad.return (fresh \<ge> voters div 2 + 1) } }"

definition has_valid_read_lease :: "u64 \<Rightarrow> ('snap, bool) node_prog" where
  "has_valid_read_lease expected_term =
     and_then (node_get (\<lambda>n. rn_state_machine n \<noteq> None))
     (and_then (ask srv_is_leader)
     (and_then (ask (\<lambda>i. get_term i = expected_term))
     (do {
        leader_start_index \<leftarrow> ask get_log_idx_at_becoming_leader;
        and_then (State_Monad.return (leader_start_index \<noteq> 0))
        (and_then (ask (\<lambda>i. \<not> get_committed_log_idx i < leader_start_index))
        (and_then (do { a \<leftarrow> applied_index; State_Monad.return (\<not> a < leader_start_index) })
        (and_then lease_quorum
        (and_then (ask srv_is_leader) (ask (\<lambda>i. get_term i = expected_term)))))) })))"

text \<open>
  The part of \<^theory_text>\<open>linearizable_get\<close> before the queue: a result, or \<open>None\<close> when the key goes to the
  queue of the read worker.
\<close>

definition lease_read :: "string \<Rightarrow> u64 \<Rightarrow> ('snap, LinearizableGetResult option) node_prog" where
  "lease_read key term = do {
     valid \<leftarrow> has_valid_read_lease term;
     if \<not> valid then State_Monad.return None
     else do {
       found \<leftarrow> on_machine (\<lambda>m. (kv_get key m, m));
       still_valid \<leftarrow> has_valid_read_lease term;
       if \<not> still_valid then State_Monad.return None
       else do {
         node_modify (\<lambda>n. n\<lparr>rn_lease_reads := rn_lease_reads n + 1\<rparr>);
         State_Monad.return (Some (default_get_result\<lparr>lgr_status := kStatusOk,
           lgr_value := (case found of None \<Rightarrow> None | Some x \<Rightarrow> x)\<rparr>)) } } }"

definition get_checks :: "string \<Rightarrow> ('snap, LinearizableGetResult option) node_prog" where
  "get_checks key = do {
     ready \<leftarrow> node_ready;
     if \<not> ready then State_Monad.return (Some (default_get_result\<lparr>lgr_detail := ''Raft node is not ready''\<rparr>))
     else do {
       leader \<leftarrow> ask srv_is_leader;
       if \<not> leader then
         State_Monad.return (Some (default_get_result\<lparr>lgr_status := kNotLeader, lgr_detail := ''this node is not leader''\<rparr>))
       else do {
         term \<leftarrow> ask get_term;
         lease \<leftarrow> node_get (\<lambda>n. cfg_enable_lease_reads (rn_config n) \<and> rn_state_machine n \<noteq> None);
         if lease then lease_read key term else State_Monad.return None } } }"

text \<open>What the read worker sets on the promises of a batch once its barrier has a result.\<close>

definition count_read_batch :: "nat \<Rightarrow> ('snap, unit) node_prog" where
  "count_read_batch batch_size = node_modify (\<lambda>n. n\<lparr>rn_read_batches := rn_read_batches n + 1,
     rn_read_requests := rn_read_requests n + of_nat batch_size\<rparr>)"

definition finish_reads :: "RaftCommandResult \<Rightarrow> string list \<Rightarrow> ('snap, LinearizableGetResult list) node_prog" where
  "finish_reads barrier_result keys =
     (if rcr_status barrier_result \<noteq> kStatusOk then
        State_Monad.return (replicate (length keys)
          (default_get_result\<lparr>lgr_status := rcr_status barrier_result, lgr_detail := rcr_detail barrier_result\<rparr>))
      else do {
        found \<leftarrow> on_machine (\<lambda>m. (get_many keys m, m));
        State_Monad.return
          (case found of
             None \<Rightarrow> replicate (length keys) (default_get_result\<lparr>lgr_detail := ''state machine is unavailable''\<rparr>)
           | Some vs \<Rightarrow> map (\<lambda>x. default_get_result\<lparr>lgr_status := kStatusOk, lgr_value := x\<rparr>) vs) })"

section \<open>Status\<close>

definition rn_is_leader :: "('snap, bool) node_prog" where
  "rn_is_leader = and_then (node_get (\<lambda>n. rn_running n \<and> rn_server n)) (ask srv_is_leader)"

definition leader_id :: "('snap, int) node_prog" where
  "leader_id = do {
     server \<leftarrow> node_get rn_server;
     if server then ask get_leader else State_Monad.return (- 1) }"

definition leader_client_endpoint :: "('snap, string option) node_prog" where
  "leader_client_endpoint = do {
     i \<leftarrow> leader_id;
     c \<leftarrow> node_get rn_config;
     State_Monad.return
       (if i < 0 then None
        else case find_node i c of None \<Rightarrow> None | Some n \<Rightarrow> Some (client_endpoint n)) }"

record RaftNodeInfo =
  inf_node_id :: int
  inf_initialized :: bool
  inf_leader :: bool
  inf_leader_id :: int
  inf_term :: u64
  inf_commit_index :: u64
  inf_last_log_index :: u64
  inf_last_applied :: u64
  inf_snapshot_index :: u64
  inf_cluster_size :: nat
  inf_proposal_batches :: u64
  inf_proposal_entries :: u64
  inf_read_batches :: u64
  inf_read_requests :: u64
  inf_lease_reads :: u64

definition default_info :: RaftNodeInfo where
  "default_info = \<lparr>inf_node_id = 0, inf_initialized = False, inf_leader = False, inf_leader_id = - 1,
     inf_term = 0, inf_commit_index = 0, inf_last_log_index = 0, inf_last_applied = 0,
     inf_snapshot_index = 0, inf_cluster_size = 0, inf_proposal_batches = 0, inf_proposal_entries = 0,
     inf_read_batches = 0, inf_read_requests = 0, inf_lease_reads = 0\<rparr>"

definition raft_info :: "('snap, RaftNodeInfo) node_prog" where
  "raft_info = do {
     node \<leftarrow> node_get (\<lambda>n. cfg_node_id (rn_config n));
     server \<leftarrow> node_get rn_server;
     if \<not> server then State_Monad.return (default_info\<lparr>inf_node_id := node\<rparr>)
     else do {
       initialized \<leftarrow> ask is_initialized;
       leader \<leftarrow> ask srv_is_leader;
       leader_id \<leftarrow> ask get_leader;
       term \<leftarrow> ask get_term;
       commit_index \<leftarrow> ask get_committed_log_idx;
       last_log_index \<leftarrow> ask get_last_log_idx;
       applied \<leftarrow> applied_index;
       snapshot_index \<leftarrow> ask get_last_snapshot_idx;
       servers \<leftarrow> ask get_srv_config_all;
       n \<leftarrow> node_get id;
       State_Monad.return \<lparr>inf_node_id = node, inf_initialized = initialized, inf_leader = leader,
         inf_leader_id = leader_id, inf_term = term, inf_commit_index = commit_index,
         inf_last_log_index = last_log_index, inf_last_applied = applied,
         inf_snapshot_index = snapshot_index, inf_cluster_size = length servers,
         inf_proposal_batches = rn_proposal_batches n, inf_proposal_entries = rn_proposal_entries n,
         inf_read_batches = rn_read_batches n, inf_read_requests = rn_read_requests n,
         inf_lease_reads = rn_lease_reads n\<rparr> } }"

definition fatal_storage_error :: "'ls FileStateManager option \<Rightarrow> int" where
  "fatal_storage_error state_manager = (case state_manager of None \<Rightarrow> 0 | Some m \<Rightarrow> fatal_error m)"

section \<open>The barrier\<close>

definition default_command :: Command where
  "default_command = \<lparr>version = 1, cmd_type = kSet, cmd_key = '''', cmd_value = '''', client_id = 0, request_id = 0\<rparr>"

definition read_barrier :: Command where
  "read_barrier = default_command\<lparr>cmd_type := kReadBarrier\<rparr>"

section \<open>Running programs\<close>

lemma run_ask [simp]:
  "run_state (ask f) (n, v) =
     (f (v 0), (n\<lparr>rn_state_machine := map_option (meanwhile (v 0)) (rn_state_machine n)\<rparr>, \<lambda>k. v (Suc k)))"
  by (simp add: ask_def)

lemma run_node [simp]:
  "run_state (node_get g) (n, v) = (g n, (n, v))" "run_state (node_modify h) (n, v) = ((), (h n, v))"
  by (simp_all add: node_get_def node_modify_def)

lemma run_and_then:
  "run_state (and_then a b) s = (let (x, s') = run_state a s in if x then run_state b s' else (False, s'))"
  by (simp add: and_then_def split: prod.split)

lemma run_on_machine [simp]:
  "rn_state_machine n = Some m \<Longrightarrow>
     run_state (on_machine f) (n, v) =
       (let (x, m') = f (meanwhile (v 0) m) in (Some x, (n\<lparr>rn_state_machine := Some m'\<rparr>, \<lambda>k. v (Suc k))))"
  "rn_state_machine n = None \<Longrightarrow> run_state (on_machine f) (n, v) = (None, (n, v))"
  by (simp_all add: on_machine_def)

section \<open>Every proposal is answered\<close>

lemma length_take_results [simp]: "length (fst (run_state (take_results is) s)) = length is"
  by (induction "is" arbitrary: s) (simp_all split: prod.split, metis fst_conv)

lemma length_process_proposal_batch:
  "length (fst (run_state (process_proposal_batch batch) s)) = length batch"
proof -
  have "length (ar_log_indexes (the reply)) = length batch" if "batch_failure (length batch) reply = None" for reply
    using that by (auto simp: batch_failure_def split: option.splits if_splits)
  then show ?thesis
    by (cases s) (simp add: process_proposal_batch_def run_and_then Let_def
        split: prod.split sum.split option.split)
qed

section \<open>Results wait for their proposals\<close>

text \<open>A result that fewer than \<open>n\<close> newer ones follow in the cache.\<close>

definition cached_behind :: "u64 \<Rightarrow> ApplyResult \<Rightarrow> nat \<Rightarrow> 'snap KvStateMachine \<Rightarrow> bool" where
  "cached_behind j res n m \<longleftrightarrow> (\<exists>ys xs. recent_results m = ys @ (j, res) # xs \<and> length xs \<le> n)"

definition newer :: "'snap KvStateMachine \<Rightarrow> (u64 \<times> buffer) list \<Rightarrow> bool" where
  "newer m es \<longleftrightarrow> sorted_wrt (<) (map fst es) \<and> (\<forall>i\<in>fst ` set es. \<forall>k\<in>fst ` set (recent_results m). k < i)"

lemma newer_Cons:
  assumes "newer m ((i, d) # es)"
  shows "newer (snd (commit i d m)) es" and "\<forall>k\<in>fst ` set (recent_results m). k < i"
proof -
  show k: "\<forall>k\<in>fst ` set (recent_results m). k < i" using assms by (simp add: newer_def)
  have "fst ` set (recent_results (snd (commit i d m))) \<subseteq> insert i (fst ` set (recent_results m))"
    by (auto simp: commit_appends [OF k] dest!: in_set_dropD)
  then show "newer (snd (commit i d m)) es"
    using assms by (fastforce simp: newer_def image_iff)
qed

lemma newer_append: "newer m (es @ fs) \<Longrightarrow> newer m es \<and> newer (commit_all es m) fs"
proof (induction es arbitrary: m)
  case (Cons e es)
  obtain i d where e: "e = (i, d)" by fastforce
  have "newer m (e # es)" using Cons.prems by (auto simp: newer_def sorted_wrt_append)
  moreover have "newer (commit_all es (snd (commit i d m))) fs"
    using Cons.IH [of "snd (commit i d m)"] newer_Cons(1) [of m i d "es @ fs"] Cons.prems e by simp
  ultimately show ?case by (simp add: e)
qed (simp add: newer_def)

lemma cached_behind_commit:
  assumes "cached_behind j res n m" and "Suc n < kMaximumCachedResults" and "\<forall>k\<in>fst ` set (recent_results m). k < i"
  shows "cached_behind j res (Suc n) (snd (commit i d m))"
proof -
  obtain ys xs where r: "recent_results m = ys @ (j, res) # xs" "length xs \<le> n"
    using assms(1) by (auto simp: cached_behind_def)
  let ?n = "Suc (length (recent_results m)) - kMaximumCachedResults"
  have "?n \<le> length ys" using r assms(2) by simp
  then have "recent_results (snd (commit i d m)) = drop ?n ys @ (j, res) # (xs @ [(i, fst (commit_outcome d m))])"
    by (simp add: commit_appends [OF assms(3)] r(1))
  then show ?thesis using r(2) by (force simp: cached_behind_def)
qed

lemma cached_behind_commit_all:
  "cached_behind j res n m \<Longrightarrow> n + length es < kMaximumCachedResults \<Longrightarrow> newer m es \<Longrightarrow>
     cached_behind j res (n + length es) (commit_all es m)"
proof (induction es arbitrary: n m)
  case (Cons e es)
  obtain i d where e: "e = (i, d)" by fastforce
  have "cached_behind j res (Suc n) (snd (commit i d m))"
    using Cons.prems e newer_Cons(2) [of m i d es] by (intro cached_behind_commit) simp_all
  then show ?case
    using Cons.IH [of "Suc n" "snd (commit i d m)"] Cons.prems newer_Cons(1) [of m i d es] e by simp
qed simp

text \<open>The results of a sequence of commits, each with its index.\<close>

primrec outcomes :: "(u64 \<times> buffer) list \<Rightarrow> 'snap KvStateMachine \<Rightarrow> (u64 \<times> ApplyResult) list" where
  "outcomes [] m = []"
| "outcomes (e # es) m =
     (fst e, fst (commit_outcome (snd e) m)) # outcomes es (snd (commit (fst e) (snd e) m))"

lemma outcomes_cached:
  assumes "(j, res) \<in> set (outcomes es m)" and "newer m es" and "length es \<le> kMaximumCachedResults"
  shows "cached_behind j res (length es - 1) (commit_all es m)"
  using assms
proof (induction es arbitrary: m)
  case (Cons e es)
  obtain i d where e: "e = (i, d)" by fastforce
  let ?m = "snd (commit i d m)"
  have n: "newer ?m es" using newer_Cons(1) Cons.prems(2) e by simp
  show ?case
  proof (cases "(j, res) = (i, fst (commit_outcome d m))")
    case True
    have "recent_results ?m = drop (Suc (length (recent_results m)) - kMaximumCachedResults) (recent_results m) @ [(j, res)]"
      using commit_appends newer_Cons(2) Cons.prems(2) True e by (force simp: kMaximumCachedResults_def)
    then have "cached_behind j res 0 ?m" by (simp add: cached_behind_def)
    from cached_behind_commit_all [OF this _ n] Cons.prems(3) show ?thesis by (simp add: e)
  next
    case False
    then have mem: "(j, res) \<in> set (outcomes es ?m)" using Cons.prems(1) e by auto
    then have "es \<noteq> []" by auto
    with Cons.IH [OF mem n] Cons.prems(3) show ?thesis
      by (force simp: e cached_behind_def)
  qed
qed simp

lemma outcomes_split:
  "(i, fst (commit_outcome d (commit_all es1 m))) \<in> set (outcomes (es1 @ (i, d) # es2) m)"
  by (induction es1 arbitrary: m) (auto simp: commit_all_def split_def)

lemma take_result_cached:
  assumes "cached_behind j res n m" and "machine_ok m"
  shows "fst (take_result j m) = Some res"
proof -
  obtain ys xs where r: "recent_results m = ys @ (j, res) # xs" using assms(1) by (auto simp: cached_behind_def)
  have "om_invar (ys @ (j, res) # xs)" using assms(2) unfolding machine_ok_def r by blast
  then have "om_find (recent_results m) j = Some res" unfolding r by (rule om_find_middle)
  then show ?thesis by (simp add: take_result_def)
qed

lemma take_result_keeps:
  assumes "cached_behind j res n m" and "k \<noteq> j"
  shows "cached_behind j res n (snd (take_result k m))"
proof -
  obtain ys xs where r: "recent_results m = ys @ (j, res) # xs" "length xs \<le> n"
    using assms(1) by (auto simp: cached_behind_def)
  have "recent_results (snd (take_result k m)) \<in> {recent_results m, om_erase k (recent_results m)}"
    by (simp add: take_result_def split: option.split)
  moreover have "om_erase k (recent_results m) = om_erase k ys @ (j, res) # om_erase k xs"
    using r(1) assms(2) by (simp add: om_erase_def)
  moreover have "length (om_erase k xs) \<le> n"
    using r(2) order.trans [OF length_filter_le] by (auto simp: om_erase_def)
  ultimately show ?thesis using r by (auto simp: cached_behind_def)
qed

lemma newer_take: "newer m es \<Longrightarrow> newer (snd (take_result k m)) es"
  by (auto simp: newer_def take_result_def om_erase_def split: option.splits)

abbreviation ok_result :: "ApplyResult \<Rightarrow> RaftCommandResult" where
  "ok_result r \<equiv> \<lparr>rcr_status = kStatusOk, rcr_result = r, rcr_detail = ''''\<rparr>"

lemma take_results_found:
  assumes "\<forall>j\<in>set is. cached_behind j (f j) b m" and "distinct is" and "rn_state_machine n = Some m"
    and "\<forall>k<length is. meanwhile (v k) = commit_all (ls ! k)" and "length ls = length is"
    and "newer m (concat ls)" and "b + length (concat ls) < kMaximumCachedResults" and "machine_ok m"
  shows "fst (run_state (take_results is) (n, v)) = map (ok_result \<circ> f) is"
  using assms
proof (induction "is" arbitrary: b m n v ls)
  case (Cons i "is")
  obtain l ls' where ls: "ls = l # ls'" using Cons.prems(5) by (cases ls) auto
  define m1 where "m1 = commit_all l m"
  define m2 where "m2 = snd (take_result i m1)"
  have nw: "newer m l" "newer m1 (concat ls')"
    using newer_append [of m l "concat ls'"] Cons.prems(6) ls by (simp_all add: m1_def)
  have c: "cached_behind j (f j) (b + length l) m1" if "j \<in> set (i # is)" for j
    unfolding m1_def using Cons.prems(1,7) that nw(1) ls by (intro cached_behind_commit_all) auto
  have ok1: "machine_ok m1" unfolding m1_def using Cons.prems(8) by (rule commit_all_machine_ok)
  have t: "take_result i m1 = (Some (f i), m2)"
    using take_result_cached [OF c ok1] by (simp add: m2_def prod_eq_iff)
  have "fst (run_state (take_results is) (n\<lparr>rn_state_machine := Some m2\<rparr>, \<lambda>k. v (Suc k))) = map (ok_result \<circ> f) is"
  proof (rule Cons.IH)
    show "\<forall>j\<in>set is. cached_behind j (f j) (b + length l) m2"
      unfolding m2_def using c Cons.prems(2) by (auto intro!: take_result_keeps)
    show "\<forall>k<length is. meanwhile (v (Suc k)) = commit_all (ls' ! k)" using Cons.prems(4) ls by auto
    show "newer m2 (concat ls')" unfolding m2_def using nw(2) by (rule newer_take)
    show "machine_ok m2" unfolding m2_def using ok1 by (rule take_result_machine_ok)
  qed (use Cons.prems ls in simp_all)
  moreover have "meanwhile (v 0) m = m1" using Cons.prems(4) ls by (simp add: m1_def)
  ultimately show ?case
    using Cons.prems(3) t by (auto simp: default_command_result_def comp_def split: prod.split)
qed simp

section \<open>A committed batch\<close>

text \<open>
  What the library promises when it reports a batch as committed: during the call it has applied a
  sequence \<open>es\<close> of log entries to the state machine, in increasing index order and behind everything
  applied before, among them the entries of the batch at the indexes it reported; the entries it
  applies during the following calls have still larger indexes.
\<close>

definition batch_committed ::
  "'snap KvStateMachine \<Rightarrow> buffer list \<Rightarrow> u64 list \<Rightarrow> (u64 \<times> buffer) list \<Rightarrow> (u64 \<times> buffer) list list \<Rightarrow>
   'snap calls \<Rightarrow> bool" where
  "batch_committed m logs idx es later v \<longleftrightarrow>
     meanwhile (v 0) = commit_all es \<and> newer m (es @ concat later) \<and>
     length idx = length logs \<and> distinct idx \<and> (\<forall>k<length logs. (idx ! k, logs ! k) \<in> set es) \<and>
     length later = length idx \<and> (\<forall>k<length later. meanwhile (v (Suc k)) = commit_all (later ! k))"

lemma max_field_size_commit_all [simp]: "max_field_size (commit_all es m) = max_field_size m"
  by (induction es arbitrary: m) (auto simp: commit_all_def split_def commit_result)

lemma encode_batch_nth:
  "encode_batch cs = Inr bs \<Longrightarrow> length bs = length cs \<and> (\<forall>k<length cs. encode_command (cs ! k) = Inr (bs ! k))"
  by (induction cs arbitrary: bs) (auto simp: exn_simps nth_Cons split: nat.split)

lemma decode_encoded:
  assumes "encode_command c = Inr data" and "length (cmd_key c) \<le> n" and "length (cmd_value c) \<le> n"
  shows "decode_command data n = Inr c"
  using assms decode_command_image [of c n]
  by (auto simp: decode_command_def encode_command_def vector_to_buffer_def exn_simps encode_command_bytes_image)

lemma commit_outcome_encoded:
  assumes "encode_command c = Inr data" and "length (cmd_key c) \<le> max_field_size m"
    and "length (cmd_value c) \<le> max_field_size m"
  shows "commit_outcome data m = apply_locked c (state m)"
  using decode_encoded [OF assms] by (simp add: commit_outcome_def)

text \<open>The outcome of the entry at an index is unique, because the indexes increase.\<close>

lemma fst_outcomes [simp]: "map fst (outcomes es m) = map fst es"
  by (induction es arbitrary: m) auto

lemma batch_results:
  assumes "batch_committed m logs idx es later v" and "machine_ok m" and "rn_state_machine n = Some m"
    and "length es + length (concat later) \<le> kMaximumCachedResults" and "k < length idx"
    and "\<exists>es1 es2. es = es1 @ (idx ! k, logs ! k) # es2 \<and> r = fst (commit_outcome (logs ! k) (commit_all es1 m))"
  shows "fst (run_state (take_results idx)
      (n\<lparr>rn_state_machine := Some (commit_all es m)\<rparr>, \<lambda>k. v (Suc k))) ! k = ok_result r"
proof -
  have es: "newer m es" "newer (commit_all es m) (concat later)"
    using assms(1) newer_append by (auto simp: batch_committed_def)
  define f where "f = (\<lambda>i. the (map_of (outcomes es m) i))"
  have d: "distinct (map fst (outcomes es m))"
    using es(1) by (simp add: newer_def strict_sorted_iff [unfolded sorted_wrt_map])
  have f: "(i, x) \<in> set (outcomes es m) \<Longrightarrow> f i = x" for i x using d by (simp add: f_def)
  have dom: "i \<in> set idx \<Longrightarrow> \<exists>x. (i, x) \<in> set (outcomes es m)" for i
  proof -
    assume "i \<in> set idx"
    then obtain l where "l < length idx" "i = idx ! l" by (auto simp: in_set_conv_nth)
    then have "(i, logs ! l) \<in> set es" using assms(1) by (auto simp: batch_committed_def)
    then have "i \<in> set (map fst (outcomes es m))" by force
    then show ?thesis unfolding set_map by auto
  qed
  have "fst (run_state (take_results idx) (n\<lparr>rn_state_machine := Some (commit_all es m)\<rparr>, \<lambda>k. v (Suc k))) =
      map (ok_result \<circ> f) idx"
  proof (rule take_results_found)
    have "idx \<noteq> []" using assms(5) by auto
    then have "es \<noteq> []" using dom by (cases idx) fastforce+
    then have le: "length es - 1 + length (concat later) < kMaximumCachedResults" using assms(4) by (cases es) simp_all
    show "length es - 1 + length (concat later) < kMaximumCachedResults" by (rule le)
    show "\<forall>j\<in>set idx. cached_behind j (f j) (length es - 1) (commit_all es m)"
    proof
      fix j assume "j \<in> set idx"
      then obtain x where "(j, x) \<in> set (outcomes es m)" using dom by blast
      then show "cached_behind j (f j) (length es - 1) (commit_all es m)"
        using f es(1) assms(4) by (intro outcomes_cached) auto
    qed
  qed (use assms es in \<open>simp_all add: batch_committed_def commit_all_machine_ok\<close>)
  moreover have "f (idx ! k) = r"
    using f outcomes_split assms(6) by blast
  ultimately show ?thesis using assms(5) by simp
qed

section \<open>The lease\<close>

definition voter_ids :: "srv_config list \<Rightarrow> int set" where
  "voter_ids cs = sc_id ` {c \<in> set cs. \<not> sc_learner c}"

text \<open>
  The cluster as the library reports it while a lease is checked: the same servers with distinct ids
  at every call, and the peers are other servers, each reported once.
\<close>

definition stable_cluster :: "int \<Rightarrow> srv_config list \<Rightarrow> 'snap calls \<Rightarrow> bool" where
  "stable_cluster self cs v \<longleftrightarrow>
     distinct (map sc_id cs) \<and>
     (\<forall>k. get_srv_config_all (v k) = map Some cs \<and>
          (\<forall>i. get_srv_config (v k) i = find (\<lambda>c. sc_id c = i) cs) \<and>
          distinct (map pi_id (get_peer_info_all (v k))) \<and> self \<notin> pi_id ` set (get_peer_info_all (v k)))"

lemma count_voters_Some:
  "count_voters self (map Some cs) (a, b) =
     (a + length (filter (\<lambda>c. \<not> sc_learner c) cs),
      b + length (filter (\<lambda>c. \<not> sc_learner c \<and> sc_id c = self) cs))"
  by (induction cs arbitrary: a b) (auto simp: is_voter_def)

lemma card_voters:
  "distinct (map sc_id cs) \<Longrightarrow> length (filter (\<lambda>c. \<not> sc_learner c \<and> P (sc_id c)) cs) = card {i \<in> voter_ids cs. P i}"
proof -
  assume d: "distinct (map sc_id cs)"
  have "sc_id ` set (filter (\<lambda>c. \<not> sc_learner c \<and> P (sc_id c)) cs) = {i \<in> voter_ids cs. P i}"
    by (auto simp: voter_ids_def)
  moreover have "distinct (map sc_id (filter (\<lambda>c. \<not> sc_learner c \<and> P (sc_id c)) cs))"
    using d by (simp add: distinct_map inj_on_def)
  ultimately show ?thesis by (metis distinct_card length_map list.set_map)
qed

lemma voter_find:
  assumes "distinct (map sc_id cs)"
  shows "is_voter (find (\<lambda>c. sc_id c = i) cs) \<longleftrightarrow> i \<in> voter_ids cs"
proof (cases "find (\<lambda>c. sc_id c = i) cs")
  case None
  then have "\<forall>c\<in>set cs. sc_id c \<noteq> i" by (auto simp: find_None_iff)
  then show ?thesis using None by (auto simp: is_voter_def voter_ids_def)
next
  case (Some c)
  then have c: "c \<in> set cs" "sc_id c = i" using find_SomeD [OF Some] by auto
  then have u: "c' \<in> set cs \<Longrightarrow> sc_id c' = i \<Longrightarrow> c' = c" for c'
    using assms by (simp add: distinct_map inj_on_def)
  have "i \<in> voter_ids cs \<longleftrightarrow> \<not> sc_learner c" unfolding voter_ids_def using c u by blast
  then show ?thesis using Some by (simp add: is_voter_def)
qed

definition fresh_peer :: "u64 \<Rightarrow> srv_config list \<Rightarrow> peer_info \<Rightarrow> bool" where
  "fresh_peer limit cs p \<longleftrightarrow> pi_id p \<in> voter_ids cs \<and> pi_last_succ_resp_us p \<le> limit"

lemma count_fresh_run:
  assumes "distinct (map sc_id cs)" and "\<And>k i. get_srv_config (v k) i = find (\<lambda>c. sc_id c = i) cs"
  shows "fst (run_state (count_fresh limit ps fresh) (n, v)) = fresh + length (filter (fresh_peer limit cs) ps)"
  using assms(2)
proof (induction ps arbitrary: n v fresh)
  case (Cons p ps)
  then have "fst (run_state (count_fresh limit ps x) (n', \<lambda>k. v (Suc k))) = x + length (filter (fresh_peer limit cs) ps)" for x n'
    by simp
  then show ?case using Cons.prems [of 0] by (auto simp: fresh_peer_def [of _ _ p] voter_find [OF assms(1)])
qed simp

lemma majority_meets:
  assumes "finite A" and "F \<subseteq> A" and "Q \<subseteq> A" and "card A div 2 + 1 \<le> card F" and "card A < 2 * card Q"
  shows "F \<inter> Q \<noteq> {}"
proof
  assume "F \<inter> Q = {}"
  then have "card F + card Q = card (F \<union> Q)" using assms(1-3) by (simp add: card_Un_disjoint finite_subset)
  also have "\<dots> \<le> card A" using assms(1-3) by (intro card_mono) auto
  finally show False using assms(4,5) by simp
qed

text \<open>The state after \<open>j\<close> calls that only read.\<close>

primrec machine_at :: "'snap calls \<Rightarrow> nat \<Rightarrow> 'snap KvStateMachine \<Rightarrow> 'snap KvStateMachine" where
  "machine_at v 0 m = m"
| "machine_at v (Suc k) m = meanwhile (v k) (machine_at v k m)"

definition moved :: "nat \<Rightarrow> 'snap RaftNode \<times> 'snap calls \<Rightarrow> 'snap RaftNode \<times> 'snap calls" where
  "moved j s = (case s of (n, v) \<Rightarrow>
     (n\<lparr>rn_state_machine := map_option (machine_at v j) (rn_state_machine n)\<rparr>, \<lambda>k. v (k + j)))"

definition reads_only :: "('snap, 'a) node_prog \<Rightarrow> bool" where
  "reads_only p \<longleftrightarrow> (\<forall>s. \<exists>j. snd (run_state p s) = moved j s)"

lemma moved_0 [simp]: "moved 0 s = s"
  by (cases s; cases "rn_state_machine (fst s)") (simp_all add: moved_def)

lemma machine_at_shift: "machine_at (\<lambda>k. v (k + i)) j (machine_at v i m) = machine_at v (i + j) m"
  by (induction j) (simp_all add: add.commute)

lemma moved_moved [simp]: "moved j (moved i s) = moved (i + j) s"
  by (cases s) (auto simp: moved_def option.map_comp comp_def machine_at_shift add.commute add.left_commute)

lemma machine_at_1: "machine_at v (Suc 0) = meanwhile (v 0)"
  by (simp add: fun_eq_iff)

lemma reads_only_return: "reads_only (State_Monad.return x)"
  unfolding reads_only_def by (metis moved_0 run_state_return snd_conv)

lemma reads_only_bind:
  assumes "reads_only p" and "\<And>x. reads_only (f x)"
  shows "reads_only (p \<bind> f)"
  unfolding reads_only_def
proof
  fix s
  obtain x s1 where r: "run_state p s = (x, s1)" by (cases "run_state p s")
  obtain i where i: "s1 = moved i s" using assms(1) r unfolding reads_only_def by (metis snd_conv)
  obtain j where "snd (run_state (f x) s1) = moved j s1" using assms(2) unfolding reads_only_def by blast
  then show "\<exists>j. snd (run_state (p \<bind> f) s) = moved j s" using r i by auto
qed

lemma reads_only_ask: "reads_only (ask f)"
  unfolding reads_only_def by (intro allI exI [of _ 1]) (auto simp: moved_def machine_at_1)

lemma run_ask_moved: "run_state (ask f) s = (f (snd s 0), moved 1 s)"
  by (cases s) (simp add: moved_def machine_at_1)

lemma reads_only_node_get: "reads_only (node_get f)"
  unfolding reads_only_def by (intro allI exI [of _ 0]) auto

lemma reads_only_if: "reads_only a \<Longrightarrow> reads_only b \<Longrightarrow> reads_only (if c then a else b)"
  by simp

lemma reads_only_on_machine: "reads_only (on_machine (\<lambda>m. (f m, m)))"
  unfolding reads_only_def
proof
  fix s :: "'a RaftNode \<times> 'a calls"
  obtain n v where s: "s = (n, v)" by fastforce
  show "\<exists>j. snd (run_state (on_machine (\<lambda>m. (f m, m))) s) = moved j s"
  proof (cases "rn_state_machine n")
    case None
    then show ?thesis by (intro exI [of _ 0]) (simp add: s)
  next
    case (Some m)
    then show ?thesis by (intro exI [of _ 1]) (simp add: s moved_def)
  qed
qed

lemmas reads_only_basic = reads_only_return reads_only_bind reads_only_ask reads_only_node_get
  reads_only_if reads_only_on_machine

lemma reads_only_and_then: "reads_only a \<Longrightarrow> reads_only b \<Longrightarrow> reads_only (and_then a b)"
  unfolding and_then_def by (intro reads_only_basic)

lemma reads_only_count_fresh: "reads_only (count_fresh l ps f)"
  by (induction ps arbitrary: f) (auto intro!: reads_only_basic)

lemma reads_only_lease_quorum: "reads_only lease_quorum"
  unfolding lease_quorum_def Let_def case_prod_beta
  by (intro reads_only_basic reads_only_count_fresh)

lemma reads_only_applied: "reads_only applied_index"
  unfolding applied_index_def by (intro reads_only_basic)

lemma reads_only_lease: "reads_only (has_valid_read_lease t)"
  unfolding has_valid_read_lease_def
  by (intro reads_only_and_then reads_only_basic reads_only_lease_quorum reads_only_applied)

lemma and_then_True:
  assumes "run_state (and_then a b) s = (True, s')"
  obtains s1 where "run_state a s = (True, s1)" and "run_state b s1 = (True, s')"
  using assms by (auto simp: run_and_then split: prod.splits if_splits)

lemma stable_cluster_shift: "stable_cluster self cs v \<Longrightarrow> stable_cluster self cs (\<lambda>k. v (k + j))"
  by (simp add: stable_cluster_def)

lemma lease_quorum_sound:
  assumes "fst (run_state lease_quorum (n, v))" and "stable_cluster (cfg_node_id (rn_config n)) cs v"
    and "Q \<subseteq> voter_ids cs" and "card (voter_ids cs) < 2 * card Q"
  shows "\<exists>q\<in>Q. q = cfg_node_id (rn_config n) \<or>
    (\<exists>p\<in>set (get_peer_info_all (v 1)). pi_id p = q \<and> pi_last_succ_resp_us p \<le> freshness_us (rn_config n))"
proof -
  let ?c = "rn_config n" and ?self = "cfg_node_id (rn_config n)"
  let ?peers = "get_peer_info_all (v 1)" and ?limit = "freshness_us (rn_config n)"
  let ?P = "pi_id ` {p \<in> set ?peers. fresh_peer ?limit cs p}" and ?S = "{i \<in> voter_ids cs. i = ?self}"
  have d: "distinct (map sc_id cs)" using assms(2) by (simp add: stable_cluster_def)
  have v: "length (filter (\<lambda>c. \<not> sc_learner c) cs) = card (voter_ids cs)"
    using card_voters [OF d, of "\<lambda>_. True"] by simp
  have s: "length (filter (\<lambda>c. \<not> sc_learner c \<and> sc_id c = ?self) cs) = card ?S"
    using card_voters [OF d, of "\<lambda>i. i = ?self"] by simp
  have f: "length (filter (fresh_peer ?limit cs) ?peers) = card ?P"
  proof -
    have "distinct (map pi_id (filter (fresh_peer ?limit cs) ?peers))"
      using assms(2) by (intro distinct_map_filter) (simp add: stable_cluster_def)
    from distinct_card [OF this] show ?thesis by simp
  qed
  have cf: "fst (run_state (count_fresh ?limit ?peers x) (n', \<lambda>k. v (Suc (Suc k)))) = x + card ?P" for x n'
    unfolding f [symmetric] by (rule count_fresh_run [OF d]) (use assms(2) in \<open>simp add: stable_cluster_def\<close>)
  have cv: "count_voters ?self (get_srv_config_all (v 0)) (0, 0) = (card (voter_ids cs), card ?S)"
    using assms(2) count_voters_Some [of ?self cs 0 0] v s by (simp add: stable_cluster_def)
  have "fst (run_state lease_quorum (n, v)) \<longleftrightarrow>
      card (voter_ids cs) \<noteq> 0 \<and> card (voter_ids cs) div 2 + 1 \<le> card ?S + card ?P"
    using cf [unfolded One_nat_def] by (simp add: lease_quorum_def case_prod_beta cv del: card_0_eq)
  then have "card (voter_ids cs) div 2 + 1 \<le> card ?S + card ?P" using assms(1) by blast
  moreover have "?self \<notin> pi_id ` set ?peers" using assms(2) unfolding stable_cluster_def by blast
  then have "?S \<inter> ?P = {}" by (auto simp: image_iff)
  moreover have "finite (voter_ids cs)" by (simp add: voter_ids_def)
  moreover have "?P \<subseteq> voter_ids cs" by (auto simp: fresh_peer_def)
  ultimately have "(?S \<union> ?P) \<inter> Q \<noteq> {}"
    using assms(3,4) by (intro majority_meets [of "voter_ids cs"]) (auto simp: card_Un_disjoint)
  then show ?thesis by (auto simp: fresh_peer_def)
qed

text \<open>
  A majority without this node that could elect another leader before one heartbeat interval from now: none
  of its members is known to have answered this node so recently that its election timer, restarted
  then, still runs at that time.
\<close>

definition may_elect_another :: "Config \<Rightarrow> srv_config list \<Rightarrow> 'snap instant \<Rightarrow> int set \<Rightarrow> bool" where
  "may_elect_another c cs i Q \<longleftrightarrow> Q \<subseteq> voter_ids cs \<and> card (voter_ids cs) < 2 * card Q \<and>
     (\<forall>q\<in>Q. q \<noteq> cfg_node_id c \<and>
       (\<forall>p\<in>set (get_peer_info_all i). pi_id p = q \<longrightarrow>
          1000 * cfg_election_timeout_lower_ms c < uint (pi_last_succ_resp_us p) + 1000 * cfg_heartbeat_ms c))"

lemma freshness_is_election_timeout_less_heartbeat:
  assumes "config_ranges c" and "config_valid c"
  shows "uint (freshness_us c) = 1000 * (cfg_election_timeout_lower_ms c - cfg_heartbeat_ms c)"
proof -
  define d where "d = cfg_election_timeout_lower_ms c - cfg_heartbeat_ms c"
  have d: "1 \<le> d" "d \<le> 120000" using assms by (simp_all add: d_def config_ranges_def config_valid_def)
  then have "freshness_us c = of_int (d * 1000)" by (simp add: freshness_us_def flip: d_def)
  moreover have "uint (of_int (d * 1000) :: u64) = d * 1000"
    using d by (simp add: uint_word_of_int_eq take_bit_int_eq_self del: of_int_mult)
  ultimately show ?thesis by (simp add: d_def)
qed

text \<open>
  What one successful lease check says: the calls of a check that starts at call \<open>a\<close> and ends with the
  calls \<open>b\<close> and \<open>b + 1\<close>.
\<close>

definition lease_checked :: "Config \<Rightarrow> srv_config list \<Rightarrow> u64 \<Rightarrow> 'snap calls \<Rightarrow> nat \<Rightarrow> nat \<Rightarrow> bool" where
  "lease_checked c cs t v a b \<longleftrightarrow>
     srv_is_leader (v a) \<and> get_term (v (a + 1)) = t \<and>
     get_log_idx_at_becoming_leader (v (a + 2)) \<noteq> 0 \<and>
     get_log_idx_at_becoming_leader (v (a + 2)) \<le> get_committed_log_idx (v (a + 3)) \<and>
     (\<nexists>Q. may_elect_another c cs (v (a + 6)) Q) \<and>
     a + 7 \<le> b \<and> srv_is_leader (v b) \<and> get_term (v (b + 1)) = t"

lemma reads_only_run:
  assumes "reads_only p" and "run_state p s = (x, s')"
  obtains j where "s' = moved j s"
  using assms unfolding reads_only_def by (metis snd_conv)

lemma lease_quorum_calls:
  assumes "run_state lease_quorum s = (True, s')"
  shows "\<exists>j. s' = moved (j + 2) s"
proof -
  obtain n v where s: "s = (n, v)" by fastforce
  let ?c = "rn_config n"
  let ?s2 = "moved 2 (n, v)"
  have s2: "?s2 = (n\<lparr>rn_state_machine := map_option (meanwhile (v 1)) (map_option (meanwhile (v 0)) (rn_state_machine n))\<rparr>,
      \<lambda>k. v (Suc (Suc k)))"
    by (cases "rn_state_machine n") (simp_all add: moved_def numeral_2_eq_2)
  have "s' = snd (run_state (count_fresh (freshness_us ?c) (get_peer_info_all (v 1))
      (snd (count_voters (cfg_node_id ?c) (get_srv_config_all (v 0)) (0, 0)))) ?s2)"
    using assms s unfolding s2 by (auto simp: lease_quorum_def case_prod_beta split: if_splits prod.splits)
  then obtain j where "s' = moved j ?s2" using reads_only_count_fresh unfolding reads_only_def by metis
  then show ?thesis using s by (auto simp: add.commute)
qed

lemma moved_cfg [simp]: "rn_config (fst (moved j s)) = rn_config (fst s)" "snd (moved j s) k = snd s (k + j)"
  by (simp_all add: moved_def split: prod.split)

lemma fst_moved_machine: "rn_state_machine (fst (moved j (n, v))) = map_option (machine_at v j) (rn_state_machine n)"
  by (simp add: moved_def)

lemma lease_valid:
  assumes "run_state (has_valid_read_lease t) (n, v) = (True, s')" and "stable_cluster (cfg_node_id (rn_config n)) cs v"
    and "config_ranges (rn_config n)" and "config_valid (rn_config n)" and m: "rn_state_machine n = Some m"
  obtains b where "lease_checked (rn_config n) cs t v 0 b" and "s' = moved (b + 2) (n, v)"
    and "get_log_idx_at_becoming_leader (v 2) \<le> last_commit_index (machine_at v 5 m)"
proof -
  let ?c = "rn_config n" and ?start = "get_log_idx_at_becoming_leader (v 2)"
  let ?again = "and_then (ask srv_is_leader) (ask (\<lambda>i. get_term i = t))"
  let ?s = "(n\<lparr>rn_state_machine := Some (machine_at v 5 m)\<rparr>, \<lambda>k. v (k + 5))"
  have s: "?s = moved 5 (n, v)" using m by (simp add: moved_def)
  have lt: "srv_is_leader (v 0)" "get_term (v 1) = t"
    using assms(1) m by (auto simp: has_valid_read_lease_def run_and_then split: prod.splits if_splits)
  have a: "?start \<noteq> 0" "\<not> get_committed_log_idx (v 3) < ?start" "\<not> last_commit_index (machine_at v 5 m) < ?start"
      and e: "run_state (and_then lease_quorum ?again) ?s = (True, s')"
    using assms(1) m lt
    by (auto simp: has_valid_read_lease_def run_and_then [of "ask _"] run_and_then [of "node_get _"]
        run_and_then [of "State_Monad.return _"] run_and_then [of "on_machine _ \<bind> _"]
        applied_index_def numeral_eq_Suc split: prod.splits if_splits)
  obtain s2 where q: "run_state lease_quorum ?s = (True, s2)" and rest: "run_state ?again s2 = (True, s')"
    using e by (rule and_then_True)
  obtain j where "s2 = moved (j + 2) ?s" using lease_quorum_calls [OF q] by blast
  then have s2: "s2 = moved (j + 7) (n, v)" unfolding s moved_moved by (simp add: add.commute)
  have ends: "srv_is_leader (v (j + 7))" "get_term (v (j + 7 + 1)) = t" "s' = moved (j + 7 + 2) (n, v)"
    using rest unfolding s2 run_and_then run_ask_moved by (auto simp: Let_def split: if_splits)
  have none: "\<not> may_elect_another ?c cs (v 6) Q" for Q
  proof
    assume "may_elect_another ?c cs (v 6) Q"
    then have Q: "Q \<subseteq> voter_ids cs" "card (voter_ids cs) < 2 * card Q" and silent: "\<forall>q\<in>Q. q \<noteq> cfg_node_id ?c \<and>
        (\<forall>p\<in>set (get_peer_info_all (v 6)). pi_id p = q \<longrightarrow>
          1000 * cfg_election_timeout_lower_ms ?c < uint (pi_last_succ_resp_us p) + 1000 * cfg_heartbeat_ms ?c)"
      unfolding may_elect_another_def by blast+
    obtain p where p: "p \<in> set (get_peer_info_all (v 6))" "pi_id p \<in> Q" "pi_last_succ_resp_us p \<le> freshness_us ?c"
      using lease_quorum_sound [of "n\<lparr>rn_state_machine := Some (machine_at v 5 m)\<rparr>" "\<lambda>k. v (k + 5)" cs Q] q Q silent
        stable_cluster_shift [OF assms(2), of 5] by auto
    then have "1000 * cfg_election_timeout_lower_ms ?c < uint (freshness_us ?c) + 1000 * cfg_heartbeat_ms ?c"
      using silent by (fastforce simp: word_le_def)
    then show False using freshness_is_election_timeout_less_heartbeat [OF assms(3,4)] by simp
  qed
  have "lease_checked ?c cs t v 0 (j + 7)"
    using lt a(1,2) none ends(1,2) by (simp add: lease_checked_def not_less flip: numeral_2_eq_2)
  then show thesis using that ends(3) a(3) by simp
qed

section \<open>Properties\<close>

text \<open>
  C12. When a batch is committed, every proposal receives the result of its own command: the result
  of applying it to the state that everything committed before it produced. No results are mixed
  up or lost, also when other entries are committed before, between and after the batch, up to the
  65536 results the cache holds.
\<close>

theorem each_proposal_gets_its_own_result:
  assumes "rn_server n" and "rn_state_machine n = Some m\<^sub>0" and "m = machine_at v 3 m\<^sub>0" and "machine_ok m"
    and "is_initialized (v 0)" and "srv_is_leader (v 1)" and "encode_batch batch = Inr logs"
    and "append_entries_ext (v 3) logs (get_term (v 2)) = Some r"
    and "ar_accepted r" and "ar_code r = OK" and "ar_committed r"
    and "batch_committed m logs (ar_log_indexes r) es later (\<lambda>k. v (k + 3))"
    and "length es + length (concat later) \<le> kMaximumCachedResults"
    and "k < length batch"
    and "length (cmd_key (batch ! k)) \<le> max_field_size m" and "length (cmd_value (batch ! k)) \<le> max_field_size m"
  shows "\<exists>es1 es2. es = es1 @ (ar_log_indexes r ! k, logs ! k) # es2 \<and>
    fst (run_state (process_proposal_batch batch) (n, v)) ! k =
      ok_result (fst (apply_locked (batch ! k) (state (commit_all es1 m))))"
proof -
  have logs: "length logs = length batch" "encode_command (batch ! k) = Inr (logs ! k)"
    using encode_batch_nth [OF assms(7)] assms(14) by auto
  have idx: "length (ar_log_indexes r) = length batch" "(ar_log_indexes r ! k, logs ! k) \<in> set es"
    using assms(12,14) logs(1) by (auto simp: batch_committed_def)
  then obtain es1 es2 where es: "es = es1 @ (ar_log_indexes r ! k, logs ! k) # es2" by (meson split_list)
  have out: "commit_outcome (logs ! k) (commit_all es1 m) = apply_locked (batch ! k) (state (commit_all es1 m))"
    using assms(15,16) by (intro commit_outcome_encoded [OF logs(2)]) simp_all
  let ?n = "n\<lparr>rn_proposal_batches := rn_proposal_batches n + 1,
      rn_proposal_entries := rn_proposal_entries n + of_nat (length batch), rn_state_machine := Some m\<rparr>"
  have "fst (run_state (process_proposal_batch batch) (n, v)) =
      fst (run_state (take_results (ar_log_indexes r))
        (?n\<lparr>rn_state_machine := Some (meanwhile (v 3) m)\<rparr>, \<lambda>k. v (Suc k + 3)))"
    using assms(1-3,5-11,14) idx(1)
    by (auto simp: process_proposal_batch_def run_and_then Let_def batch_failure_def numeral_eq_Suc)
  moreover have "meanwhile (v 3) = commit_all es" using assms(12) by (simp add: batch_committed_def)
  moreover have "fst (run_state (take_results (ar_log_indexes r))
        (?n\<lparr>rn_state_machine := Some (commit_all es m)\<rparr>, \<lambda>k. v (Suc k + 3))) ! k =
      ok_result (fst (commit_outcome (logs ! k) (commit_all es1 m)))"
    using batch_results [OF assms(12,4) _ assms(13), of ?n k] es idx(1) assms(14) by auto
  ultimately show ?thesis using es out by auto
qed

text \<open>A node of a three-server cluster and a quiet library, for the witnesses.\<close>

definition example_server :: "int \<Rightarrow> srv_config" where
  "example_server i = \<lparr>sc_id = i, sc_dc_id = 0, sc_endpoint = '''', sc_aux = '''', sc_learner = False, sc_priority = 1\<rparr>"

definition example_cluster :: "srv_config list" where
  "example_cluster = map example_server [1, 2, 3]"

definition example_reply :: append_reply where
  "example_reply = \<lparr>ar_accepted = True, ar_code = OK, ar_str = '''', ar_committed = True, ar_log_indexes = [4]\<rparr>"

definition example_instant :: "nat instant" where
  "example_instant = \<lparr>is_initialized = True, srv_is_leader = True, get_term = 2, get_leader = 1,
     get_committed_log_idx = 3, get_last_log_idx = 3, get_last_snapshot_idx = 0,
     get_log_idx_at_becoming_leader = 2, get_srv_config_all = map Some example_cluster,
     get_srv_config = (\<lambda>i. find (\<lambda>c. sc_id c = i) example_cluster),
     get_peer_info_all = [\<lparr>pi_id = 2, pi_last_succ_resp_us = 1000\<rparr>, \<lparr>pi_id = 3, pi_last_succ_resp_us = 900000\<rparr>],
     append_entries_ext = (\<lambda>logs t. Some example_reply), meanwhile = id\<rparr>"

definition example_node :: "nat RaftNode" where
  "example_node = \<lparr>rn_config = node1_config,
     rn_state_machine = Some (example_machine\<lparr>state := initial_state\<lparr>sd_last_commit_index := 3\<rparr>\<rparr>),
     rn_server = True, rn_running = True, rn_proposal_batches = 0, rn_proposal_entries = 0,
     rn_read_batches = 0, rn_read_requests = 0, rn_lease_reads = 0\<rparr>"

definition example_calls :: "buffer \<Rightarrow> nat calls" where
  "example_calls data k = (if k = 3 then example_instant\<lparr>meanwhile := commit_all [(4, data)]\<rparr> else example_instant)"

theorem each_proposal_gets_its_own_result_witness:
  "\<exists>data. encode_batch [example_set] = Inr [data] \<and>
     fst (run_state (process_proposal_batch [example_set]) (example_node, example_calls data)) ! 0 =
       ok_result ApplyResult_ok"
proof -
  define data where "data = command_image example_set"
  define m where "m = example_machine\<lparr>state := initial_state\<lparr>sd_last_commit_index := 3\<rparr>\<rparr>"
  have enc: "encode_batch [example_set] = Inr [data]"
    using encode_command_bytes_image [of example_set data]
    by (simp add: encode_command_def vector_to_buffer_def example_set_def kCommandVersion_def data_def)
  have m: "machine_at (example_calls data) 3 m = m"
    by (simp add: numeral_3_eq_3 example_calls_def example_instant_def)
  have ok: "machine_ok m"
    using example_machine_ok by (simp add: m_def machine_ok_def example_machine_def)
  have later: "batch_committed m [data] (ar_log_indexes example_reply) [(4, data)] [[]] (\<lambda>k. example_calls data (k + 3))"
    by (simp add: batch_committed_def example_calls_def example_instant_def newer_def m_def example_machine_def
        example_reply_def fun_eq_iff)
  have nd: "rn_server example_node" "rn_state_machine example_node = Some m"
    by (simp_all add: example_node_def m_def)
  have c: "is_initialized (example_calls data 0)" "srv_is_leader (example_calls data 1)"
    by (simp_all add: example_calls_def example_instant_def)
  have rep: "append_entries_ext (example_calls data 3) [data] (get_term (example_calls data 2)) = Some example_reply"
    by (simp add: example_calls_def example_instant_def)
  have r3: "ar_accepted example_reply" "ar_code example_reply = OK" "ar_committed example_reply"
    and r4: "ar_log_indexes example_reply = [4]"
    by (simp_all add: example_reply_def)
  have sz: "length [(4 :: u64, data)] + length (concat [[] :: (u64 \<times> buffer) list]) \<le> kMaximumCachedResults"
      "length (cmd_key example_set) \<le> max_field_size m" "length (cmd_value example_set) \<le> max_field_size m"
    by (simp_all add: kMaximumCachedResults_def example_set_def m_def example_machine_def)
  have "\<exists>es1 es2. [(4, data)] = es1 @ (4, data) # es2 \<and>
    fst (run_state (process_proposal_batch [example_set]) (example_node, example_calls data)) ! 0 =
      ok_result (fst (apply_locked example_set (state (commit_all es1 m))))"
    using each_proposal_gets_its_own_result [OF nd m [symmetric] ok c enc rep r3 later, of 0] sz
    by (simp add: r4)
  moreover have "fst (apply_locked example_set (state m)) = ApplyResult_ok"
    by (simp add: m_def example_set_def apply_locked_def is_write_def apply_new_request_locked_def initial_state_def
        om_find_def)
  ultimately show ?thesis using enc by (auto simp: append_eq_Cons_conv Cons_eq_append_conv)
qed

text \<open>
  C14. A value served under the leader lease was read between two lease checks. Each found the node
  leading in the same term, before and after it looked at the cluster, with the entry of its election
  committed; that entry had been applied to the state the value was read from; and at each check no
  majority of the voters existed that could have elected another leader, then or within one heartbeat
  interval: every majority contains this node or a voter whose last answer is at least one heartbeat
  interval younger than the lower bound of the election timeout. The configuration is one that
  \<open>Config::load\<close> accepts, the library reports the same servers during the read, and the applied index
  does not go back.
\<close>

theorem lease_read_is_covered:
  assumes "run_state (lease_read key t) (n, v) = (Some r, s')" and "stable_cluster (cfg_node_id (rn_config n)) cs v"
    and "config_ranges (rn_config n)" and "config_valid (rn_config n)" and m: "rn_state_machine n = Some m"
    and mono: "\<forall>k. last_commit_index (machine_at v k m) \<le> last_commit_index (machine_at v (k + 1) m)"
  shows "\<exists>i k. lease_checked (rn_config n) cs t v 0 i \<and> lease_checked (rn_config n) cs t v (i + 3) k \<and>
    lgr_status r = kStatusOk \<and> lgr_value r = kv_get key (machine_at v (i + 3) m) \<and>
    get_log_idx_at_becoming_leader (v 2) \<le> last_commit_index (machine_at v (i + 3) m)"
proof -
  obtain s1 where v1: "run_state (has_valid_read_lease t) (n, v) = (True, s1)"
    using assms(1) by (auto simp: lease_read_def split: prod.splits if_splits)
  from v1 assms(2-4) m obtain i where first: "lease_checked (rn_config n) cs t v 0 i" "s1 = moved (i + 2) (n, v)"
      "get_log_idx_at_becoming_leader (v 2) \<le> last_commit_index (machine_at v 5 m)"
    by (rule lease_valid)
  have sm: "s1 = (n\<lparr>rn_state_machine := Some (machine_at v (i + 2) m)\<rparr>, \<lambda>k. v (k + (i + 2)))"
    using first(2) m by (simp add: moved_def)
  let ?n2 = "n\<lparr>rn_state_machine := Some (machine_at v (i + 3) m)\<rparr>" and ?v2 = "\<lambda>k. v (k + (i + 3))"
  have at: "meanwhile (v (i + 2)) (machine_at v (i + 2) m) = machine_at v (i + 3) m"
    by (simp add: numeral_eq_Suc)
  obtain s3 where v2: "run_state (has_valid_read_lease t) (?n2, ?v2) = (True, s3)"
    and r: "r = default_get_result\<lparr>lgr_status := kStatusOk, lgr_value := kv_get key (machine_at v (i + 3) m)\<rparr>"
    using assms(1) v1 at by (auto simp: lease_read_def sm numeral_eq_Suc split: prod.splits if_splits)
  have "stable_cluster (cfg_node_id (rn_config ?n2)) cs ?v2"
    using stable_cluster_shift [OF assms(2), of "i + 3"] by simp
  with v2 obtain b where "lease_checked (rn_config ?n2) cs t ?v2 0 b"
    by (rule lease_valid) (use assms(3,4) in simp_all)
  then have "lease_checked (rn_config n) cs t v (i + 3) (b + (i + 3))"
    by (simp add: lease_checked_def add.assoc add.commute add.left_commute)
  moreover have "last_commit_index (machine_at v 5 m) \<le> last_commit_index (machine_at v (i + 3) m)"
  proof (rule lift_Suc_mono_le [of "\<lambda>k. last_commit_index (machine_at v k m)"])
    show "5 \<le> i + 3" using first(1) by (simp add: lease_checked_def)
  qed (use mono in simp)
  ultimately show ?thesis using first(1,3) r by (auto simp: default_get_result_def)
qed

lemma example_lease: "\<exists>s'. run_state (lease_read ''k'' 2) (example_node, \<lambda>_. example_instant) =
    (Some (default_get_result\<lparr>lgr_status := kStatusOk\<rparr>), s')"
  by (simp add: lease_read_def has_valid_read_lease_def run_and_then applied_index_def lease_quorum_def
      example_node_def example_instant_def example_cluster_def example_server_def is_voter_def
      freshness_us_def node1_config_def default_config_def last_commit_index_def example_machine_def
      initial_state_def kv_get_def om_find_def default_get_result_def)

theorem lease_read_is_covered_witness:
  "\<exists>i k. lease_checked node1_config example_cluster 2 (\<lambda>_. example_instant) 0 i \<and>
     lease_checked node1_config example_cluster 2 (\<lambda>_. example_instant) (i + 3) k \<and>
     (\<nexists>Q. may_elect_another node1_config example_cluster example_instant Q)"
proof -
  let ?m = "example_machine\<lparr>state := initial_state\<lparr>sd_last_commit_index := 3\<rparr>\<rparr>"
  have cfg: "rn_config example_node = node1_config" and m: "rn_state_machine example_node = Some ?m"
    by (simp_all add: example_node_def)
  have stable: "stable_cluster (cfg_node_id (rn_config example_node)) example_cluster (\<lambda>_. example_instant)"
    by (simp add: stable_cluster_def example_cluster_def example_server_def example_instant_def example_node_def
        node1_config_def)
  have still: "machine_at (\<lambda>_. example_instant) k ?m = ?m" for k
    by (induction k) (simp_all add: example_instant_def)
  obtain s' where run: "run_state (lease_read ''k'' 2) (example_node, \<lambda>_. example_instant) =
      (Some (default_get_result\<lparr>lgr_status := kStatusOk\<rparr>), s')" using example_lease by blast
  show ?thesis
    using lease_read_is_covered [OF run stable _ _ m] node1_config_ok still
    by (auto simp: cfg lease_checked_def)
qed

text \<open>
  C38. A batch the library reports as accepted with code \<open>OK\<close> but without a committed result is
  answered as if it had succeeded: the status of every proposal is \<open>kStatusOk\<close> with an empty success
  result, next to a detail text that says the result is missing.
\<close>

theorem missing_result_reported_as_success:
  assumes "rn_server n" and "rn_state_machine n = Some m"
    and "is_initialized (v 0)" and "srv_is_leader (v 1)" and "encode_batch batch = Inr logs"
    and "append_entries_ext (v 3) logs (get_term (v 2)) = Some r"
    and "ar_accepted r" and "ar_code r = OK" and "\<not> ar_committed r" and "ar_str r = ''''"
  shows "fst (run_state (process_proposal_batch batch) (n, v)) =
    replicate (length batch)
      \<lparr>rcr_status = kStatusOk, rcr_result = ApplyResult_ok, rcr_detail = ''committed batch has no state-machine result''\<rparr>"
  using assms
  by (auto simp: process_proposal_batch_def run_and_then Let_def batch_failure_def map_status_def
      default_command_result_def numeral_eq_Suc)

theorem missing_result_reported_as_success_witness:
  "fst (run_state (process_proposal_batch [read_barrier])
      (example_node, \<lambda>_. example_instant\<lparr>append_entries_ext := (\<lambda>logs t. Some (example_reply\<lparr>ar_committed := False\<rparr>))\<rparr>)) =
    [\<lparr>rcr_status = kStatusOk, rcr_result = ApplyResult_ok, rcr_detail = ''committed batch has no state-machine result''\<rparr>]"
proof -
  obtain data where "encode_batch [read_barrier] = Inr [data]"
    using encode_command_bytes_image [of read_barrier "command_image read_barrier"]
    by (auto simp: encode_command_def vector_to_buffer_def read_barrier_def default_command_def kCommandVersion_def)
  then show ?thesis
    using missing_result_reported_as_success [of example_node _
        "\<lambda>_. example_instant\<lparr>append_entries_ext := (\<lambda>logs t. Some (example_reply\<lparr>ar_committed := False\<rparr>))\<rparr>"
        "[read_barrier]" "[data]" "example_reply\<lparr>ar_committed := False\<rparr>"]
    by (simp add: example_node_def example_instant_def example_reply_def)
qed

end
