(* ===== verification/Raft_Workers.thy ===== *)
theory Raft_Workers
  imports Raft_Node "HOL-Library.Multiset"
begin

text \<open>
  The threads of \<^verbatim>\<open>src/src/raft/raft_node.cpp\<close>: client threads that put requests into the two
  queues and wait on their promises, the proposal worker, the read worker, and the thread that
  starts and stops them. Every critical section is one step of \<open>node_step\<close>, so a run is an
  interleaving of critical sections; a worker leaves its timed wait at any moment, and the rest of
  the node (\<open>running_\<close>, the state machine, what the library answers) changes arbitrarily between two
  steps. A promise is a number; the numbers of the requests accepted so far are those below
  \<open>next_proposal\<close> and \<open>next_read\<close>, and the lists of answers record every \<^theory_text>\<open>set_value\<close>.

  The theorems: every accepted request is answered at most once and is never lost; after a stop the
  workers finish and leave no request unanswered; the workers cannot run forever without new
  requests.
\<close>

section \<open>State\<close>

text \<open>
  Where a worker is between two critical sections: waiting for requests, in the timed wait that
  collects a batch, holding a batch, waiting for the promise of a barrier, or returned.
\<close>

datatype proposal_thread =
  P_idle | P_collecting | P_batch "(nat \<times> Command) list" | P_exited

datatype read_thread =
  R_idle | R_collecting | R_batch "(nat \<times> string) list"
| R_waiting "(nat \<times> string) list" nat | R_exited

record 'snap node_system =
  sys_node :: "'snap RaftNode"
  sys_calls :: "'snap calls"
  proposal_queue :: "(nat \<times> Command) list"
  proposal_stopping :: bool
  proposal_worker :: proposal_thread
  proposals_done :: "(nat \<times> RaftCommandResult) list"
  next_proposal :: nat
  read_queue :: "(nat \<times> string) list"
  read_stopping :: bool
  read_worker :: read_thread
  reads_done :: "(nat \<times> LinearizableGetResult) list"
  next_read :: nat

definition initial_system :: "'snap RaftNode \<Rightarrow> 'snap calls \<Rightarrow> 'snap node_system" where
  "initial_system n v = \<lparr>sys_node = n, sys_calls = v, proposal_queue = [], proposal_stopping = True,
     proposal_worker = P_exited, proposals_done = [], next_proposal = 0, read_queue = [],
     read_stopping = True, read_worker = R_exited, reads_done = [], next_read = 0\<rparr>"

section \<open>Critical sections\<close>

text \<open>The locked part of \<^theory_text>\<open>submit\<close>: a result at once, or the promise to wait for.\<close>

definition enqueue_proposal :: "Command \<Rightarrow> 'snap node_system \<Rightarrow> (RaftCommandResult + nat) \<times> 'snap node_system" where
  "enqueue_proposal c s =
     (if proposal_stopping s \<or> \<not> rn_running (sys_node s)
      then (Inl (unavailable_result ''Raft proposal worker is stopping''), s)
      else (Inr (next_proposal s),
            s\<lparr>proposal_queue := proposal_queue s @ [(next_proposal s, c)], next_proposal := next_proposal s + 1\<rparr>))"

definition enqueue_read :: "string \<Rightarrow> 'snap node_system \<Rightarrow> (LinearizableGetResult + nat) \<times> 'snap node_system" where
  "enqueue_read key s =
     (if read_stopping s \<or> \<not> rn_running (sys_node s)
      then (Inl (default_get_result\<lparr>lgr_detail := ''linearizable read worker is stopping''\<rparr>), s)
      else (Inr (next_read s),
            s\<lparr>read_queue := read_queue s @ [(next_read s, key)], next_read := next_read s + 1\<rparr>))"

text \<open>A program over the node run by a thread of the system.\<close>

definition run_node_prog :: "('snap, 'a) node_prog \<Rightarrow> 'snap node_system \<Rightarrow> 'a \<times> 'snap node_system" where
  "run_node_prog p s =
     (let (x, (n, v)) = run_state p (sys_node s, sys_calls s) in (x, s\<lparr>sys_node := n, sys_calls := v\<rparr>))"

definition rn_submit :: "Command \<Rightarrow> 'snap node_system \<Rightarrow> (RaftCommandResult + nat) \<times> 'snap node_system" where
  "rn_submit c s =
     (let (r, s) = run_node_prog submit_checks s
      in case r of Some result \<Rightarrow> (Inl result, s) | None \<Rightarrow> enqueue_proposal c s)"

definition linearizable_get :: "string \<Rightarrow> 'snap node_system \<Rightarrow> (LinearizableGetResult + nat) \<times> 'snap node_system" where
  "linearizable_get key s =
     (let (r, s) = run_node_prog (get_checks key) s
      in case r of Some result \<Rightarrow> (Inl result, s) | None \<Rightarrow> enqueue_read key s)"

definition take_proposals :: "'snap node_system \<Rightarrow> 'snap node_system" where
  "take_proposals s =
     (let count = min (length (proposal_queue s)) kMaximumProposalBatch
      in s\<lparr>proposal_worker := P_batch (take count (proposal_queue s)),
           proposal_queue := drop count (proposal_queue s)\<rparr>)"

definition process_batch :: "(nat \<times> Command) list \<Rightarrow> 'snap node_system \<Rightarrow> 'snap node_system" where
  "process_batch batch s =
     (let (results, s) = run_node_prog (process_proposal_batch (map snd batch)) s
      in s\<lparr>proposal_worker := P_idle, proposals_done := proposals_done s @ zip (map fst batch) results\<rparr>)"

definition take_reads :: "'snap node_system \<Rightarrow> 'snap node_system" where
  "take_reads s =
     (let count = min (length (read_queue s)) kMaximumReadBatch
      in s\<lparr>read_worker := R_batch (take count (read_queue s)), read_queue := drop count (read_queue s)\<rparr>)"

definition complete_reads :: "RaftCommandResult \<Rightarrow> (nat \<times> string) list \<Rightarrow> 'snap node_system \<Rightarrow> 'snap node_system" where
  "complete_reads barrier_result batch s =
     (let (results, s) = run_node_prog (finish_reads barrier_result (map snd batch)) s
      in s\<lparr>read_worker := R_idle, reads_done := reads_done s @ zip (map fst batch) results\<rparr>)"

definition submit_barrier :: "(nat \<times> string) list \<Rightarrow> 'snap node_system \<Rightarrow> 'snap node_system" where
  "submit_barrier batch s =
     (let (_, s) = run_node_prog (count_read_batch (length batch)) s;
          (r, s) = rn_submit read_barrier s
      in case r of
           Inl result \<Rightarrow> complete_reads result batch s
         | Inr p \<Rightarrow> s\<lparr>read_worker := R_waiting batch p\<rparr>)"

text \<open>\<^theory_text>\<open>stop_workers\<close> rejects the queued reads, then the queued proposals, and then joins.\<close>

definition stop_reads :: "'snap node_system \<Rightarrow> 'snap node_system" where
  "stop_reads s = s\<lparr>read_stopping := True, read_queue := [],
     reads_done := reads_done s @
       map (\<lambda>(p, _). (p, default_get_result\<lparr>lgr_detail := ''Raft node is stopping''\<rparr>)) (read_queue s)\<rparr>"

definition stop_proposals :: "'snap node_system \<Rightarrow> 'snap node_system" where
  "stop_proposals s = s\<lparr>proposal_stopping := True, proposal_queue := [],
     proposals_done := proposals_done s @
       map (\<lambda>(p, _). (p, unavailable_result ''Raft node is stopping'')) (proposal_queue s)\<rparr>"

definition start_workers :: "'snap node_system \<Rightarrow> 'snap node_system" where
  "start_workers s = s\<lparr>proposal_stopping := False, read_stopping := False,
     proposal_worker := P_idle, read_worker := R_idle\<rparr>"

section \<open>Runs\<close>

text \<open>
  The steps of the two workers. Between seeing a request and taking the batch the lock is released by
  the timed wait, so the batch a worker takes may have grown or, after a stop, be empty.
\<close>

inductive worker_step :: "'snap node_system \<Rightarrow> 'snap node_system \<Rightarrow> bool" where
  proposals_seen: "proposal_worker s = P_idle \<Longrightarrow> proposal_queue s \<noteq> [] \<Longrightarrow>
    worker_step s (s\<lparr>proposal_worker := P_collecting\<rparr>)"
| proposals_taken: "proposal_worker s = P_collecting \<Longrightarrow> worker_step s (take_proposals s)"
| proposals_processed: "proposal_worker s = P_batch b \<Longrightarrow> worker_step s (process_batch b s)"
| proposal_exit: "proposal_worker s = P_idle \<Longrightarrow> proposal_stopping s \<Longrightarrow> proposal_queue s = [] \<Longrightarrow>
    worker_step s (s\<lparr>proposal_worker := P_exited\<rparr>)"
| reads_seen: "read_worker s = R_idle \<Longrightarrow> read_queue s \<noteq> [] \<Longrightarrow>
    worker_step s (s\<lparr>read_worker := R_collecting\<rparr>)"
| reads_taken: "read_worker s = R_collecting \<Longrightarrow> worker_step s (take_reads s)"
| barrier_submitted: "read_worker s = R_batch b \<Longrightarrow> worker_step s (submit_barrier b s)"
| reads_completed: "read_worker s = R_waiting b p \<Longrightarrow> (p, r) \<in> set (proposals_done s) \<Longrightarrow>
    worker_step s (complete_reads r b s)"
| read_exit: "read_worker s = R_idle \<Longrightarrow> read_stopping s \<Longrightarrow> read_queue s = [] \<Longrightarrow>
    worker_step s (s\<lparr>read_worker := R_exited\<rparr>)"

inductive node_step :: "'snap node_system \<Rightarrow> 'snap node_system \<Rightarrow> bool" where
  worker: "worker_step s s' \<Longrightarrow> node_step s s'"
| client_submit: "enqueue_proposal c s = (r, s') \<Longrightarrow> node_step s s'"
| client_get: "enqueue_read key s = (r, s') \<Longrightarrow> node_step s s'"
| environment: "node_step s (s\<lparr>sys_node := n, sys_calls := v\<rparr>)"
| reads_stopped: "node_step s (stop_reads s)"
| proposals_stopped: "read_stopping s \<Longrightarrow> node_step s (stop_proposals s)"
| workers_started: "proposal_worker s = P_exited \<Longrightarrow> read_worker s = R_exited \<Longrightarrow> node_step s (start_workers s)"

inductive reachable :: "'snap node_system \<Rightarrow> bool" where
  initial: "reachable (initial_system n v)"
| step: "reachable s \<Longrightarrow> node_step s s' \<Longrightarrow> reachable s'"

inductive_cases worker_stepE: "worker_step s s'"
inductive_cases node_stepE: "node_step s s'"

section \<open>Accounting\<close>

fun proposals_in_flight :: "proposal_thread \<Rightarrow> nat list" where
  "proposals_in_flight (P_batch b) = map fst b"
| "proposals_in_flight _ = []"

fun reads_in_flight :: "read_thread \<Rightarrow> nat list" where
  "reads_in_flight (R_batch b) = map fst b"
| "reads_in_flight (R_waiting b p) = map fst b"
| "reads_in_flight _ = []"

definition all_proposals :: "'snap node_system \<Rightarrow> nat list" where
  "all_proposals s = map fst (proposals_done s) @ proposals_in_flight (proposal_worker s) @ map fst (proposal_queue s)"

definition all_reads :: "'snap node_system \<Rightarrow> nat list" where
  "all_reads s = map fst (reads_done s) @ reads_in_flight (read_worker s) @ map fst (read_queue s)"

definition system_ok :: "'snap node_system \<Rightarrow> bool" where
  "system_ok s \<longleftrightarrow>
     mset (all_proposals s) = mset [0..<next_proposal s] \<and> mset (all_reads s) = mset [0..<next_read s] \<and>
     length (proposals_in_flight (proposal_worker s)) \<le> kMaximumProposalBatch \<and>
     length (reads_in_flight (read_worker s)) \<le> kMaximumReadBatch \<and>
     (proposal_worker s = P_exited \<longrightarrow> proposal_stopping s \<and> proposal_queue s = []) \<and>
     (read_worker s = R_exited \<longrightarrow> read_stopping s \<and> read_queue s = []) \<and>
     (proposal_stopping s \<longrightarrow> proposal_queue s = []) \<and> (read_stopping s \<longrightarrow> read_queue s = []) \<and>
     (\<forall>b p. read_worker s = R_waiting b p \<longrightarrow> p < next_proposal s)"


section \<open>The invariant is kept\<close>

lemma run_node_prog_frame:
  assumes "run_node_prog p s = (x, s')"
  shows "\<exists>n v. s' = s\<lparr>sys_node := n, sys_calls := v\<rparr> \<and> x = fst (run_state p (sys_node s, sys_calls s))"
  using assms by (auto simp: run_node_prog_def split: prod.splits)

lemma length_finish_reads: "length (fst (run_state (finish_reads r keys) s)) = length keys"
  by (cases s) (auto simp: finish_reads_def get_many_def on_machine_def split: prod.split option.split)

lemma system_ok_environment [simp]:
  "system_ok (s\<lparr>sys_node := n, sys_calls := v\<rparr>) = system_ok s"
  by (simp add: system_ok_def all_proposals_def all_reads_def)

lemma system_ok_initial: "system_ok (initial_system n v)"
  by (simp add: system_ok_def initial_system_def all_proposals_def all_reads_def)

lemma mset_below_Suc [simp]: "add_mset n (mset_set {0..<n}) = mset_set {0..<Suc n}"
  by (simp add: atLeast0_lessThan_Suc)

lemma enqueue_proposal_ok:
  "system_ok s \<Longrightarrow> enqueue_proposal c s = (r, s') \<Longrightarrow> system_ok s'"
  by (auto simp: enqueue_proposal_def system_ok_def all_proposals_def all_reads_def split: if_splits)

lemma enqueue_read_ok:
  "system_ok s \<Longrightarrow> enqueue_read key s = (r, s') \<Longrightarrow> system_ok s'"
  by (auto simp: enqueue_read_def system_ok_def all_proposals_def all_reads_def split: if_splits)

lemma take_split_mset: "mset (map f (take n xs)) + mset (map f (drop n xs)) = mset (map f xs)"
  by (metis append_take_drop_id map_append mset_append)

lemma take_proposals_ok:
  assumes "system_ok s" and "proposal_worker s = P_collecting"
  shows "system_ok (take_proposals s)"
  using assms take_split_mset [of fst "min (length (proposal_queue s)) kMaximumProposalBatch" "proposal_queue s"]
  by (auto simp: take_proposals_def system_ok_def all_proposals_def all_reads_def Let_def)

lemma take_reads_ok:
  assumes "system_ok s" and "read_worker s = R_collecting"
  shows "system_ok (take_reads s)"
  using assms take_split_mset [of fst "min (length (read_queue s)) kMaximumReadBatch" "read_queue s"]
  by (auto simp: take_reads_def system_ok_def all_proposals_def all_reads_def Let_def)

lemma process_batch_ok:
  assumes "system_ok s" and "proposal_worker s = P_batch b"
  shows "system_ok (process_batch b s)"
proof -
  obtain x n v where run: "run_node_prog (process_proposal_batch (map snd b)) s = (x, s\<lparr>sys_node := n, sys_calls := v\<rparr>)"
    and len: "length x = length b"
    by (metis length_map length_process_proposal_batch run_node_prog_frame surj_pair)
  show ?thesis
    using assms len by (auto simp: process_batch_def run system_ok_def all_proposals_def all_reads_def)
qed

lemma complete_reads_ok:
  assumes "system_ok s" and "reads_in_flight (read_worker s) = map fst b"
  shows "system_ok (complete_reads r b s)"
proof -
  obtain x n v where run: "run_node_prog (finish_reads r (map snd b)) s = (x, s\<lparr>sys_node := n, sys_calls := v\<rparr>)"
    and len: "length x = length b"
    by (metis length_map length_finish_reads run_node_prog_frame surj_pair)
  show ?thesis
    using assms len by (auto simp: complete_reads_def run system_ok_def all_proposals_def all_reads_def)
qed


lemma enqueue_proposal_frame:
  assumes "enqueue_proposal c s = (r, s')"
  shows "read_worker s' = read_worker s" and "r = Inr p \<Longrightarrow> p < next_proposal s'"
  using assms by (auto simp: enqueue_proposal_def split: if_splits)

lemma rn_submit_ok:
  assumes "rn_submit c s = (r, s')"
  shows "system_ok s \<Longrightarrow> system_ok s'" and "read_worker s' = read_worker s"
    and "r = Inr p \<Longrightarrow> p < next_proposal s'"
proof -
  obtain x n v where run: "run_node_prog submit_checks s = (x, s\<lparr>sys_node := n, sys_calls := v\<rparr>)"
    by (metis run_node_prog_frame surj_pair)
  show "system_ok s \<Longrightarrow> system_ok s'"
    using assms enqueue_proposal_ok [of "s\<lparr>sys_node := n, sys_calls := v\<rparr>"]
    by (auto simp: rn_submit_def run split: option.splits)
  show "read_worker s' = read_worker s"
    using assms by (auto simp: rn_submit_def run split: option.splits dest: enqueue_proposal_frame(1))
  show "r = Inr p \<Longrightarrow> p < next_proposal s'"
    using assms by (auto simp: rn_submit_def run split: option.splits dest: enqueue_proposal_frame(2))
qed

lemma system_ok_waiting:
  assumes "system_ok s" and "reads_in_flight (read_worker s) = map fst b" and "p < next_proposal s"
  shows "system_ok (s\<lparr>read_worker := R_waiting b p\<rparr>)"
  using assms by (auto simp: system_ok_def all_proposals_def all_reads_def)

lemma submit_barrier_ok:
  assumes "system_ok s" and "read_worker s = R_batch b"
  shows "system_ok (submit_barrier b s)"
proof -
  obtain x n v where run: "run_node_prog (count_read_batch (length b)) s = (x, s\<lparr>sys_node := n, sys_calls := v\<rparr>)"
    by (metis run_node_prog_frame surj_pair)
  obtain r s' where sub: "rn_submit read_barrier (s\<lparr>sys_node := n, sys_calls := v\<rparr>) = (r, s')"
    by fastforce
  have "system_ok s'" and "read_worker s' = R_batch b"
    using rn_submit_ok(1,2) [OF sub] assms by simp_all
  moreover have "p < next_proposal s'" if "r = Inr p" for p
    using rn_submit_ok(3) [OF sub that] .
  ultimately show ?thesis
    by (simp add: submit_barrier_def run sub complete_reads_ok system_ok_waiting split: sum.split)
qed

lemma worker_step_ok: "worker_step s s' \<Longrightarrow> system_ok s \<Longrightarrow> system_ok s'"
proof (induction rule: worker_step.induct)
  case (proposals_seen s)
  then show ?case by (auto simp: system_ok_def all_proposals_def all_reads_def)
next
  case (proposals_taken s)
  then show ?case by (simp add: take_proposals_ok)
next
  case (proposals_processed s b)
  then show ?case by (simp add: process_batch_ok)
next
  case (proposal_exit s)
  then show ?case by (auto simp: system_ok_def all_proposals_def all_reads_def)
next
  case (reads_seen s)
  then show ?case by (auto simp: system_ok_def all_proposals_def all_reads_def)
next
  case (reads_taken s)
  then show ?case by (simp add: take_reads_ok)
next
  case (barrier_submitted s b)
  then show ?case by (simp add: submit_barrier_ok)
next
  case (reads_completed s b p r)
  then show ?case by (simp add: complete_reads_ok)
next
  case (read_exit s)
  then show ?case by (auto simp: system_ok_def all_proposals_def all_reads_def)
qed

lemma map_fst_rejected [simp]: "map (fst \<circ> (\<lambda>(p, _). (p, r))) xs = map fst xs"
  by auto

lemma stop_reads_ok: "system_ok s \<Longrightarrow> system_ok (stop_reads s)"
  by (auto simp: stop_reads_def system_ok_def all_proposals_def all_reads_def comp_def case_prod_beta ac_simps)

lemma stop_proposals_ok: "system_ok s \<Longrightarrow> system_ok (stop_proposals s)"
  by (auto simp: stop_proposals_def system_ok_def all_proposals_def all_reads_def comp_def case_prod_beta ac_simps)

lemma start_workers_ok:
  "system_ok s \<Longrightarrow> proposal_worker s = P_exited \<Longrightarrow> read_worker s = R_exited \<Longrightarrow> system_ok (start_workers s)"
  by (auto simp: start_workers_def system_ok_def all_proposals_def all_reads_def)

lemma node_step_ok: "node_step s s' \<Longrightarrow> system_ok s \<Longrightarrow> system_ok s'"
  by (erule node_stepE)
    (blast intro: worker_step_ok enqueue_proposal_ok enqueue_read_ok stop_reads_ok stop_proposals_ok
       start_workers_ok system_ok_environment [THEN iffD2])+

lemma reachable_system_ok: "reachable s \<Longrightarrow> system_ok s"
  by (induction rule: reachable.induct) (auto simp: system_ok_initial intro: node_step_ok)


section \<open>The workers stop\<close>

text \<open>
  The steps that remain for the requests in a queue and the batch in hand. A barrier is a new proposal,
  so a batch of reads pays for one.
\<close>

fun proposal_work :: "proposal_thread \<Rightarrow> nat \<Rightarrow> nat" where
  "proposal_work P_idle q = 4 * q + 1"
| "proposal_work P_collecting q = (if q = 0 then 3 else 4 * q)"
| "proposal_work (P_batch _) q = 4 * q + 2"
| "proposal_work P_exited q = 4 * q"

fun read_work :: "read_thread \<Rightarrow> nat \<Rightarrow> nat" where
  "read_work R_idle q = 8 * q + 1"
| "read_work R_collecting q = (if q = 0 then 8 else 8 * q)"
| "read_work (R_batch _) q = 8 * q + 7"
| "read_work (R_waiting _ _) q = 8 * q + 2"
| "read_work R_exited q = 8 * q"

definition work_left :: "'snap node_system \<Rightarrow> nat" where
  "work_left s = proposal_work (proposal_worker s) (length (proposal_queue s)) +
     read_work (read_worker s) (length (read_queue s))"

lemma work_left_environment [simp]: "work_left (s\<lparr>sys_node := n, sys_calls := v\<rparr>) = work_left s"
  by (simp add: work_left_def)

lemma proposal_work_Suc: "proposal_work t (Suc q) \<le> proposal_work t q + 4"
  by (cases t) auto

lemma run_node_prog_work:
  "work_left (snd (run_node_prog p s)) = work_left s"
  by (auto simp: run_node_prog_def split: prod.split)

lemma rn_submit_work:
  assumes "rn_submit c s = (r, s')"
  shows "read_worker s' = read_worker s" "read_queue s' = read_queue s"
    "proposal_work (proposal_worker s') (length (proposal_queue s')) \<le>
       proposal_work (proposal_worker s) (length (proposal_queue s)) + 4"
proof -
  obtain x n v where run: "run_node_prog submit_checks s = (x, s\<lparr>sys_node := n, sys_calls := v\<rparr>)"
    by (metis run_node_prog_frame surj_pair)
  show "read_worker s' = read_worker s" "read_queue s' = read_queue s"
    "proposal_work (proposal_worker s') (length (proposal_queue s')) \<le>
       proposal_work (proposal_worker s) (length (proposal_queue s)) + 4"
    using assms proposal_work_Suc
    by (auto simp: rn_submit_def run enqueue_proposal_def split: option.splits if_splits)
qed

lemma complete_reads_work:
  "work_left (complete_reads r b s) =
     proposal_work (proposal_worker s) (length (proposal_queue s)) + (8 * length (read_queue s) + 1)"
proof -
  obtain x n v where run: "run_node_prog (finish_reads r (map snd b)) s = (x, s\<lparr>sys_node := n, sys_calls := v\<rparr>)"
    by (metis run_node_prog_frame surj_pair)
  show ?thesis
    by (simp add: complete_reads_def run work_left_def)
qed

lemma submit_barrier_work:
  assumes "read_worker s = R_batch b"
  shows "work_left (submit_barrier b s) < work_left s"
proof -
  obtain x n v where run: "run_node_prog (count_read_batch (length b)) s = (x, s\<lparr>sys_node := n, sys_calls := v\<rparr>)"
    by (metis run_node_prog_frame surj_pair)
  obtain r s' where sub: "rn_submit read_barrier (s\<lparr>sys_node := n, sys_calls := v\<rparr>) = (r, s')"
    by fastforce
  show ?thesis
    using rn_submit_work [OF sub] assms
    by (cases r) (simp_all add: submit_barrier_def run sub complete_reads_work, simp_all add: work_left_def)
qed

lemma process_batch_work:
  assumes "proposal_worker s = P_batch b"
  shows "work_left (process_batch b s) < work_left s"
proof -
  obtain x n v where run: "run_node_prog (process_proposal_batch (map snd b)) s = (x, s\<lparr>sys_node := n, sys_calls := v\<rparr>)"
    by (metis run_node_prog_frame surj_pair)
  show ?thesis
    using assms by (simp add: process_batch_def run work_left_def)
qed

lemma take_work:
  "proposal_worker s = P_collecting \<Longrightarrow> work_left (take_proposals s) < work_left s"
  "read_worker s = R_collecting \<Longrightarrow> work_left (take_reads s) < work_left s"
  by (cases "proposal_queue s"; simp add: take_proposals_def work_left_def Let_def kMaximumProposalBatch_def)
    (cases "read_queue s"; simp add: take_reads_def work_left_def Let_def kMaximumReadBatch_def)

lemma worker_step_work: "worker_step s s' \<Longrightarrow> work_left s' < work_left s"
proof (erule worker_stepE, goal_cases)
  case 1
  then show ?case by (simp add: work_left_def)
next
  case 4
  then show ?case by (simp add: work_left_def)
next
  case 5
  then show ?case by (simp add: work_left_def)
next
  case 8
  then show ?case by (simp add: complete_reads_work) (simp add: work_left_def)
next
  case 9
  then show ?case by (simp add: work_left_def)
qed (simp_all add: take_work process_batch_work submit_barrier_work)

text \<open>A stopped system with a worker that has not returned can take a step.\<close>

lemma all_proposals_iff: "system_ok s \<Longrightarrow> p < next_proposal s \<longleftrightarrow> p \<in> set (all_proposals s)"
  by (metis atLeastLessThan_iff le0 mset_eq_setD set_upt system_ok_def)

lemma stopped_progress:
  assumes "system_ok s" and "proposal_stopping s" and "read_stopping s"
    and "\<not> (proposal_worker s = P_exited \<and> read_worker s = R_exited)"
  shows "\<exists>s'. worker_step s s'"
proof -
  have empty: "proposal_queue s = []" "read_queue s = []"
    using assms(1-3) by (auto simp: system_ok_def)
  show ?thesis
  proof (cases "proposal_worker s")
    case P_idle
    then show ?thesis using worker_step.proposal_exit assms(2) empty(1) by blast
  next
    case P_collecting
    then show ?thesis using worker_step.proposals_taken by blast
  next
    case (P_batch b)
    then show ?thesis using worker_step.proposals_processed by blast
  next
    case P_exited
    show ?thesis
    proof (cases "read_worker s")
      case (R_waiting b p)
      then have "p < next_proposal s"
        using assms(1) by (simp add: system_ok_def)
      then have "p \<in> set (all_proposals s)"
        using all_proposals_iff [OF assms(1)] by simp
      then have "p \<in> fst ` set (proposals_done s)"
        using P_exited empty by (simp add: all_proposals_def)
      then show ?thesis using worker_step.reads_completed [OF R_waiting] by force
    qed (use worker_step.reads_taken worker_step.barrier_submitted
        worker_step.read_exit [OF _ assms(3) empty(2)] assms(4) P_exited in blast)+
  qed
qed

lemma stopping_flags [simp]:
  "proposal_stopping (snd (run_node_prog p s)) = proposal_stopping s"
  "read_stopping (snd (run_node_prog p s)) = read_stopping s"
  "proposal_stopping (snd (enqueue_proposal c s)) = proposal_stopping s"
  "read_stopping (snd (enqueue_proposal c s)) = read_stopping s"
  "proposal_stopping (take_proposals s) = proposal_stopping s"
  "read_stopping (take_proposals s) = read_stopping s"
  "proposal_stopping (take_reads s) = proposal_stopping s"
  "read_stopping (take_reads s) = read_stopping s"
  by (simp_all add: run_node_prog_def enqueue_proposal_def take_proposals_def take_reads_def Let_def case_prod_beta)

lemma stopping_flags_batches [simp]:
  "proposal_stopping (process_batch b s) = proposal_stopping s"
  "read_stopping (process_batch b s) = read_stopping s"
  "proposal_stopping (complete_reads r b' s) = proposal_stopping s"
  "read_stopping (complete_reads r b' s) = read_stopping s"
  by (simp_all add: process_batch_def complete_reads_def Let_def case_prod_beta)

lemma stopping_flags_submit [simp]:
  "proposal_stopping (snd (rn_submit c s)) = proposal_stopping s"
  "read_stopping (snd (rn_submit c s)) = read_stopping s"
  "proposal_stopping (submit_barrier b s) = proposal_stopping s"
  "read_stopping (submit_barrier b s) = read_stopping s"
  by (simp_all add: rn_submit_def submit_barrier_def Let_def case_prod_beta split: option.split sum.split)

lemma worker_step_stopping:
  assumes "worker_step s s'"
  shows "proposal_stopping s' = proposal_stopping s \<and> read_stopping s' = read_stopping s"
  using assms by (rule worker_stepE) simp_all

lemma workers_shut_down:
  assumes "system_ok s" and "proposal_stopping s" and "read_stopping s"
  shows "\<exists>s'. worker_step\<^sup>*\<^sup>* s s' \<and> proposal_worker s' = P_exited \<and> read_worker s' = R_exited"
  using assms
proof (induction "work_left s" arbitrary: s rule: less_induct)
  case less
  show ?case
  proof (cases "proposal_worker s = P_exited \<and> read_worker s = R_exited")
    case False
    then obtain s' where step: "worker_step s s'"
      using stopped_progress less.prems by blast
    then have "work_left s' < work_left s" "system_ok s'" "proposal_stopping s'" "read_stopping s'"
      using worker_step_work worker_step_ok worker_step_stopping less.prems by blast+
    then show ?thesis
      using less.hyps step by (meson converse_rtranclp_into_rtranclp)
  qed auto
qed


section \<open>Properties\<close>

text \<open>
  C16. At every moment of every interleaving of clients, workers, stops and restarts, each accepted
  request is in exactly one place: answered, in the batch of its worker, or queued. So no promise is set twice
  (which would throw) and no request is lost; batches respect their size limits, and a worker that
  has returned leaves an empty queue behind.
\<close>

theorem requests_answered_at_most_once:
  assumes "reachable s"
  shows "distinct (all_proposals s) \<and> set (all_proposals s) = {..<next_proposal s} \<and>
     distinct (all_reads s) \<and> set (all_reads s) = {..<next_read s} \<and>
     length (proposals_in_flight (proposal_worker s)) \<le> kMaximumProposalBatch \<and>
     length (reads_in_flight (read_worker s)) \<le> kMaximumReadBatch \<and>
     (proposal_worker s = P_exited \<longrightarrow> proposal_queue s = []) \<and>
     (read_worker s = R_exited \<longrightarrow> read_queue s = [])"
  using reachable_system_ok [OF assms] mset_eq_imp_distinct_iff [of "all_proposals s" "[0..<next_proposal s]"]
    mset_eq_imp_distinct_iff [of "all_reads s" "[0..<next_read s]"]
    mset_eq_setD [of "all_proposals s" "[0..<next_proposal s]"] mset_eq_setD [of "all_reads s" "[0..<next_read s]"]
  by (simp add: system_ok_def atLeast0LessThan del: mset_upt)

definition example_run :: "nat node_system" where
  "example_run = snd (enqueue_read ''k'' (snd (enqueue_proposal read_barrier
     (start_workers (initial_system example_node (\<lambda>_. example_instant))))))"

lemma example_run_reachable: "reachable example_run"
proof -
  have step: "reachable (snd (enqueue_proposal c s))" "reachable (snd (enqueue_read key s))"
    if "reachable s" for c key and s :: "nat node_system"
    using that reachable.step node_step.client_submit node_step.client_get by (metis surjective_pairing)+
  have "reachable (start_workers (initial_system example_node (\<lambda>_. example_instant)))"
    by (rule reachable.step [OF reachable.initial node_step.workers_started]) (simp_all add: initial_system_def)
  then show ?thesis
    unfolding example_run_def by (intro step)
qed

theorem requests_answered_at_most_once_witness:
  "all_proposals example_run = [0] \<and> next_proposal example_run = 1 \<and>
   all_reads example_run = [0] \<and> next_read example_run = 1 \<and>
   set (all_proposals example_run) = {..<next_proposal example_run} \<and>
   set (all_reads example_run) = {..<next_read example_run}"
  using requests_answered_at_most_once [OF example_run_reachable]
  by (simp add: example_run_def all_proposals_def all_reads_def enqueue_read_def enqueue_proposal_def
      start_workers_def initial_system_def example_node_def)

text \<open>
  C15. Stopping works: once \<^theory_text>\<open>stop_workers\<close> has set both flags, no worker is ever stuck, not
  even the reader that waits for a barrier the proposal worker has not processed yet. Every run of
  the workers can be continued until both have returned, and when they have, every request ever
  accepted has an answer.
\<close>

theorem stopped_workers_answer_everything:
  assumes "reachable s" and "proposal_stopping s" and "read_stopping s" and "worker_step\<^sup>*\<^sup>* s s'"
  shows "(proposal_worker s' = P_exited \<and> read_worker s' = R_exited \<or> (\<exists>s''. worker_step s' s'')) \<and>
     (\<exists>s''. worker_step\<^sup>*\<^sup>* s' s'' \<and> proposal_worker s'' = P_exited \<and> read_worker s'' = R_exited \<and>
        fst ` set (proposals_done s'') = {..<next_proposal s''} \<and>
        fst ` set (reads_done s'') = {..<next_read s''})"
proof -
  have keep: "system_ok t \<and> proposal_stopping t \<and> read_stopping t"
    if "worker_step\<^sup>*\<^sup>* u t" and "system_ok u \<and> proposal_stopping u \<and> read_stopping u" for u t :: "'a node_system"
    using that by (induction rule: rtranclp_induct) (auto simp: worker_step_ok worker_step_stopping)
  have s': "system_ok s'" "proposal_stopping s'" "read_stopping s'"
    using keep [OF assms(4)] reachable_system_ok [OF assms(1)] assms(2,3) by auto
  obtain s'' where s'': "worker_step\<^sup>*\<^sup>* s' s''" "proposal_worker s'' = P_exited" "read_worker s'' = R_exited"
    using workers_shut_down [OF s'] by auto
  then have ok: "system_ok s''"
    using keep s' by blast
  then have "proposal_queue s'' = []" "read_queue s'' = []"
    using s'' by (simp_all add: system_ok_def)
  then have "fst ` set (proposals_done s'') = {..<next_proposal s''}" "fst ` set (reads_done s'') = {..<next_read s''}"
    using ok s'' mset_eq_setD [of "all_proposals s''" "[0..<next_proposal s'']"]
      mset_eq_setD [of "all_reads s''" "[0..<next_read s'']"]
    by (simp_all add: system_ok_def all_proposals_def all_reads_def atLeast0LessThan del: mset_upt)
  then show ?thesis
    using stopped_progress [OF s'] s'' by blast
qed

theorem stopped_workers_answer_everything_witness:
  "\<exists>s. worker_step\<^sup>*\<^sup>* (stop_proposals (stop_reads example_run)) s \<and> proposal_worker s = P_exited \<and>
     read_worker s = R_exited \<and> fst ` set (proposals_done s) = {..<next_proposal s}"
proof -
  have 1: "reachable (stop_proposals (stop_reads example_run))"
    by (intro reachable.step [OF reachable.step [OF example_run_reachable node_step.reads_stopped]
        node_step.proposals_stopped]) (simp add: stop_reads_def)
  have 2: "proposal_stopping (stop_proposals (stop_reads example_run))"
    "read_stopping (stop_proposals (stop_reads example_run))"
    by (simp_all add: stop_proposals_def stop_reads_def)
  show ?thesis
    using stopped_workers_answer_everything [OF 1 2 rtranclp.rtrancl_refl] by blast
qed

text \<open>
  C17. The workers never spin: the steps of the two workers are well-founded, so without new requests
  from clients every run of them is finite, the barriers they submit to each other included.
\<close>

theorem workers_terminate: "wfp (\<lambda>s' s. worker_step s s')"
  by (rule wfp_if_convertible_to_nat [of _ work_left]) (rule worker_step_work)

end
