(* ===== verification/Resp.thy ===== *)
theory Resp
  imports Decimal
begin

text \<open>
  The RESP2 wire format, \<^verbatim>\<open>src/src/protocol/resp.{h,cpp}\<close>: values, the incremental parser and
  the encoders. The parser's functions take the part of the buffer from their offset on and return
  the part behind what they consumed, which is how the source uses its offsets. A parse returns
  \<open>Inr None\<close> when more bytes are needed and \<open>Inl\<close> a protocol error.

  The nesting depth is counted down: \<open>levels\<close> is \<open>max_depth + 1 - depth\<close>, so \<open>parse_value\<close> recurses
  structurally and terminates on every input. The theorems: parsing undoes encoding, whatever
  follows; a cut message is never an error; the outcome does not depend on how the bytes are cut
  into packets.
\<close>

section \<open>Values\<close>

datatype RespType = kSimpleString | kError | kRespInteger | kBulkString | kNullBulkString | kArray

datatype RespValue =
  RespValue (rv_type: RespType) (rv_text: string) (rv_integer: i64) (rv_array: "RespValue list")

definition RespValue_simple :: "string \<Rightarrow> RespValue" where
  "RespValue_simple t = RespValue kSimpleString t 0 []"

definition RespValue_error :: "string \<Rightarrow> RespValue" where
  "RespValue_error t = RespValue kError t 0 []"

definition RespValue_integer_value :: "i64 \<Rightarrow> RespValue" where
  "RespValue_integer_value i = RespValue kRespInteger '''' i []"

definition RespValue_bulk :: "string \<Rightarrow> RespValue" where
  "RespValue_bulk t = RespValue kBulkString t 0 []"

definition RespValue_null_bulk :: RespValue where
  "RespValue_null_bulk = RespValue kNullBulkString '''' 0 []"

definition RespValue_array_value :: "RespValue list \<Rightarrow> RespValue" where
  "RespValue_array_value vs = RespValue kArray '''' 0 vs"

lemmas resp_constructors =
  RespValue_simple_def RespValue_error_def RespValue_integer_value_def RespValue_bulk_def
  RespValue_null_bulk_def RespValue_array_value_def

abbreviation CR :: char where "CR \<equiv> CHR 0x0D"
abbreviation LF :: char where "LF \<equiv> CHR 0x0A"
abbreviation CRLF :: string where "CRLF \<equiv> [CR, LF]"

section \<open>Lines and numbers\<close>

fun find_crlf :: "string \<Rightarrow> nat option" where
  "find_crlf (c # d # s) = (if c = CR \<and> d = LF then Some 0 else map_option Suc (find_crlf (d # s)))"
| "find_crlf s = None"

fun find_lf :: "string \<Rightarrow> nat option" where
  "find_lf [] = None"
| "find_lf (c # s) = (if c = LF then Some 0 else map_option Suc (find_lf s))"

definition read_line :: "string \<Rightarrow> exn + (string \<times> string) option" where
  "read_line s =
     (let line_end = find_crlf s; bare_newline = find_lf s in
      if (case bare_newline of None \<Rightarrow> False
          | Some b \<Rightarrow> (case line_end of None \<Rightarrow> True | Some e \<Rightarrow> b < e + 1))
      then Inl (ProtocolError ''RESP line uses LF without CRLF'')
      else case line_end of
        None \<Rightarrow> Inr None
      | Some e \<Rightarrow> Inr (Some (take e s, drop (e + 2) s)))"

definition parse_number :: "string \<Rightarrow> string \<Rightarrow> exn + i64" where
  "parse_number text context =
     (if text = [] then Inl (ProtocolError (''empty '' @ context))
      else if hd text = CHR ''+'' then Inl (ProtocolError (''plus sign in '' @ context))
      else
        let negative = (hd text = CHR ''-'');
            digits = (if negative then tl text else text)
        in if digits = [] then Inl (ProtocolError (''invalid '' @ context))
           else
             let limit = (if negative then i64_max + 1 else i64_max) in
             case digit_loop limit 0 digits of
               Inl Non_digit \<Rightarrow> Inl (ProtocolError (''non-decimal '' @ context))
             | Inl Too_large \<Rightarrow> Inl (ProtocolError (''overflowing '' @ context))
             | Inr v \<Rightarrow> Inr (if \<not> negative then v else if v = limit then i64_min else - v))"

section \<open>The parser\<close>

type_synonym 'a parse = "exn + ('a \<times> string) option"

text \<open>The loop over the elements of an array.\<close>

primrec parse_children :: "(string \<Rightarrow> 'v parse) \<Rightarrow> nat \<Rightarrow> string \<Rightarrow> 'v list parse" where
  "parse_children child 0 s = Inr (Some ([], s))"
| "parse_children child (Suc n) s =
     bindE (child s) (\<lambda>r.
       case r of
         None \<Rightarrow> Inr None
       | Some (v, s) \<Rightarrow>
           bindE (parse_children child n s) (\<lambda>r. Inr (map_option (\<lambda>(vs, s). (v # vs, s)) r)))"

text \<open>The first step of every kind of value: read a line, return when it is not complete.\<close>

definition after_line :: "(string \<Rightarrow> string \<Rightarrow> 'v parse) \<Rightarrow> string \<Rightarrow> 'v parse" where
  "after_line continue s =
     bindE (read_line s) (\<lambda>line.
       case line of
         None \<Rightarrow> Inr None
       | Some (text, rest) \<Rightarrow> continue text rest)"

definition line_value :: "char \<Rightarrow> string \<Rightarrow> string \<Rightarrow> RespValue parse" where
  "line_value prefix text rest =
     (if prefix = CHR ''+'' then Inr (Some (RespValue_simple text, rest))
      else if prefix = CHR ''-'' then Inr (Some (RespValue_error text, rest))
      else bindE (parse_number text ''RESP integer'') (\<lambda>i. Inr (Some (RespValue_integer_value i, rest))))"

definition bulk_value :: "nat \<Rightarrow> string \<Rightarrow> string \<Rightarrow> RespValue parse" where
  "bulk_value max_request_size text rest =
     bindE (parse_number text ''bulk length'') (\<lambda>signed_length.
     if sint signed_length = - 1 then Inr (Some (RespValue_null_bulk, rest))
     else if sint signed_length < 0 \<or> unat signed_length > max_request_size
     then Inl (ProtocolError ''invalid bulk string length'')
     else
       let len = unat signed_length in
       if len > length rest then Inr None
       else if length rest - len < 2 then Inr None
       else if rest ! len \<noteq> CR \<or> rest ! (len + 1) \<noteq> LF
       then Inl (ProtocolError ''bulk string lacks trailing CRLF'')
       else Inr (Some (RespValue_bulk (take len rest), drop (len + 2) rest)))"

definition array_value :: "(string \<Rightarrow> RespValue parse) \<Rightarrow> nat \<Rightarrow> string \<Rightarrow> string \<Rightarrow> RespValue parse" where
  "array_value child max_request_size text rest =
     bindE (parse_number text ''array length'') (\<lambda>signed_count.
     if sint signed_count < 0 \<or> unat signed_count > max_request_size div 3
     then Inl (ProtocolError ''invalid RESP array length'')
     else
       bindE (parse_children child (unat signed_count) rest) (\<lambda>r.
         Inr (map_option (\<lambda>(vs, rest). (RespValue_array_value vs, rest)) r)))"

primrec parse_value :: "nat \<Rightarrow> nat \<Rightarrow> string \<Rightarrow> RespValue parse" where
  "parse_value 0 = (\<lambda>max_request_size s. Inl (ProtocolError ''RESP nesting exceeds limit''))"
| "parse_value (Suc levels) = (\<lambda>max_request_size s.
     case s of
       [] \<Rightarrow> Inr None
     | prefix # s \<Rightarrow>
         if prefix = CHR ''+'' \<or> prefix = CHR ''-'' \<or> prefix = CHR '':''
         then after_line (line_value prefix) s
         else if prefix = CHR ''$'' then after_line (bulk_value max_request_size) s
         else if prefix = CHR ''*''
         then after_line (array_value (parse_value levels max_request_size) max_request_size) s
         else Inl (ProtocolError ''unknown RESP type prefix''))"

record RespParser =
  max_request_size :: nat
  max_depth :: nat
  buffer :: string

definition new_parser :: "nat \<Rightarrow> nat \<Rightarrow> exn + RespParser" where
  "new_parser size_limit depth_limit =
     (if size_limit < 16 \<or> depth_limit = 0 then Inl (Invalid_argument ''invalid RESP parser limits'')
      else Inr \<lparr>max_request_size = size_limit, max_depth = depth_limit, buffer = ''''\<rparr>)"

definition feed :: "string \<Rightarrow> RespParser \<Rightarrow> exn + RespParser" where
  "feed data p =
     (if length data > max_request_size p - length (buffer p)
      then Inl (ProtocolError ''request exceeds max_request_size'')
      else Inr (p\<lparr>buffer := buffer p @ data\<rparr>))"

definition next_value :: "RespParser \<Rightarrow> exn + RespValue option \<times> RespParser" where
  "next_value p =
     (if buffer p = [] then Inr (None, p)
      else bindE (parse_value (Suc (max_depth p)) (max_request_size p) (buffer p)) (\<lambda>parsed.
        case parsed of
          None \<Rightarrow> Inr (None, p)
        | Some (v, rest) \<Rightarrow> Inr (Some v, p\<lparr>buffer := rest\<rparr>)))"

definition buffered_size :: "RespParser \<Rightarrow> nat" where
  "buffered_size p = length (buffer p)"

definition clear_buffer :: "RespParser \<Rightarrow> RespParser" where
  "clear_buffer p = p\<lparr>buffer := ''''\<rparr>"

section \<open>Encoders\<close>

definition contains_newline :: "string \<Rightarrow> bool" where
  "contains_newline s \<longleftrightarrow> list_ex (\<lambda>c. c = CR \<or> c = LF) s"

definition encode_simple_string :: "string \<Rightarrow> exn + string" where
  "encode_simple_string v =
     (if contains_newline v then Inl (Invalid_argument ''simple string contains newline'')
      else Inr (''+'' @ v @ CRLF))"

definition encode_error :: "string \<Rightarrow> exn + string" where
  "encode_error v =
     (if contains_newline v then Inl (Invalid_argument ''RESP error contains newline'')
      else Inr (''-'' @ v @ CRLF))"

definition encode_integer :: "i64 \<Rightarrow> string" where
  "encode_integer v = '':'' @ to_string_int (sint v) @ CRLF"

definition encode_bulk_string :: "string \<Rightarrow> string" where
  "encode_bulk_string v = ''$'' @ to_string_nat (length v) @ CRLF @ v @ CRLF"

definition encode_null_bulk_string :: string where
  "encode_null_bulk_string = ''$-1'' @ CRLF"

definition encode_array :: "string list \<Rightarrow> string" where
  "encode_array vs = ''*'' @ to_string_nat (length vs) @ CRLF @ concat (map encode_bulk_string vs)"

function encode_resp :: "RespValue \<Rightarrow> exn + string" where
  "encode_resp (RespValue t text i vs) =
     (case t of
        kSimpleString \<Rightarrow> encode_simple_string text
      | kError \<Rightarrow> encode_error text
      | kRespInteger \<Rightarrow> Inr (encode_integer i)
      | kBulkString \<Rightarrow> Inr (encode_bulk_string text)
      | kNullBulkString \<Rightarrow> Inr encode_null_bulk_string
      | kArray \<Rightarrow>
          foldE (\<lambda>child output. bindE (encode_resp child) (\<lambda>e. Inr (output @ e))) vs
            (''*'' @ to_string_nat (length vs) @ CRLF))"
  by pat_completeness auto

termination
  by (relation "measure size") (auto dest: size_list_estimation' [of _ _ _ size])

definition command_arguments :: "RespValue \<Rightarrow> exn + string list" where
  "command_arguments v =
     (if rv_type v \<noteq> kArray \<or> rv_array v = []
      then Inl (ProtocolError ''command must be a non-empty RESP array'')
      else foldE (\<lambda>item output.
        if rv_type item \<noteq> kBulkString \<and> rv_type item \<noteq> kSimpleString
        then Inl (ProtocolError ''command arguments must be bulk or simple strings'')
        else Inr (output @ [rv_text item])) (rv_array v) [])"

section \<open>Lines\<close>

lemma find_lf_split: "LF \<notin> set a \<Longrightarrow> find_lf (a @ LF # b) = Some (length a)"
  by (induction a) auto

lemma find_lf_None: "LF \<notin> set s \<Longrightarrow> find_lf s = None"
  by (induction s) auto

lemma find_crlf_None: "LF \<notin> set s \<Longrightarrow> find_crlf s = None"
  by (induction s rule: find_crlf.induct) auto

lemma find_crlf_split:
  "LF \<notin> set a \<Longrightarrow> a \<noteq> [] \<Longrightarrow> last a = CR \<Longrightarrow> find_crlf (a @ LF # b) = Some (length a - 1)"
proof (induction a)
  case (Cons c a)
  then show ?case by (cases a) auto
qed simp

lemma find_crlf_behind:
  assumes "LF \<notin> set a" and "a = [] \<or> last a \<noteq> CR"
  shows "find_crlf (a @ LF # b) = Some e \<Longrightarrow> length a \<le> e"
  using assms
proof (induction a arbitrary: e)
  case (Cons c a)
  show ?case
  proof (cases a)
    case Nil
    then show ?thesis using Cons.prems by (auto split: if_splits)
  next
    case (Cons d a')
    with Cons.IH Cons.prems obtain e' where "e = Suc e'" "find_crlf (a @ LF # b) = Some e'"
      by auto
    with Cons.IH [of e'] Cons.prems Cons show ?thesis by simp
  qed
qed simp

text \<open>The first line feed decides what \<open>read_line\<close> returns.\<close>

lemma read_line_None [simp]: "LF \<notin> set s \<Longrightarrow> read_line s = Inr None"
  by (simp add: read_line_def find_lf_None find_crlf_None)

lemma read_line_split:
  assumes "LF \<notin> set a"
  shows "read_line (a @ LF # b) =
    (if a \<noteq> [] \<and> last a = CR then Inr (Some (butlast a, b))
     else Inl (ProtocolError ''RESP line uses LF without CRLF''))"
proof (cases "a \<noteq> [] \<and> last a = CR")
  case True
  then obtain a' where a: "a = a' @ [CR]" by (metis append_butlast_last_id)
  have "find_crlf (a @ LF # b) = Some (length a')"
    using find_crlf_split [OF assms] a by simp
  then show ?thesis
    using a find_lf_split [OF assms, of b] by (simp add: read_line_def)
next
  case False
  then have "find_crlf (a @ LF # b) = Some e \<Longrightarrow> length a < e + 1" for e
    using find_crlf_behind [OF assms] by (metis less_Suc_eq_le Suc_eq_plus1)
  then show ?thesis
    using False find_lf_split [OF assms, of b]
    by (auto simp: read_line_def Let_def split: option.split)
qed

lemma read_line_text [simp]: "LF \<notin> set a \<Longrightarrow> read_line (a @ CR # LF # b) = Inr (Some (a, b))"
  using read_line_split [of "a @ [CR]" b] by simp

lemma read_line_cases:
  obtains (more) "LF \<notin> set s" "read_line s = Inr None"
  | (line) a b where "s = a @ CR # LF # b" "LF \<notin> set a" "read_line s = Inr (Some (a, b))"
  | (bare) a b where "s = a @ LF # b" "LF \<notin> set a"
      "read_line s = Inl (ProtocolError ''RESP line uses LF without CRLF'')"
      "\<And>t. read_line (s @ t) = Inl (ProtocolError ''RESP line uses LF without CRLF'')"
proof (cases "LF \<in> set s")
  case False
  then show ?thesis using more by simp
next
  case True
  then obtain a b where s: "s = a @ LF # b" "LF \<notin> set a" by (meson split_list_first)
  show ?thesis
  proof (cases "a \<noteq> [] \<and> last a = CR")
    case True
    then have "a = butlast a @ [CR]" by (metis append_butlast_last_id)
    then have "s = butlast a @ CR # LF # b" "LF \<notin> set (butlast a)"
      using s by (metis append.assoc append_Cons append_Nil, metis in_set_butlastD s(2))
    then show ?thesis by (intro line) simp_all
  next
    case False
    then show ?thesis using bare [OF s] read_line_split [OF s(2)] s(1) by simp
  qed
qed

lemma read_line_more:
  "read_line s = Inr (Some (a, b)) \<Longrightarrow> read_line (s @ t) = Inr (Some (a, b @ t))"
  "read_line s = Inl e \<Longrightarrow> read_line (s @ t) = Inl e"
  by (cases s rule: read_line_cases; simp)+

lemma read_line_shrinks: "read_line s = Inr (Some (a, b)) \<Longrightarrow> length b < length s"
  by (cases s rule: read_line_cases) auto

section \<open>Numbers\<close>

text \<open>
  \<open>parse_number\<close> accepts the signed decimal numerals without a plus sign whose value fits into
  64 bits, and returns that value.
\<close>

lemma parse_number_signed:
  assumes "text \<noteq> []" and "hd text \<noteq> CHR ''+''"
  defines "negative \<equiv> hd text = CHR ''-''"
  defines "ds \<equiv> if negative then tl text else text"
  shows "(\<exists>e. parse_number text ctx = Inl e) \<and> (ds = [] \<or> signed_digits_value negative ds = None) \<or>
    (\<exists>v. parse_number text ctx = Inr v \<and> ds \<noteq> [] \<and> signed_digits_value negative ds = Some v)"
  using assms(1,2) unfolding negative_def ds_def
  by (auto simp: parse_number_def signed_digits_value_def Let_def
      split: sum.splits digit_error.splits)

lemma parse_number_int_text:
  "(case parse_number text ctx of Inl e \<Rightarrow> None | Inr v \<Rightarrow> Some v) =
     (if text \<noteq> [] \<and> hd text = CHR ''+'' then None else map_option of_int (int_text text))"
proof (cases "text = [] \<or> hd text = CHR ''+''")
  case True
  then show ?thesis by (auto simp: parse_number_def int_text_def numeral_value_def)
next
  case False
  then show ?thesis
    using parse_number_signed [of "text" ctx]
    by (auto simp: int_text_def numeral_value_def signed_digits Let_def split: if_splits)
qed

lemma parse_number_eq:
  assumes "int_text text = Some v" and "text \<noteq> []" and "hd text \<noteq> CHR ''+''"
  shows "parse_number text ctx = Inr (of_int v)"
  using parse_number_int_text [of "text" ctx] assms by (simp split: sum.splits)

lemma int64_range_nat: "n < 2 ^ 63 \<Longrightarrow> int64_range (int n)"
  by (simp add: int64_range_def)

lemma parse_number_nat [simp]:
  "n < 2 ^ 63 \<Longrightarrow> parse_number (to_string_nat n) context = Inr (of_nat n)"
  using int_text_to_string_int [OF int64_range_nat, of n]
  by (subst parse_number_eq [of _ "int n"]) (simp_all add: to_string_int_def hd_to_string_nat)

lemma parse_number_int [simp]: "parse_number (to_string_int (sint i)) context = Inr i"
  by (subst parse_number_eq [of _ "sint i"])
    (simp_all add: int_text_to_string_int, simp_all add: to_string_int_def hd_to_string_nat)

lemma LF_not_digit: "LF \<notin> set (to_string_nat n)" "LF \<notin> set (to_string_int i)"
  by (auto simp: to_string_int_def is_digit_def dest: digits_to_string_nat)

lemma small_length:
  assumes "n < 2 ^ 63"
  shows "sint (of_nat n :: i64) = int n" and "unat (of_nat n :: i64) = n"
proof -
  show "sint (of_nat n :: i64) = int n"
    using sint_of_int64 [OF int64_range_nat [OF assms]] by simp
  show "unat (of_nat n :: i64) = n"
    using assms by (simp add: unat_of_nat)
qed

section \<open>Parsing an input that arrives in pieces\<close>

text \<open>
  The contract an incremental parser owes to a reader that appends bytes as they come: what it
  decided on a part of the input stays decided when more input follows, and a completed value
  uses up at least one byte.
\<close>

locale stable_parser =
  fixes parse :: "string \<Rightarrow> 'v parse"
  assumes completed: "parse s = Inr (Some (v, r)) \<Longrightarrow> parse (s @ t) = Inr (Some (v, r @ t))"
    and rejected: "parse s = Inl e \<Longrightarrow> parse (s @ t) = Inl e"
    and no_growth: "parse s = Inr (Some (v, r)) \<Longrightarrow> length r \<le> length s"

locale incremental_parser = stable_parser +
  assumes progress: "parse s = Inr (Some (v, r)) \<Longrightarrow> length r < length s"

text \<open>All values at the head of an input, with the error or the incomplete rest behind them.\<close>

function drain :: "(string \<Rightarrow> 'v parse) \<Rightarrow> string \<Rightarrow> 'v list \<times> (exn + string)" where
  "drain parse s =
     (case parse s of
        Inl e \<Rightarrow> ([], Inl e)
      | Inr None \<Rightarrow> ([], Inr s)
      | Inr (Some (v, r)) \<Rightarrow>
          if length r < length s then map_prod ((#) v) id (drain parse r) else ([v], Inr r))"
  by pat_completeness auto

termination
  by (relation "measure (\<lambda>(parse, s). length s)") auto

declare drain.simps [simp del]

context incremental_parser
begin

lemma cut_message_waits:
  assumes "parse s = Inr (Some (v, []))" and "k < length s"
  shows "parse (take k s) = Inr None"
proof (cases "parse (take k s)")
  case (Inl e)
  then show ?thesis using rejected [OF Inl, of "drop k s"] assms by simp
next
  case (Inr x)
  show ?thesis
  proof (cases x)
    case (Some y)
    obtain w r where "parse (take k s) = Inr (Some (w, r))" using Inr Some by (cases y) auto
    from completed [OF this, of "drop k s"] assms show ?thesis by simp
  qed (simp add: Inr)
qed

lemma drain_append:
  "drain parse (s @ t) =
     (case drain parse s of
        (vs, Inl e) \<Rightarrow> (vs, Inl e)
      | (vs, Inr r) \<Rightarrow> map_prod ((@) vs) id (drain parse (r @ t)))"
proof (induction "length s" arbitrary: s rule: less_induct)
  case less
  show ?case
  proof (cases "parse s")
    case (Inl e)
    then show ?thesis
      using rejected [OF Inl, of t] by (simp add: drain.simps [of parse s] drain.simps [of parse "s @ t"])
  next
    case (Inr x)
    show ?thesis
    proof (cases x)
      case None
      with Inr show ?thesis by (simp add: drain.simps [of parse s] map_prod_def)
    next
      case (Some y)
      with Inr obtain v r where p: "parse s = Inr (Some (v, r))" by (cases y) auto
      note q = completed [OF p, of t] and l = progress [OF p]
      show ?thesis
        using less [OF l] p q l
        by (simp add: drain.simps [of parse s] drain.simps [of parse "s @ t"] map_prod_def
            split: prod.splits sum.splits)
    qed
  qed
qed

lemma drain_rest: "drain parse s = (vs, Inr r) \<Longrightarrow> length r \<le> length s"
proof (induction "length s" arbitrary: s vs rule: less_induct)
  case less
  show ?case
  proof (cases "\<exists>v q. parse s = Inr (Some (v, q))")
    case True
    then obtain v q where p: "parse s = Inr (Some (v, q))" by blast
    with less.prems progress [OF p] obtain ws where "drain parse q = (ws, Inr r)"
      by (auto simp: drain.simps [of parse s] map_prod_def split: prod.splits)
    then show ?thesis using less.hyps progress [OF p] by fastforce
  next
    case False
    then show ?thesis using less.prems
      by (auto simp: drain.simps [of parse s] split: sum.splits option.splits)
  qed
qed

lemma drain_message:
  assumes "parse m = Inr (Some (v, []))"
  shows "drain parse (m @ t) = map_prod ((#) v) id (drain parse t)"
  using completed [OF assms, of t] progress [OF assms]
  by (simp add: drain.simps [of parse "m @ t"])

end

section \<open>The RESP parser is incremental\<close>

lemma after_line_incremental:
  assumes "\<And>text. stable_parser (continue text)"
  shows "incremental_parser (after_line continue)"
proof unfold_locales
  fix s v r t e
  note laws = stable_parser.completed [OF assms] stable_parser.rejected [OF assms]
  show c: "after_line continue s = Inr (Some (v, r)) \<Longrightarrow> after_line continue (s @ t) = Inr (Some (v, r @ t))"
    by (cases s rule: read_line_cases) (auto simp: after_line_def laws dest: read_line_more [where t = t])
  show "after_line continue s = Inl e \<Longrightarrow> after_line continue (s @ t) = Inl e"
    by (cases s rule: read_line_cases) (auto simp: after_line_def laws dest: read_line_more [where t = t])
  show "after_line continue s = Inr (Some (v, r)) \<Longrightarrow> length r < length s"
    by (cases s rule: read_line_cases)
      (auto simp: after_line_def dest!: stable_parser.no_growth [OF assms] read_line_shrinks)
  then show "after_line continue s = Inr (Some (v, r)) \<Longrightarrow> length r \<le> length s" by simp
qed

lemma line_value_stable: "stable_parser (line_value c text)"
  by unfold_locales (auto simp: line_value_def bindE_eq_Inl_iff exn_simps split: if_splits)

lemma bulk_value_stable: "stable_parser (bulk_value mx text)"
proof (cases "parse_number text ''bulk length''")
  case (Inl e)
  then show ?thesis by unfold_locales (simp_all add: bulk_value_def)
next
  case (Inr n)
  then show ?thesis
    by unfold_locales (auto simp: bulk_value_def Let_def nth_append split: if_splits)
qed

context incremental_parser
begin

lemma children_completed:
  "parse_children parse n s = Inr (Some (vs, r)) \<Longrightarrow> parse_children parse n (s @ t) = Inr (Some (vs, r @ t))"
  by (induction n arbitrary: s vs) (fastforce simp: exn_simps completed split: option.splits)+

lemma children_rejected:
  "parse_children parse n s = Inl e \<Longrightarrow> parse_children parse n (s @ t) = Inl e"
proof (induction n arbitrary: s)
  case (Suc n)
  from Suc.prems consider "parse s = Inl e"
    | v r where "parse s = Inr (Some (v, r))" "parse_children parse n r = Inl e"
    by (auto simp: bindE_eq_Inl_iff split: option.splits)
  then show ?case by cases (simp_all add: rejected completed Suc.IH)
qed simp

lemma children_shrink:
  "parse_children parse n s = Inr (Some (vs, r)) \<Longrightarrow> length r \<le> length s"
proof (induction n arbitrary: s vs)
  case (Suc n)
  then obtain v q ws where "parse s = Inr (Some (v, q))" "parse_children parse n q = Inr (Some (ws, r))"
    by (auto simp: exn_simps split: option.splits)
  then show ?case using progress Suc.IH by fastforce
qed simp

lemma children_messages:
  assumes "\<And>m v. (m, v) \<in> set ms \<Longrightarrow> parse m = Inr (Some (v, []))"
  shows "parse_children parse (length ms) (concat (map fst ms) @ t) = Inr (Some (map snd ms, t))"
  using assms
proof (induction ms)
  case (Cons mv ms)
  obtain m v where mv: "mv = (m, v)" by (cases mv)
  have "parse (m @ concat (map fst ms) @ t) = Inr (Some (v, concat (map fst ms) @ t))"
    using completed [of m v "[]"] Cons.prems mv by simp
  then show ?case using Cons mv by simp
qed simp

end

lemma array_value_stable:
  assumes "incremental_parser child"
  shows "stable_parser (array_value child mx text)"
  using incremental_parser.children_completed [OF assms] incremental_parser.children_rejected [OF assms]
    incremental_parser.children_shrink [OF assms]
  by unfold_locales
    (fastforce simp: array_value_def bindE_eq_Inl_iff exn_simps split: if_splits)+

lemma parse_value_incremental: "incremental_parser (parse_value levels mx)"
proof (induction levels)
  case 0
  then show ?case by unfold_locales simp_all
next
  case (Suc levels)
  note ls = after_line_incremental [OF line_value_stable]
    after_line_incremental [OF bulk_value_stable]
    after_line_incremental [OF array_value_stable [OF Suc.IH]]
  have "incremental_parser (\<lambda>s. parse_value (Suc levels) mx (c # s))" for c
    by (cases "c = CHR ''+'' \<or> c = CHR ''-'' \<or> c = CHR '':'' \<or> c = CHR ''$'' \<or> c = CHR ''*''")
      (auto simp: ls cong: if_cong, unfold_locales, simp_all)
  note laws = incremental_parser.axioms(1) [OF this, THEN stable_parser.completed]
    incremental_parser.axioms(1) [OF this, THEN stable_parser.rejected]
    incremental_parser.progress [OF this]
  show ?case
  proof unfold_locales
    fix s v r t e
    show "parse_value (Suc levels) mx s = Inr (Some (v, r)) \<Longrightarrow>
        parse_value (Suc levels) mx (s @ t) = Inr (Some (v, r @ t))"
      using laws(1) [of _ _ v r t] by (cases s) (simp, simp only: append_Cons)
    show "parse_value (Suc levels) mx s = Inl e \<Longrightarrow> parse_value (Suc levels) mx (s @ t) = Inl e"
      using laws(2) [of _ _ e t] by (cases s) (simp, simp only: append_Cons)
    show "parse_value (Suc levels) mx s = Inr (Some (v, r)) \<Longrightarrow> length r < length s"
      using laws(3) [of _ _ v r] by (cases s) (simp, fastforce simp only: list.size)
    then show "parse_value (Suc levels) mx s = Inr (Some (v, r)) \<Longrightarrow> length r \<le> length s" by simp
  qed
qed

interpretation rp: incremental_parser "parse_value levels mx"
  by (rule parse_value_incremental)

section \<open>Parsing what was encoded\<close>

text \<open>
  The values that fit on the wire: nested no deeper than \<open>levels\<close>, lengths within the request
  limit, no line break in a line, and the fields a type does not use at their defaults, as the
  named constructors of \<open>RespValue\<close> leave them.
\<close>

primrec resp_ok :: "nat \<Rightarrow> nat \<Rightarrow> RespValue \<Rightarrow> bool" where
  "resp_ok 0 = (\<lambda>mx v. False)"
| "resp_ok (Suc levels) = (\<lambda>mx v.
     case v of RespValue t text i vs \<Rightarrow>
       (case t of
          kSimpleString \<Rightarrow> v = RespValue_simple text \<and> \<not> contains_newline text
        | kError \<Rightarrow> v = RespValue_error text \<and> \<not> contains_newline text
        | kRespInteger \<Rightarrow> v = RespValue_integer_value i
        | kBulkString \<Rightarrow> v = RespValue_bulk text \<and> length text \<le> mx
        | kNullBulkString \<Rightarrow> v = RespValue_null_bulk
        | kArray \<Rightarrow> v = RespValue_array_value vs \<and> length vs \<le> mx div 3 \<and> list_all (resp_ok levels mx) vs))"

lemma no_newline_LF: "\<not> contains_newline s \<Longrightarrow> LF \<notin> set s"
  by (auto simp: contains_newline_def list_ex_iff)

lemma parse_bulk_string:
  assumes "length s \<le> mx" and "mx < 2 ^ 63"
  shows "parse_value (Suc l) mx (encode_bulk_string s) = Inr (Some (RespValue_bulk s, []))"
proof -
  have n: "length s < 2 ^ 63" using assms by linarith
  show ?thesis
    using assms(1) n
    by (simp add: encode_bulk_string_def after_line_def LF_not_digit bulk_value_def small_length nth_append)
qed

lemma parse_line_values:
  "\<not> contains_newline s \<Longrightarrow>
    parse_value (Suc l) mx (CHR ''+'' # s @ CRLF) = Inr (Some (RespValue_simple s, []))"
  "\<not> contains_newline s \<Longrightarrow>
    parse_value (Suc l) mx (CHR ''-'' # s @ CRLF) = Inr (Some (RespValue_error s, []))"
  "parse_value (Suc l) mx (encode_integer i) = Inr (Some (RespValue_integer_value i, []))"
  by (simp_all add: encode_integer_def after_line_def line_value_def no_newline_LF LF_not_digit)

lemma parse_null_bulk: "parse_value (Suc l) mx encode_null_bulk_string = Inr (Some (RespValue_null_bulk, []))"
proof -
  have "int64_range (- 1)" by (simp add: int64_range_def)
  then have "parse_number ''-1'' c = Inr (of_int (- 1))" for c
    by (intro parse_number_eq) (simp_all add: int_text_def numeral_value_def is_digit_def decimal_value_def digit_value_def)
  then show ?thesis
    using read_line_text [of "''-1''" "[]"]
    by (simp add: encode_null_bulk_string_def after_line_def bulk_value_def)
qed

lemma parse_array_header:
  assumes "length vs \<le> mx div 3" and "mx < 2 ^ 63"
  shows "parse_value (Suc l) mx (''*'' @ to_string_nat (length vs) @ CRLF @ body) =
    bindE (parse_children (parse_value l mx) (length vs) body) (\<lambda>r.
      Inr (map_option (\<lambda>(vs, rest). (RespValue_array_value vs, rest)) r))"
proof -
  have n: "length vs < 2 ^ 63" using assms by linarith
  show ?thesis
    using assms(1) n by (simp add: after_line_def LF_not_digit array_value_def small_length)
qed

lemma foldE_encode:
  "(\<And>v. v \<in> set vs \<Longrightarrow> encode_resp v = Inr (g v)) \<Longrightarrow>
    foldE (\<lambda>child output. bindE (encode_resp child) (\<lambda>e. Inr (output @ e))) vs acc =
      Inr (acc @ concat (map g vs))"
  by (induction vs arbitrary: acc) auto

lemma encode_resp_parses:
  assumes "mx < 2 ^ 63"
  shows "resp_ok levels mx v \<Longrightarrow>
    \<exists>m. encode_resp v = Inr m \<and> parse_value levels mx m = Inr (Some (v, []))"
proof (induction levels arbitrary: v)
  case (Suc levels)
  obtain t s i vs where v: "v = RespValue t s i vs" by (cases v)
  show ?case
  proof (cases t)
    case kArray
    with Suc.prems v have vs: "v = RespValue_array_value vs" "length vs \<le> mx div 3"
        "\<And>w. w \<in> set vs \<Longrightarrow> resp_ok levels mx w" by (auto simp: list_all_iff)
    from vs(3) Suc.IH obtain g where g: "\<And>w. w \<in> set vs \<Longrightarrow>
        encode_resp w = Inr (g w) \<and> parse_value levels mx (g w) = Inr (Some (w, []))" by metis
    let ?m = "''*'' @ to_string_nat (length vs) @ CRLF @ concat (map g vs)"
    have "encode_resp v = Inr ?m"
      using foldE_encode [of vs g] g vs(1) by (simp add: RespValue_array_value_def)
    moreover have "parse_children (parse_value levels mx) (length vs) (concat (map g vs)) = Inr (Some (vs, []))"
      using rp.children_messages [of "map (\<lambda>w. (g w, w)) vs" levels mx "[]"] g
      by (fastforce simp: comp_def)
    then have "parse_value (Suc levels) mx ?m = Inr (Some (v, []))"
      using vs(1) by (subst parse_array_header [OF vs(2) assms]) simp
    ultimately show ?thesis by blast
  next
    case kBulkString
    then show ?thesis using Suc.prems v parse_bulk_string [OF _ assms, of s levels]
      by (auto simp: RespValue_bulk_def)
  qed (use Suc.prems v parse_line_values(1,2) [of s levels mx] parse_line_values(3) [of levels mx i]
      parse_null_bulk [of levels mx]
      in \<open>auto simp: encode_simple_string_def encode_error_def resp_constructors\<close>)
qed simp

section \<open>The parser object\<close>

lemma parse_value_Nil [simp]: "parse_value (Suc l) mx [] = Inr None"
  by simp

declare parse_value.simps [simp del]

definition parser_wf :: "RespParser \<Rightarrow> bool" where
  "parser_wf p \<longleftrightarrow>
     16 \<le> max_request_size p \<and> 0 < max_depth p \<and> length (buffer p) \<le> max_request_size p"

lemma new_parser_wf [inv_intros]: "new_parser s d = Inr p \<Longrightarrow> parser_wf p"
  by (auto simp: new_parser_def parser_wf_def split: if_splits)

lemma feed_wf [inv_intros]: "feed data p = Inr q \<Longrightarrow> parser_wf p \<Longrightarrow> parser_wf q"
  by (auto simp: feed_def parser_wf_def split: if_splits)

lemma next_value_shrinks: "next_value p = Inr (Some v, q) \<Longrightarrow> length (buffer q) < length (buffer p)"
  using rp.progress [of "Suc (max_depth p)" "max_request_size p" "buffer p"]
  by (auto simp: next_value_def exn_simps split: if_splits option.splits)

lemma next_value_wf [inv_intros]: "next_value p = Inr (r, q) \<Longrightarrow> parser_wf p \<Longrightarrow> parser_wf q"
  using rp.no_growth [of "Suc (max_depth p)" "max_request_size p" "buffer p"]
  by (auto simp: next_value_def parser_wf_def exn_simps split: if_splits option.splits)

text \<open>The readers' loop \<^theory_text>\<open>while (auto value = parser.next())\<close>, up to an exception.\<close>

function next_values :: "RespParser \<Rightarrow> RespValue list \<times> (exn + RespParser)" where
  "next_values p =
     (case next_value p of
        Inl e \<Rightarrow> ([], Inl e)
      | Inr (None, q) \<Rightarrow> ([], Inr q)
      | Inr (Some v, q) \<Rightarrow> map_prod ((#) v) id (next_values q))"
  by pat_completeness auto

termination
  by (relation "measure (\<lambda>p. length (buffer p))") (auto dest: next_value_shrinks)

declare next_values.simps [simp del]

text \<open>Each packet is fed and then all complete values are taken out.\<close>

primrec receive :: "string list \<Rightarrow> RespParser \<Rightarrow> RespValue list \<times> (exn + RespParser)" where
  "receive [] p = ([], Inr p)"
| "receive (d # ds) p =
     (case feed d p of
        Inl e \<Rightarrow> ([], Inl e)
      | Inr q \<Rightarrow>
          (case next_values q of
             (vs, Inl e) \<Rightarrow> (vs, Inl e)
           | (vs, Inr q) \<Rightarrow> map_prod ((@) vs) id (receive ds q)))"

abbreviation parser_drain :: "RespParser \<Rightarrow> string \<Rightarrow> RespValue list \<times> (exn + string)" where
  "parser_drain p \<equiv> drain (parse_value (Suc (max_depth p)) (max_request_size p))"

lemma drain_Nil [simp]: "drain (parse_value (Suc l) mx) [] = ([], Inr [])"
  by (simp add: drain.simps [of _ "[]"])

lemma next_values_drain:
  "next_values p = map_prod id (map_sum id (\<lambda>r. p\<lparr>buffer := r\<rparr>)) (parser_drain p (buffer p))"
proof (induction p rule: next_values.induct)
  case (1 p)
  show ?case
  proof (cases "buffer p = []")
    case True
    then have "next_values p = ([], Inr p)" "p\<lparr>buffer := []\<rparr> = p"
      by (simp add: next_values.simps [of p] next_value_def) (cases p, use True in simp)
    then show ?thesis using True by simp
  next
    case ne: False
    note d = drain.simps [of "parse_value (Suc (max_depth p)) (max_request_size p)" "buffer p"]
    show ?thesis
    proof (cases "parse_value (Suc (max_depth p)) (max_request_size p) (buffer p)")
      case (Inl e)
      then show ?thesis using ne by (simp add: next_values.simps [of p] next_value_def d)
    next
      case (Inr x)
      show ?thesis
      proof (cases x)
        case None
        then show ?thesis using ne Inr by (simp add: next_values.simps [of p] next_value_def d)
      next
        case (Some y)
        obtain v r where y: "y = (v, r)" by (cases y)
        have n: "next_value p = Inr (Some v, p\<lparr>buffer := r\<rparr>)"
          using Inr Some y ne by (simp add: next_value_def)
        show ?thesis
          using 1 [OF n refl refl] Inr Some y rp.progress [of _ _ "buffer p" v r]
          by (simp add: next_values.simps [of p] n d map_prod_def split: prod.splits)
      qed
    qed
  qed
qed

lemma receive_drain:
  assumes "length (buffer p) + length (concat ds) \<le> max_request_size p" and "ds \<noteq> []"
  shows "receive ds p =
    map_prod id (map_sum id (\<lambda>r. p\<lparr>buffer := r\<rparr>)) (parser_drain p (buffer p @ concat ds))"
  using assms
proof (induction ds arbitrary: p)
  case (Cons d ds)
  let ?q = "p\<lparr>buffer := buffer p @ d\<rparr>"
  have f: "feed d p = Inr ?q" using Cons.prems by (simp add: feed_def)
  note n = next_values_drain [of ?q]
  obtain vs x where d: "parser_drain p (buffer p @ d) = (vs, x)" by fastforce
  have da: "parser_drain p (buffer p @ d @ t) =
    (case x of Inl e \<Rightarrow> (vs, Inl e) | Inr r \<Rightarrow> map_prod ((@) vs) id (parser_drain p (r @ t)))" for t
    using rp.drain_append [of "Suc (max_depth p)" "max_request_size p" "buffer p @ d" t] d
    by (simp split: sum.splits)
  show ?case
  proof (cases x)
    case (Inl e)
    then show ?thesis using f n d da by simp
  next
    case (Inr r)
    have l: "length r \<le> length (buffer p @ d)"
      using rp.drain_rest d Inr by metis
    show ?thesis
    proof (cases ds)
      case Nil
      then show ?thesis using f n d Inr by simp
    next
      case c: (Cons d' ds')
      show ?thesis
        using f n d da Inr Cons.IH [of "p\<lparr>buffer := r\<rparr>"] Cons.prems l c
        by (simp add: map_prod_def split: prod.splits)
    qed
  qed
qed simp

lemma parse_encoded_command:
  assumes "length args \<le> mx div 3" and "\<And>a. a \<in> set args \<Longrightarrow> length a \<le> mx" and "mx < 2 ^ 63"
  shows "parse_value (Suc (Suc l)) mx (encode_array args) =
    Inr (Some (RespValue_array_value (map RespValue_bulk args), []))"
proof -
  have "parse_children (parse_value (Suc l) mx) (length args) (concat (map encode_bulk_string args)) =
    Inr (Some (map RespValue_bulk args, []))"
    using rp.children_messages [of "map (\<lambda>a. (encode_bulk_string a, RespValue_bulk a)) args" "Suc l" mx "[]"]
      parse_bulk_string [OF _ assms(3)] assms(2)
    by (fastforce simp: comp_def)
  then show ?thesis
    using parse_array_header [OF assms(1,3), of "Suc l"] by (simp add: encode_array_def)
qed

lemma command_arguments_bulk:
  assumes "args \<noteq> []"
  shows "command_arguments (RespValue_array_value (map RespValue_bulk args)) = Inr args"
proof -
  have "foldE (\<lambda>item output.
        if rv_type item \<noteq> kBulkString \<and> rv_type item \<noteq> kSimpleString
        then Inl (ProtocolError ''command arguments must be bulk or simple strings'')
        else Inr (output @ [rv_text item])) (map RespValue_bulk args) acc = Inr (acc @ args)" for acc
    by (induction args arbitrary: acc) (simp_all add: RespValue_bulk_def)
  from this [of "[]"] assms show ?thesis by (simp add: command_arguments_def RespValue_array_value_def)
qed

text \<open>The commands a client may pipeline: each a non-empty array within the request limit.\<close>

definition command_ok :: "nat \<Rightarrow> string list \<Rightarrow> bool" where
  "command_ok mx args \<longleftrightarrow> args \<noteq> [] \<and> length args \<le> mx div 3 \<and> list_all (\<lambda>a. length a \<le> mx) args"

lemma drain_commands:
  assumes "list_all (command_ok mx) cmds" and "mx < 2 ^ 63" and "0 < d"
  shows "drain (parse_value (Suc d) mx) (concat (map encode_array cmds)) =
    (map (\<lambda>args. RespValue_array_value (map RespValue_bulk args)) cmds, Inr [])"
  using assms(1)
proof (induction cmds)
  case (Cons args cmds)
  obtain l where d: "d = Suc l" using assms(3) by (cases d) auto
  have "parse_value (Suc d) mx (encode_array args) =
      Inr (Some (RespValue_array_value (map RespValue_bulk args), []))"
    using parse_encoded_command [OF _ _ assms(2)] Cons.prems by (simp add: command_ok_def list_all_iff d)
  from rp.drain_message [OF this] Cons show ?case by simp
qed simp

text \<open>
  A piece of a stream of commands holds the first commands completely and an incomplete part of the next
  one, which waits in the buffer.
\<close>

lemma stream_piece:
  "a @ b = concat (map encode_array cmds) \<Longrightarrow>
     \<exists>cs rest tail. cmds = cs @ rest \<and> a = concat (map encode_array cs) @ tail \<and>
       tail @ b = concat (map encode_array rest) \<and>
       (tail = [] \<or> rest \<noteq> [] \<and> length tail < length (encode_array (hd rest)))"
proof (induction cmds arbitrary: a)
  case (Cons c cmds)
  show ?case
  proof (cases "length a < length (encode_array c)")
    case True
    then show ?thesis using Cons.prems by (intro exI [of _ "[]"] exI [of _ "c # cmds"] exI [of _ a]) simp
  next
    case False
    then obtain a' where a': "a = encode_array c @ a'" "a' @ b = concat (map encode_array cmds)"
      using Cons.prems by (auto simp: append_eq_append_conv_if split: if_splits)
        (metis append_take_drop_id)
    from Cons.IH [OF a'(2)] obtain cs rest tail where "cmds = cs @ rest" "a' = concat (map encode_array cs) @ tail"
        "tail @ b = concat (map encode_array rest)"
        "tail = [] \<or> rest \<noteq> [] \<and> length tail < length (encode_array (hd rest))" by blast
    then show ?thesis using a'(1) by (intro exI [of _ "c # cs"] exI [of _ rest] exI [of _ tail]) simp
  qed
qed simp

lemma drain_piece:
  assumes "list_all (command_ok mx) (cs @ rest)" and "mx < 2 ^ 63" and "0 < d"
    and "tail @ b = concat (map encode_array rest)"
    and "tail = [] \<or> rest \<noteq> [] \<and> length tail < length (encode_array (hd rest))"
  shows "drain (parse_value (Suc d) mx) (concat (map encode_array cs) @ tail) =
    (map (\<lambda>args. RespValue_array_value (map RespValue_bulk args)) cs, Inr tail)"
proof -
  have "drain (parse_value (Suc d) mx) tail = ([], Inr tail)"
  proof (cases "tail = []")
    case False
    with assms(5) obtain args rest' where r: "rest = args # rest'" "length tail < length (encode_array args)"
      by (cases rest) auto
    obtain l where d: "d = Suc l" using assms(3) by (cases d) auto
    have "parse_value (Suc d) mx (encode_array args) = Inr (Some (RespValue_array_value (map RespValue_bulk args), []))"
      using parse_encoded_command [OF _ _ assms(2)] assms(1) r(1) by (simp add: command_ok_def list_all_iff d)
    moreover have "tail = take (length tail) (encode_array args)"
      using assms(4) r by (simp add: append_eq_append_conv_if split: if_splits)
    ultimately have "parse_value (Suc d) mx tail = Inr None" using rp.cut_message_waits r(2) by metis
    then show ?thesis by (simp add: drain.simps [of _ tail])
  qed simp
  then show ?thesis
    using rp.drain_append [of "Suc d" mx "concat (map encode_array cs)" tail] drain_commands [OF _ assms(2,3)] assms(1)
    by simp
qed

text \<open>
  Reading a stream of commands of any length. Only the frames and the packets are bounded: what waits in the
  buffer is always less than one frame.
\<close>

lemma receive_stream:
  assumes "0 < max_depth p" and "max_request_size p < 2 ^ 63"
    and "list_all (command_ok (max_request_size p)) cmds"
    and "buffer p @ concat ds = concat (map encode_array cmds)"
    and "buffer p = [] \<or> cmds \<noteq> [] \<and> length (buffer p) < length (encode_array (hd cmds))"
    and "\<forall>args\<in>set cmds. \<forall>d\<in>set ds. length (encode_array args) + length d \<le> max_request_size p"
  shows "receive ds p = (map (\<lambda>args. RespValue_array_value (map RespValue_bulk args)) cmds, Inr (p\<lparr>buffer := []\<rparr>))"
  using assms
proof (induction ds arbitrary: p cmds)
  case Nil
  then have "cmds = []" by (cases cmds) (auto simp: encode_array_def)
  then show ?case using Nil.prems(4) by (cases p) simp
next
  case (Cons d ds)
  let ?b = "buffer p" and ?mx = "max_request_size p"
  have room: "length ?b + length d \<le> ?mx"
    using Cons.prems(4-6) by (cases cmds) fastforce+
  have "(?b @ d) @ concat ds = concat (map encode_array cmds)" using Cons.prems(4) by simp
  from stream_piece [OF this] obtain cs rest tail where piece: "cmds = cs @ rest"
      "?b @ d = concat (map encode_array cs) @ tail" "tail @ concat ds = concat (map encode_array rest)"
      "tail = [] \<or> rest \<noteq> [] \<and> length tail < length (encode_array (hd rest))" by blast
  let ?q = "p\<lparr>buffer := ?b @ d\<rparr>" and ?r = "p\<lparr>buffer := tail\<rparr>"
  have "parser_drain p (?b @ d) = (map (\<lambda>args. RespValue_array_value (map RespValue_bulk args)) cs, Inr tail)"
    unfolding piece(2) using Cons.prems(1-3) piece by (intro drain_piece) simp_all
  then have "next_values ?q = (map (\<lambda>args. RespValue_array_value (map RespValue_bulk args)) cs, Inr ?r)"
    using next_values_drain [of ?q] by simp
  moreover have "feed d p = Inr ?q" using room by (simp add: feed_def)
  moreover have "receive ds ?r = (map (\<lambda>args. RespValue_array_value (map RespValue_bulk args)) rest, Inr (?r\<lparr>buffer := []\<rparr>))"
    using Cons.prems piece by (intro Cons.IH) auto
  ultimately show ?case using piece(1) by simp
qed

lemma receive_commands:
  assumes "0 < max_depth p" and "buffer p = []" and "max_request_size p < 2 ^ 63"
    and "list_all (command_ok (max_request_size p)) cmds"
    and "concat ds = concat (map encode_array cmds)"
    and "\<forall>args\<in>set cmds. \<forall>d\<in>set ds. length (encode_array args) + length d \<le> max_request_size p"
  shows "receive ds p = (map (\<lambda>args. RespValue_array_value (map RespValue_bulk args)) cmds, Inr p)"
proof -
  have "p\<lparr>buffer := []\<rparr> = p" using assms(2) by (cases p) simp
  then show ?thesis using receive_stream [OF assms(1,3,4)] assms(2,5,6) by simp
qed

text \<open>Inputs of the witnesses.\<close>

definition nested_example :: RespValue where
  "nested_example = RespValue_array_value
     [RespValue_bulk ''a'', RespValue_array_value [RespValue_integer_value (- 1), RespValue_null_bulk]]"

definition parser_example :: RespParser where
  "parser_example = \<lparr>max_request_size = 64, max_depth = 32, buffer = ''''\<rparr>"

definition stream_example :: string where
  "stream_example = encode_array [''SET'', ''k'', ''1''] @ encode_array [''PING'']"

section \<open>Properties\<close>

text \<open>C25. Every RESP value within the limits is encoded without an exception, and parsing the
  encoding gives back the value and exactly the bytes behind it, whatever they are; every proper
  prefix of the encoding makes the parser wait for more bytes instead of failing or guessing.\<close>

theorem resp_roundtrip:
  assumes "mx < 2 ^ 63" and "resp_ok levels mx v"
  shows "\<exists>m. encode_resp v = Inr m \<and>
    (\<forall>rest. parse_value levels mx (m @ rest) = Inr (Some (v, rest))) \<and>
    (\<forall>k. k < length m \<longrightarrow> parse_value levels mx (take k m) = Inr None)"
proof -
  obtain m where m: "encode_resp v = Inr m" "parse_value levels mx m = Inr (Some (v, []))"
    using encode_resp_parses [OF assms] by blast
  then show ?thesis using rp.completed [OF m(2)] rp.cut_message_waits [OF m(2)] by auto
qed

theorem resp_roundtrip_witness:
  "\<exists>m. encode_resp nested_example = Inr m \<and>
    parse_value (Suc (Suc (Suc 0))) 64 (m @ ''+OK'') = Inr (Some (nested_example, ''+OK'')) \<and>
    (\<forall>k. k < length m \<longrightarrow> parse_value (Suc (Suc (Suc 0))) 64 (take k m) = Inr None)"
proof -
  have "resp_ok (Suc (Suc (Suc 0))) 64 nested_example"
    by (simp add: nested_example_def resp_constructors)
  from resp_roundtrip [OF _ this] show ?thesis by auto
qed

text \<open>C24. How the bytes of a connection are cut into packets does not matter: feeding packets one
  after the other, with all complete values taken out after each, yields the same values, the same
  protocol error if there is one, and the same bytes left in the buffer as feeding everything at
  once, as long as everything fits into the request limit.\<close>

theorem packets_do_not_matter:
  assumes "length (buffer p) + length (concat ds) \<le> max_request_size p" and "ds \<noteq> []"
  shows "receive ds p = receive [concat ds] p"
  using receive_drain [OF assms] receive_drain [of p "[concat ds]"] assms(1) by simp

theorem packets_do_not_matter_witness:
  "receive [''*1'' @ [CR], [LF] @ ''$4'' @ CRLF @ ''PI'', ''NG'' @ CRLF @ ''?'']
     \<lparr>max_request_size = 64, max_depth = 2, buffer = ''''\<rparr> =
   receive [''*1'' @ CRLF @ ''$4'' @ CRLF @ ''PING'' @ CRLF @ ''?'']
     \<lparr>max_request_size = 64, max_depth = 2, buffer = ''''\<rparr>"
  using packets_do_not_matter [of "\<lparr>max_request_size = 64, max_depth = 2, buffer = ''''\<rparr>"
    "[''*1'' @ [CR], [LF] @ ''$4'' @ CRLF @ ''PI'', ''NG'' @ CRLF @ ''?'']"]
  by (simp only: concat.simps append.simps) simp

text \<open>Commands pipelined by a client reach the server as they were sent: for any sequence of
  commands encoded with \<open>encode_array\<close> and any cut of the bytes into packets, such that any one frame
  and any one packet together are within the request limit, the parser yields one value per command,
  \<open>command_arguments\<close> of each is the command, and nothing is left over.\<close>

theorem pipelined_commands:
  assumes "parser_wf p" and "buffer p = []" and "max_request_size p < 2 ^ 63"
    and "list_all (command_ok (max_request_size p)) cmds"
    and "concat ds = concat (map encode_array cmds)"
    and "\<forall>args\<in>set cmds. \<forall>d\<in>set ds. length (encode_array args) + length d \<le> max_request_size p"
  shows "\<exists>vs. receive ds p = (vs, Inr p) \<and> map command_arguments vs = map Inr cmds"
proof -
  have "map command_arguments (map (\<lambda>args. RespValue_array_value (map RespValue_bulk args)) cmds) = map Inr cmds"
    using assms(4) by (simp add: list_all_iff command_ok_def command_arguments_bulk)
  then show ?thesis
    using receive_commands [OF _ assms(2-)] assms(1) by (auto simp: parser_wf_def)
qed

theorem pipelined_commands_witness:
  "\<exists>vs. receive [take 7 stream_example, drop 7 stream_example] parser_example = (vs, Inr parser_example) \<and>
    map command_arguments vs = map Inr [[''SET'', ''k'', ''1''], [''PING'']]"
proof (rule pipelined_commands)
  show "parser_wf parser_example" "buffer parser_example = []" "max_request_size parser_example < 2 ^ 63"
    by (simp_all add: parser_example_def parser_wf_def)
  show "list_all (command_ok (max_request_size parser_example)) [[''SET'', ''k'', ''1''], [''PING'']]"
    by (simp add: parser_example_def command_ok_def)
  show "concat [take 7 stream_example, drop 7 stream_example] =
      concat (map encode_array [[''SET'', ''k'', ''1''], [''PING'']])"
    using stream_example_def by (simp del: take_append drop_append)
  show "\<forall>args\<in>set [[''SET'', ''k'', ''1''], [''PING'']]. \<forall>d\<in>set [take 7 stream_example, drop 7 stream_example].
      length (encode_array args) + length d \<le> max_request_size parser_example"
    by (simp add: parser_example_def stream_example_def encode_array_def encode_bulk_string_def
        to_string_nat.simps)
qed

end
