(* ===== verification/Password.thy ===== *)
theory Password
  imports Prelude
begin

text \<open>
  The password comparison, \<^verbatim>\<open>src/src/security/password.cpp\<close>: a loop over the longer of the two
  strings that collects the differing bits in one byte and never leaves early. The theorem: it
  decides equality.
\<close>

definition byte_or_zero :: "string \<Rightarrow> nat \<Rightarrow> u8" where
  "byte_or_zero s i = (if i < length s then byte_of_char (s ! i) else 0)"

definition constant_time_password_equal :: "string \<Rightarrow> string \<Rightarrow> bool" where
  "constant_time_password_equal supplied configured =
     (let maximum = max (length supplied) (length configured);
          difference = (if length supplied \<noteq> length configured then 1 else 0 :: u8)
      in fold (\<lambda>i difference. difference OR (byte_or_zero supplied i XOR byte_or_zero configured i))
           [0..<maximum] difference = 0)"

lemma or_eq_0_iff: "(a :: u8) OR b = 0 \<longleftrightarrow> a = 0 \<and> b = 0"
  by (auto simp: bit_eq_iff bit_simps)

lemma xor_eq_0_iff: "(a :: u8) XOR b = 0 \<longleftrightarrow> a = b"
  by (auto simp: bit_eq_iff bit_simps)

lemma fold_or_eq_0:
  "fold (\<lambda>i d. d OR f i) xs d = (0 :: u8) \<longleftrightarrow> d = 0 \<and> (\<forall>i\<in>set xs. f i = 0)"
  by (induction xs arbitrary: d) (auto simp: or_eq_0_iff)

lemma byte_of_char_eq_iff: "byte_of_char c = byte_of_char d \<longleftrightarrow> c = d"
  by (metis char_of_byte_of_char)

text \<open>
  The password check accepts a password exactly when it is the configured one: neither a
  prefix, nor an extension by zero bytes, nor any other string of a different length or content
  passes, and the configured password always does.
\<close>

lemma password_check_exact: "constant_time_password_equal supplied configured \<longleftrightarrow> supplied = configured"
proof (cases "length supplied = length configured")
  case True
  have "constant_time_password_equal supplied configured \<longleftrightarrow>
      (\<forall>i < length supplied. supplied ! i = configured ! i)"
    using True
    by (simp add: constant_time_password_equal_def fold_or_eq_0 xor_eq_0_iff byte_or_zero_def
        byte_of_char_eq_iff Ball_def)
  then show ?thesis using True by (simp add: list_eq_iff_nth_eq)
next
  case False
  then show ?thesis by (auto simp: constant_time_password_equal_def fold_or_eq_0)
qed

end
