(* ===== verification/Command_Service.thy ===== *)
theory Command_Service
  imports Resp Password Raft_Workers
begin

text \<open>
  The command semantics of a client connection, \<^verbatim>\<open>src/src/server/command_service.{h,cpp}\<close>: AUTH, PING,
  the four writes with their optional request identity, GET, INFO and ROLE. The service calls the
  node through the operations collected in \<open>raft_api\<close>, each on the state of the node; the record
  is the interface the service uses of \<^theory_text>\<open>RaftNode\<close>. A reply is the bytes of the response or the
  exception that left \<^theory_text>\<open>execute\<close>. Log lines are not modelled, and \<^theory_text>\<open>std::toupper\<close> is that of
  the "C" locale, which the program never changes.

  The theorems: before a successful AUTH no command reaches the node; a well-formed write is
  submitted exactly once, as the command it spells, and a malformed one not at all; the reply is one
  complete RESP frame as long as the texts it quotes contain no line break, and an unknown
  command that contains one ends in an exception.
\<close>

section \<open>The interface of the node\<close>

record 'w raft_api =
  api_submit :: "Command \<Rightarrow> ('w, RaftCommandResult) state"
  api_linearizable_get :: "string \<Rightarrow> ('w, LinearizableGetResult) state"
  api_is_leader :: "('w, bool) state"
  api_leader_client_endpoint :: "('w, string option) state"
  api_info :: "('w, RaftNodeInfo) state"
  api_now :: "('w, int) state"

record ClientSession =
  authenticated :: bool

definition new_session :: ClientSession where
  "new_session = \<lparr>authenticated = False\<rparr>"

record CommandService =
  cs_config :: Config
  cs_started_at :: int
  cs_client_connections :: u64

definition new_CommandService :: "Config \<Rightarrow> int \<Rightarrow> CommandService" where
  "new_CommandService config now = \<lparr>cs_config = config, cs_started_at = now, cs_client_connections = 0\<rparr>"

section \<open>Helpers\<close>

definition toupper :: "char \<Rightarrow> char" where
  "toupper c = (if 97 \<le> (of_char c :: nat) \<and> (of_char c :: nat) \<le> 122 then char_of (of_char c - 32 :: nat) else c)"

definition uppercase_ascii :: "string \<Rightarrow> string" where
  "uppercase_ascii s = map toupper s"

definition parse_request_number :: "string \<Rightarrow> string \<Rightarrow> exn + u64" where
  "parse_request_number text name =
     (if text = [] then Inl (Invalid_argument (name @ '' must be a positive integer''))
      else case digit_loop u64_max 0 text of
        Inl Non_digit \<Rightarrow> Inl (Invalid_argument (name @ '' must be a positive integer''))
      | Inl Too_large \<Rightarrow> Inl (Invalid_argument (name @ '' is too large''))
      | Inr v \<Rightarrow>
          if v = 0 then Inl (Invalid_argument (name @ '' must be non-zero'')) else Inr v)"

definition write_command :: "string \<Rightarrow> bool" where
  "write_command name \<longleftrightarrow> name = ''SET'' \<or> name = ''DEL'' \<or> name = ''INCR'' \<or> name = ''DECR''"

definition command_type :: "string \<Rightarrow> exn + CommandType" where
  "command_type name =
     (if name = ''SET'' then Inr kSet else if name = ''DEL'' then Inr kDel
      else if name = ''INCR'' then Inr kIncr else if name = ''DECR'' then Inr kDecr
      else Inl (Logic_error ''not a write command''))"

definition apply_error :: "ApplyResult \<Rightarrow> exn + string" where
  "apply_error r =
     (case res_code r of
        kNotInteger \<Rightarrow> encode_error ''ERR value is not an integer or out of range''
      | kOverflow \<Rightarrow> encode_error ''ERR increment or decrement would overflow''
      | kStaleRequest \<Rightarrow> encode_error (''STALE_REQUEST '' @ res_value r)
      | kBadCommand \<Rightarrow> encode_error (''ERR '' @ res_value r)
      | kStorageError \<Rightarrow> encode_error (''STORAGE_ERROR '' @ res_value r)
      | kNotFound \<Rightarrow> Inr encode_null_bulk_string
      | kOk \<Rightarrow> encode_error ''ERR unexpected state-machine result'')"

text \<open>\<^theory_text>\<open>std::string::rfind\<close> of a character.\<close>

fun rfind_char :: "char \<Rightarrow> string \<Rightarrow> nat option" where
  "rfind_char c [] = None"
| "rfind_char c (d # s) =
     (case rfind_char c s of Some i \<Rightarrow> Some (Suc i) | None \<Rightarrow> if c = d then Some 0 else None)"

definition not_leader_error :: "'w raft_api \<Rightarrow> ('w, exn + string) state" where
  "not_leader_error api = do {
     endpoint \<leftarrow> api_leader_client_endpoint api;
     State_Monad.return
       (case endpoint of
          None \<Rightarrow> encode_error ''NOT_LEADER''
        | Some e \<Rightarrow>
            (case rfind_char (CHR '':'') e of
               None \<Rightarrow> encode_error ''NOT_LEADER''
             | Some i \<Rightarrow> encode_error (''NOT_LEADER '' @ take i e @ '' '' @ drop (i + 1) e))) }"

definition raft_failure_error :: "RaftRequestStatus \<Rightarrow> string \<Rightarrow> exn + string" where
  "raft_failure_error status detail =
     encode_error (raft_request_status_name status @ (if detail \<noteq> [] then '' '' @ detail else []))"

section \<open>Commands\<close>

text \<open>The request identity behind a write: \<^theory_text>\<open>CLIENT <id> REQUEST <id>\<close>.\<close>

definition request_identity :: "string list \<Rightarrow> Command \<Rightarrow> exn + Command" where
  "request_identity suffix c =
     bindE (parse_request_number (suffix ! 1) ''client_id'') (\<lambda>client.
     bindE (parse_request_number (suffix ! 3) ''request_id'') (\<lambda>request.
     Inr (c\<lparr>client_id := client, request_id := request\<rparr>)))"

text \<open>
  The arguments of a write as the command to submit: \<open>Inl\<close> is the error reply.
\<close>

definition write_of :: "string list \<Rightarrow> (exn + string) + Command" where
  "write_of arguments =
     (let name = uppercase_ascii (hd arguments);
          base_size = (if name = ''SET'' then 3 else 2)
      in if length arguments \<noteq> base_size \<and> length arguments \<noteq> base_size + 4
         then Inl (encode_error (''ERR wrong number of arguments for '' @ [CHR 39] @ uppercase_ascii (hd arguments) @ [CHR 39]))
         else case command_type name of
           Inl e \<Rightarrow> Inl (Inl e)
         | Inr t \<Rightarrow>
             let c = default_command\<lparr>cmd_type := t, cmd_key := arguments ! 1\<rparr>;
                 c = (if name = ''SET'' then c\<lparr>cmd_value := arguments ! 2\<rparr> else c);
                 suffix = drop base_size arguments
             in if length arguments = base_size + 4 then
                  if uppercase_ascii (suffix ! 0) \<noteq> ''CLIENT'' \<or> uppercase_ascii (suffix ! 2) \<noteq> ''REQUEST''
                  then Inl (encode_error ''ERR expected CLIENT <id> REQUEST <id>'')
                  else case request_identity suffix c of
                    Inl e \<Rightarrow> Inl (encode_error (''ERR '' @ what e))
                  | Inr c \<Rightarrow> Inr c
                else Inr c)"

definition write_reply :: "'w raft_api \<Rightarrow> string \<Rightarrow> RaftCommandResult \<Rightarrow> ('w, exn + string) state" where
  "write_reply api name result =
     (if rcr_status result = kNotLeader then not_leader_error api
      else State_Monad.return
        (if rcr_status result \<noteq> kStatusOk then raft_failure_error (rcr_status result) (rcr_detail result)
         else if res_code (rcr_result result) \<noteq> kOk then apply_error (rcr_result result)
         else if name = ''SET'' then encode_simple_string ''OK''
         else if res_kind (rcr_result result) \<noteq> kInteger
         then encode_error ''ERR state machine returned wrong result type''
         else Inr (encode_integer (res_integer (rcr_result result)))))"

definition execute_write :: "'w raft_api \<Rightarrow> string list \<Rightarrow> ('w, exn + string) state" where
  "execute_write api arguments =
     (case write_of arguments of
        Inl reply \<Rightarrow> State_Monad.return reply
      | Inr c \<Rightarrow> do {
          result \<leftarrow> api_submit api c;
          write_reply api (uppercase_ascii (hd arguments)) result })"

definition execute_get :: "'w raft_api \<Rightarrow> string \<Rightarrow> ('w, exn + string) state" where
  "execute_get api key = do {
     result \<leftarrow> api_linearizable_get api key;
     if lgr_status result = kNotLeader then not_leader_error api
     else State_Monad.return
       (if lgr_status result \<noteq> kStatusOk then raft_failure_error (lgr_status result) (lgr_detail result)
        else case lgr_value result of
          Some v \<Rightarrow> Inr (encode_bulk_string v)
        | None \<Rightarrow> Inr encode_null_bulk_string) }"

definition info_text :: "RaftNodeInfo \<Rightarrow> u64 \<Rightarrow> int \<Rightarrow> string" where
  "info_text i connections uptime =
     (let line = (\<lambda>name text. name @ '':'' @ text @ CRLF); num = (\<lambda>w :: u64. to_string_nat (unat w)) in
      line ''node_id'' (to_string_int (inf_node_id i)) @
      line ''role'' (if inf_leader i then ''leader'' else ''follower'') @
      line ''leader_id'' (to_string_int (inf_leader_id i)) @
      line ''term'' (num (inf_term i)) @
      line ''commit_index'' (num (inf_commit_index i)) @
      line ''last_log_index'' (num (inf_last_log_index i)) @
      line ''last_applied'' (num (inf_last_applied i)) @
      line ''snapshot_index'' (num (inf_snapshot_index i)) @
      line ''cluster_size'' (to_string_nat (inf_cluster_size i)) @
      line ''proposal_batches'' (num (inf_proposal_batches i)) @
      line ''proposal_entries'' (num (inf_proposal_entries i)) @
      line ''read_batches'' (num (inf_read_batches i)) @
      line ''read_requests'' (num (inf_read_requests i)) @
      line ''lease_reads'' (num (inf_lease_reads i)) @
      line ''client_connections'' (num connections) @
      line ''uptime_seconds'' (to_string_int uptime))"

definition duration_seconds :: "int \<Rightarrow> int" where
  "duration_seconds ns = (if ns < 0 then - ((- ns) div 1000000000) else ns div 1000000000)"

definition client_connections :: "CommandService \<Rightarrow> u64" where
  "client_connections svc = cs_client_connections svc"

definition info_response :: "'w raft_api \<Rightarrow> CommandService \<Rightarrow> ('w, exn + string) state" where
  "info_response api svc = do {
     raft \<leftarrow> api_info api;
     now \<leftarrow> api_now api;
     State_Monad.return (Inr (encode_bulk_string
       (info_text raft (client_connections svc) (duration_seconds (now - cs_started_at svc))))) }"

definition role_response :: "'w raft_api \<Rightarrow> ('w, exn + string) state" where
  "role_response api = do {
     leader \<leftarrow> api_is_leader api;
     if leader then State_Monad.return (Inr (encode_array [''leader'']))
     else do {
       endpoint \<leftarrow> api_leader_client_endpoint api;
       State_Monad.return
         (case endpoint of
            Some e \<Rightarrow> Inr (encode_array [''follower'', e])
          | None \<Rightarrow> Inr (encode_array [''follower'', ''''])) } }"

definition execute_authenticated ::
    "'w raft_api \<Rightarrow> CommandService \<Rightarrow> string list \<Rightarrow> ('w, exn + string) state" where
  "execute_authenticated api svc arguments =
     (let name = uppercase_ascii (hd arguments) in
      if write_command name then execute_write api arguments
      else if name = ''GET'' then
        if length arguments \<noteq> 2 then
          State_Monad.return (encode_error (''ERR wrong number of arguments for '' @ [CHR 39] @ ''get'' @ [CHR 39]))
        else execute_get api (arguments ! 1)
      else if name = ''INFO'' then
        if length arguments \<noteq> 1 then
          State_Monad.return (encode_error (''ERR wrong number of arguments for '' @ [CHR 39] @ ''info'' @ [CHR 39]))
        else info_response api svc
      else if name = ''ROLE'' then
        if length arguments \<noteq> 1 then
          State_Monad.return (encode_error (''ERR wrong number of arguments for '' @ [CHR 39] @ ''role'' @ [CHR 39]))
        else role_response api
      else State_Monad.return (encode_error (''ERR unknown command '' @ [CHR 39] @ hd arguments @ [CHR 39])))"

definition execute ::
    "'w raft_api \<Rightarrow> CommandService \<Rightarrow> string list \<Rightarrow> ClientSession \<Rightarrow> ('w, (exn + string) \<times> ClientSession) state" where
  "execute api svc arguments session =
     (if arguments = [] then State_Monad.return (encode_error ''ERR empty command'', session)
      else
        let name = uppercase_ascii (hd arguments) in
        if name = ''PING'' then
          State_Monad.return
            (if length arguments = 1 then encode_simple_string ''PONG''
             else if length arguments = 2 then Inr (encode_bulk_string (arguments ! 1))
             else encode_error (''ERR wrong number of arguments for '' @ [CHR 39] @ ''ping'' @ [CHR 39]), session)
        else if name = ''AUTH'' then
          if length arguments \<noteq> 2 then
            State_Monad.return
              (encode_error (''ERR wrong number of arguments for '' @ [CHR 39] @ ''auth'' @ [CHR 39]), session)
          else
            let session = session\<lparr>authenticated :=
                  constant_time_password_equal (arguments ! 1) (cfg_requirepass (cs_config svc))\<rparr>
            in State_Monad.return
                 (if authenticated session then encode_simple_string ''OK''
                  else encode_error ''WRONGPASS invalid username-password pair'', session)
        else if \<not> authenticated session then
          State_Monad.return (encode_error ''NOAUTH Authentication required'', session)
        else do {
          reply \<leftarrow> execute_authenticated api svc arguments;
          State_Monad.return (reply, session) })"

definition client_connected :: "CommandService \<Rightarrow> CommandService" where
  "client_connected svc = svc\<lparr>cs_client_connections := cs_client_connections svc + 1\<rparr>"

definition client_disconnected :: "CommandService \<Rightarrow> CommandService" where
  "client_disconnected svc = svc\<lparr>cs_client_connections := cs_client_connections svc - 1\<rparr>"


section \<open>Replies are frames\<close>

text \<open>A complete RESP message, for every parser whose size limit admits it.\<close>

definition complete_frame :: "string \<Rightarrow> bool" where
  "complete_frame m \<longleftrightarrow>
     (\<exists>v. \<forall>mx. length m \<le> mx \<and> mx < 2 ^ 63 \<longrightarrow> parse_value (Suc (Suc 0)) mx m = Inr (Some (v, [])))"

definition reply_ok :: "exn + string \<Rightarrow> bool" where
  "reply_ok r = (case r of Inr m \<Rightarrow> complete_frame m | Inl e \<Rightarrow> e = Invalid_argument ''RESP error contains newline'')"

lemma reply_ok_error [simp]: "reply_ok (encode_error s)"
  unfolding encode_error_def reply_ok_def complete_frame_def
  by (simp del: parse_value.simps) (use parse_line_values(2) [of s] in auto)

lemma reply_ok_simple [simp]: "\<not> contains_newline s \<Longrightarrow> reply_ok (encode_simple_string s)"
  unfolding encode_simple_string_def reply_ok_def complete_frame_def
  by (simp del: parse_value.simps) (use parse_line_values(1) [of s] in auto)

lemma reply_ok_integer [simp]: "reply_ok (Inr (encode_integer i))"
  unfolding reply_ok_def complete_frame_def using parse_line_values(3) by (auto simp del: parse_value.simps)

lemma reply_ok_null [simp]: "reply_ok (Inr encode_null_bulk_string)"
  unfolding reply_ok_def complete_frame_def using parse_null_bulk by (auto simp del: parse_value.simps)

lemma reply_ok_bulk [simp]: "reply_ok (Inr (encode_bulk_string s))"
proof -
  have "length s \<le> length (encode_bulk_string s)"
    by (simp add: encode_bulk_string_def)
  then show ?thesis
    unfolding reply_ok_def complete_frame_def using parse_bulk_string [of s]
    by (auto simp del: parse_value.simps)
qed

lemma length_encode_array:
  fixes vs :: "string list"
  shows "length vs * 3 \<le> length (encode_array vs)" "a \<in> set vs \<Longrightarrow> length a \<le> length (encode_array vs)"
proof -
  have "length vs * 3 \<le> length (concat (map encode_bulk_string vs))"
    by (induction vs) (auto simp: encode_bulk_string_def)
  then show "length vs * 3 \<le> length (encode_array vs)"
    by (simp add: encode_array_def)
  have "a \<in> set vs \<Longrightarrow> length a \<le> length (concat (map encode_bulk_string vs))"
    by (induction vs) (auto simp: encode_bulk_string_def)
  then show "a \<in> set vs \<Longrightarrow> length a \<le> length (encode_array vs)"
    by (simp add: encode_array_def)
qed

lemma reply_ok_array [simp]: "reply_ok (Inr (encode_array vs))"
proof -
  have "parse_value (Suc (Suc 0)) mx (encode_array vs) = Inr (Some (RespValue_array_value (map RespValue_bulk vs), []))"
    if "length (encode_array vs) \<le> mx" and "mx < 2 ^ 63" for mx
    using that length_encode_array [where vs = vs] by (intro parse_encoded_command) (auto intro: le_trans)
  then show ?thesis
    unfolding reply_ok_def complete_frame_def by (auto simp del: parse_value.simps)
qed

text \<open>What every run of a program of the service returns.\<close>

definition always :: "('a \<Rightarrow> bool) \<Rightarrow> ('w, 'a) state \<Rightarrow> bool" where
  "always P p \<longleftrightarrow> (\<forall>w. P (fst (run_state p w)))"

lemma always_return: "P x \<Longrightarrow> always P (State_Monad.return x)"
  by (simp add: always_def)

lemma always_bind: "(\<And>x. always P (f x)) \<Longrightarrow> always P (State_Monad.bind p f)"
  by (simp add: always_def split: prod.split)

lemma always_if: "(c \<Longrightarrow> always P a) \<Longrightarrow> (\<not> c \<Longrightarrow> always P b) \<Longrightarrow> always P (if c then a else b)"
  by simp

lemmas always_intros = always_return always_bind always_if

lemma contains_newline_names [simp]:
  "\<not> contains_newline ''OK''" "\<not> contains_newline ''PONG''"
  by (simp_all add: contains_newline_def)

lemma not_leader_reply: "always reply_ok (not_leader_error api)"
  by (auto simp: not_leader_error_def intro!: always_intros split: option.split)

lemma apply_error_reply [simp]: "reply_ok (apply_error r)"
  by (simp add: apply_error_def split: ResultCode.split)

lemma write_of_reply: "write_command (uppercase_ascii (hd args)) \<Longrightarrow> write_of args = Inl r \<Longrightarrow> reply_ok r"
  by (auto simp: write_of_def write_command_def command_type_def Let_def split: if_splits sum.splits)

lemma execute_write_reply:
  "write_command (uppercase_ascii (hd args)) \<Longrightarrow> always reply_ok (execute_write api args)"
  by (auto simp: execute_write_def write_reply_def raft_failure_error_def split: sum.split
      intro!: always_intros not_leader_reply dest: write_of_reply)

lemma execute_authenticated_reply: "always reply_ok (execute_authenticated api svc args)"
  by (auto simp: execute_authenticated_def execute_get_def info_response_def role_response_def Let_def
      raft_failure_error_def split: option.split intro!: always_intros not_leader_reply execute_write_reply)

lemma execute_reply: "always (\<lambda>(r, s). reply_ok r) (execute api svc args session)"
  by (auto simp: execute_def Let_def intro!: always_intros
      intro: always_bind simp: always_def case_prod_beta execute_authenticated_reply [unfolded always_def])

section \<open>Sessions\<close>

text \<open>The commands of a connection, one after the other.\<close>

primrec execute_all ::
    "'w raft_api \<Rightarrow> CommandService \<Rightarrow> string list list \<Rightarrow> ClientSession \<Rightarrow> ('w, (exn + string) list \<times> ClientSession) state" where
  "execute_all api svc [] session = State_Monad.return ([], session)"
| "execute_all api svc (args # cmds) session = do {
     (reply, session) \<leftarrow> execute api svc args session;
     (replies, session) \<leftarrow> execute_all api svc cmds session;
     State_Monad.return (reply # replies, session) }"

text \<open>The one command that opens a session.\<close>

definition right_password :: "CommandService \<Rightarrow> string list \<Rightarrow> bool" where
  "right_password svc args \<longleftrightarrow>
     (\<exists>auth. args = [auth, cfg_requirepass (cs_config svc)] \<and> uppercase_ascii auth = ''AUTH'')"

text \<open>The reply to a command of a session that is not authenticated and stays so.\<close>

definition closed_reply :: "string list \<Rightarrow> exn + string" where
  "closed_reply args =
     (if args = [] then encode_error ''ERR empty command''
      else if uppercase_ascii (hd args) = ''PING'' then
        if length args = 1 then encode_simple_string ''PONG''
        else if length args = 2 then Inr (encode_bulk_string (args ! 1))
        else encode_error (''ERR wrong number of arguments for '' @ [CHR 39] @ ''ping'' @ [CHR 39])
      else if uppercase_ascii (hd args) = ''AUTH'' then
        if length args \<noteq> 2 then encode_error (''ERR wrong number of arguments for '' @ [CHR 39] @ ''auth'' @ [CHR 39])
        else encode_error ''WRONGPASS invalid username-password pair''
      else encode_error ''NOAUTH Authentication required'')"

lemma two_arguments: "length args = 2 \<Longrightarrow> args = [hd args, args ! 1]"
  by (auto simp: length_Suc_conv numeral_2_eq_2)


lemma execute_closed:
  assumes "\<not> authenticated session" and "\<not> right_password svc args"
  shows "run_state (execute api svc args session) w = ((closed_reply args, session), w)"
proof (cases "args \<noteq> [] \<and> uppercase_ascii (hd args) = ''AUTH'' \<and> length args = 2")
  case True
  then have "args ! 1 \<noteq> cfg_requirepass (cs_config svc)"
    using assms(2) two_arguments [of args] by (force simp: right_password_def)
  then show ?thesis
    using True assms(1) by (cases session) (simp add: execute_def closed_reply_def Let_def password_check_exact)
next
  case False
  then show ?thesis
    using assms(1) by (auto simp: execute_def closed_reply_def Let_def)
qed

lemma execute_all_closed:
  assumes "\<not> authenticated session" and "list_all (\<lambda>args. \<not> right_password svc args) cmds"
  shows "run_state (execute_all api svc cmds session) w = ((map closed_reply cmds, session), w)"
  using assms(2) by (induction cmds) (simp_all add: execute_closed [OF assms(1)])

section \<open>Writes\<close>

text \<open>
  How a client spells a write: the name in any case, the key, for SET the value, and optionally
  CLIENT and REQUEST with positive 64-bit numbers.
\<close>

definition spelled_number :: "string \<Rightarrow> u64 \<Rightarrow> bool" where
  "spelled_number s n \<longleftrightarrow> s \<noteq> [] \<and> list_all is_digit s \<and> decimal_value s = unat n \<and> n \<noteq> 0"

definition spelled_body :: "string list \<Rightarrow> Command \<Rightarrow> bool" where
  "spelled_body body c \<longleftrightarrow>
     (\<exists>name k v. c = \<lparr>version = 1, cmd_type = cmd_type c, cmd_key = k, cmd_value = v, client_id = 0, request_id = 0\<rparr> \<and>
        (body = [name, k, v] \<and> uppercase_ascii name = ''SET'' \<and> cmd_type c = kSet \<or>
         body = [name, k] \<and> v = [] \<and>
           (uppercase_ascii name, cmd_type c) \<in> {(''DEL'', kDel), (''INCR'', kIncr), (''DECR'', kDecr)}))"

definition spelled_write :: "string list \<Rightarrow> Command \<Rightarrow> bool" where
  "spelled_write args c \<longleftrightarrow>
     spelled_body args c \<or>
     (\<exists>body client cl request rq i j. args = body @ [client, cl, request, rq] \<and>
        spelled_body body (c\<lparr>client_id := 0, request_id := 0\<rparr>) \<and>
        uppercase_ascii client = ''CLIENT'' \<and> uppercase_ascii request = ''REQUEST'' \<and>
        spelled_number cl i \<and> spelled_number rq j \<and> client_id c = i \<and> request_id c = j)"

lemma parse_request_number_iff: "parse_request_number s name = Inr n \<longleftrightarrow> spelled_number s n"
proof -
  have max: "unat u64_max = 18446744073709551615"
    by simp
  have "(\<forall>c\<in>set s. is_digit c) \<and> decimal_value s \<le> 18446744073709551615 \<and> n = of_nat (decimal_value s) \<longleftrightarrow>
      list_all is_digit s \<and> decimal_value s = unat n"
    using unsigned_less [of n, where ?'a = nat] by (auto simp: list_all_iff unsigned_of_nat take_bit_nat_eq_self)
  then have "digit_loop u64_max 0 s = Inr n \<longleftrightarrow> list_all is_digit s \<and> decimal_value s = unat n"
    using digit_loop_Inr_iff [of u64_max s n] by (simp only: max)
  then show ?thesis
    by (auto simp: parse_request_number_def spelled_number_def split: sum.splits digit_error.splits if_splits)
qed


lemma list_shapes:
  "length xs = 2 \<longleftrightarrow> (\<exists>a b. xs = [a, b])"
  "length xs = 3 \<longleftrightarrow> (\<exists>a b c. xs = [a, b, c])"
  "length xs = 4 \<longleftrightarrow> (\<exists>a b c d. xs = [a, b, c, d])"
  by (auto simp: length_Suc_conv numeral_eq_Suc)

lemma request_identity_iff:
  "request_identity [a, cl, r, rq] c = Inr c' \<longleftrightarrow>
     (\<exists>i j. spelled_number cl i \<and> spelled_number rq j \<and> c' = c\<lparr>client_id := i, request_id := j\<rparr>)"
  by (auto simp: request_identity_def exn_simps parse_request_number_iff)

lemma relabel_Inr_iff: "(case r of Inl e \<Rightarrow> Inl (f e) | Inr c \<Rightarrow> Inr c) = Inr c' \<longleftrightarrow> r = Inr c'"
  by (cases r) auto

lemma spelled_body_default:
  "spelled_body body c \<Longrightarrow> c\<lparr>client_id := 0, request_id := 0\<rparr> = c"
  by (auto simp: spelled_body_def)

lemma write_of_plain: "spelled_body body c \<Longrightarrow> write_of body = Inr c"
  by (cases c) (auto simp: spelled_body_def write_of_def command_type_def default_command_def)

lemma write_of_identity:
  assumes "spelled_body body c0"
  shows "write_of (body @ [a, cl, r, rq]) = Inr c \<longleftrightarrow>
     uppercase_ascii a = ''CLIENT'' \<and> uppercase_ascii r = ''REQUEST'' \<and> request_identity [a, cl, r, rq] c0 = Inr c"
  using assms
  by (cases c0) (auto simp: spelled_body_def write_of_def command_type_def default_command_def Let_def
      relabel_Inr_iff)

lemma body_spelled:
  assumes "write_command (uppercase_ascii (hd body))" and "body \<noteq> []"
    and "length body = (if uppercase_ascii (hd body) = ''SET'' then 3 else 2)"
  shows "\<exists>c. spelled_body body c"
proof (cases "uppercase_ascii (hd body) = ''SET''")
  case True
  then obtain n k v where "body = [n, k, v]" using assms(3) by (auto simp: list_shapes)
  then have "spelled_body body (default_command\<lparr>cmd_key := k, cmd_value := v\<rparr>)"
    using True by (simp add: spelled_body_def default_command_def)
  then show ?thesis by blast
next
  case False
  then obtain n k where b: "body = [n, k]" using assms(3) by (auto simp: list_shapes)
  obtain t where "(uppercase_ascii n, t) \<in> {(''DEL'', kDel), (''INCR'', kIncr), (''DECR'', kDecr)}"
    using assms(1) False b by (auto simp: write_command_def)
  then have "spelled_body body (default_command\<lparr>cmd_type := t, cmd_key := k\<rparr>)"
    using b by (auto simp: spelled_body_def default_command_def)
  then show ?thesis by blast
qed

lemma write_of_shape:
  assumes "write_of args = Inr c" and "write_command (uppercase_ascii (hd args))" and "args \<noteq> []"
  obtains (plain) c0 where "spelled_body args c0"
  | (identity) body c0 a cl r rq where "args = body @ [a, cl, r, rq]" "spelled_body body c0"
proof -
  let ?n = "if uppercase_ascii (hd args) = ''SET'' then 3 else 2 :: nat"
  have len: "length args = ?n \<or> length args = ?n + 4"
    using assms(1) by (auto simp: write_of_def Let_def split: if_splits)
  show ?thesis
  proof (cases "length args = ?n")
    case True
    then show ?thesis using body_spelled [of args] assms plain by auto
  next
    case False
    then have "length (drop ?n args) = 4" and body: "length (take ?n args) = ?n" "hd (take ?n args) = hd args"
      using len by (auto simp: hd_take)
    then obtain a cl r rq where "drop ?n args = [a, cl, r, rq]"
      unfolding list_shapes by blast
    then have "args = take ?n args @ [a, cl, r, rq]"
      by (metis append_take_drop_id)
    moreover have "\<exists>c. spelled_body (take ?n args) c"
      using body_spelled [of "take ?n args"] body assms by (simp split: if_splits)
    ultimately show ?thesis using identity by blast
  qed
qed

lemma write_of_iff:
  assumes "write_command (uppercase_ascii (hd args))" and "args \<noteq> []"
  shows "write_of args = Inr c \<longleftrightarrow> spelled_write args c"
proof
  assume w: "write_of args = Inr c"
  from w assms show "spelled_write args c"
  proof (cases rule: write_of_shape)
    case (plain c0)
    then show ?thesis using w write_of_plain by (fastforce simp: spelled_write_def)
  next
    case (identity body c0 a cl r rq)
    then show ?thesis
      using w spelled_body_default [OF identity(2)]
      by (cases c0) (auto simp: write_of_identity [OF identity(2)] request_identity_iff spelled_write_def)
  qed
next
  assume "spelled_write args c"
  then show "write_of args = Inr c"
    unfolding spelled_write_def
    by (cases c) (auto simp: write_of_plain write_of_identity request_identity_iff)
qed

text \<open>Arguments that spell no write are answered with an error of the class ERR.\<close>

lemma number_error:
  assumes "parse_request_number t name = Inl e"
  shows "e \<in> {Invalid_argument (name @ '' must be a positive integer''), Invalid_argument (name @ '' is too large''),
    Invalid_argument (name @ '' must be non-zero'')}"
  using assms by (auto simp: parse_request_number_def split: if_splits sum.splits digit_error.splits)

lemma identity_error:
  assumes "request_identity suffix c = Inl e"
  shows "encode_error (''ERR '' @ what e) = Inr (''-ERR '' @ what e @ CRLF)"
proof -
  from assms consider "parse_request_number (suffix ! 1) ''client_id'' = Inl e"
    | "parse_request_number (suffix ! 3) ''request_id'' = Inl e"
    unfolding request_identity_def
    by (cases "parse_request_number (suffix ! 1) ''client_id''"; cases "parse_request_number (suffix ! 3) ''request_id''") auto
  then show ?thesis
    by cases (drule number_error; auto simp: encode_error_def contains_newline_def)+
qed

lemma write_of_error:
  assumes "write_command (uppercase_ascii (hd args))" and "write_of args = Inl reply"
  shows "\<exists>t. reply = Inr (''-ERR '' @ t @ CRLF)"
proof -
  have "encode_error (''ERR wrong number of arguments for '' @ [CHR 39] @ uppercase_ascii (hd args) @ [CHR 39]) =
      Inr (''-ERR '' @ (''wrong number of arguments for '' @ [CHR 39] @ uppercase_ascii (hd args) @ [CHR 39]) @ CRLF)"
    using assms(1) by (auto simp: write_command_def encode_error_def contains_newline_def)
  moreover have "encode_error ''ERR expected CLIENT <id> REQUEST <id>'' =
      Inr (''-ERR '' @ ''expected CLIENT <id> REQUEST <id>'' @ CRLF)"
    by (simp add: encode_error_def contains_newline_def)
  moreover have "\<exists>k. command_type (uppercase_ascii (hd args)) = Inr k"
    using assms(1) by (auto simp: write_command_def command_type_def)
  moreover have "reply = encode_error (''ERR wrong number of arguments for '' @ [CHR 39] @ uppercase_ascii (hd args) @ [CHR 39]) \<or>
      (\<exists>e. command_type (uppercase_ascii (hd args)) = Inl e) \<or> reply = encode_error ''ERR expected CLIENT <id> REQUEST <id>'' \<or>
      (\<exists>suffix c e. request_identity suffix c = Inl e \<and> reply = encode_error (''ERR '' @ what e))"
    using assms(2) unfolding write_of_def Let_def by (auto split: if_splits sum.splits simp del: append.simps)
  ultimately show ?thesis using identity_error by (elim disjE exE conjE) (simp_all only: sum.distinct, blast+)
qed


section \<open>The node behind the interface\<close>

text \<open>
  A call on a node whose workers are idle: the calling thread waits while the workers take its
  request and answer it. Each is one schedule of \<open>node_step\<close>.
\<close>

definition proposal_round :: "'snap node_system \<Rightarrow> 'snap node_system" where
  "proposal_round s =
     (let s = take_proposals (s\<lparr>proposal_worker := P_collecting\<rparr>)
      in case proposal_worker s of P_batch b \<Rightarrow> process_batch b s | _ \<Rightarrow> s)"

definition read_round :: "'snap node_system \<Rightarrow> 'snap node_system" where
  "read_round s =
     (let s = take_reads (s\<lparr>read_worker := R_collecting\<rparr>)
      in case read_worker s of
           R_batch b \<Rightarrow>
             (let s = submit_barrier b s
              in case read_worker s of
                   R_waiting b p \<Rightarrow>
                     (let s = proposal_round s in complete_reads (the (map_of (proposals_done s) p)) b s)
                 | _ \<Rightarrow> s)
         | _ \<Rightarrow> s)"

definition blocking_submit :: "Command \<Rightarrow> ('snap node_system, RaftCommandResult) state" where
  "blocking_submit c = State (\<lambda>s.
     case rn_submit c s of
       (Inl r, s) \<Rightarrow> (r, s)
     | (Inr p, s) \<Rightarrow> (let s = proposal_round s in (the (map_of (proposals_done s) p), s)))"

definition blocking_get :: "string \<Rightarrow> ('snap node_system, LinearizableGetResult) state" where
  "blocking_get key = State (\<lambda>s.
     case linearizable_get key s of
       (Inl r, s) \<Rightarrow> (r, s)
     | (Inr p, s) \<Rightarrow> (let s = read_round s in (the (map_of (reads_done s) p), s)))"

definition node_api :: "int \<Rightarrow> 'snap node_system raft_api" where
  "node_api now = \<lparr>api_submit = blocking_submit, api_linearizable_get = blocking_get,
     api_is_leader = State (run_node_prog rn_is_leader),
     api_leader_client_endpoint = State (run_node_prog leader_client_endpoint),
     api_info = State (run_node_prog raft_info), api_now = State_Monad.return now\<rparr>"

text \<open>A node between two calls: everything accepted is answered and both workers wait.\<close>

definition quiet :: "'snap node_system \<Rightarrow> bool" where
  "quiet s \<longleftrightarrow> reachable s \<and> proposal_worker s = P_idle \<and> read_worker s = R_idle \<and>
     proposal_queue s = [] \<and> read_queue s = []"


lemma run_node_prog_reachable: "reachable s \<Longrightarrow> reachable (snd (run_node_prog p s))"
  using reachable.step [OF _ node_step.environment] by (simp add: run_node_prog_def case_prod_beta)

lemma quiet_run_node_prog [simp]: "quiet s \<Longrightarrow> quiet (snd (run_node_prog p s))"
  using run_node_prog_reachable [of s p] by (simp add: quiet_def run_node_prog_def case_prod_beta)

lemmas reachable_worker = reachable.step [OF _ node_step.worker]

text \<open>One round of the proposal worker over a queue that fits into a batch.\<close>

lemma proposal_round_eq:
  assumes "length (proposal_queue s) \<le> kMaximumProposalBatch"
  shows "proposal_round s =
    process_batch (proposal_queue s) (s\<lparr>proposal_worker := P_batch (proposal_queue s), proposal_queue := []\<rparr>)"
  using assms by (simp add: proposal_round_def take_proposals_def min_absorb1)

lemma proposal_round_reachable:
  assumes "reachable s" and "proposal_worker s = P_idle" and "proposal_queue s \<noteq> []"
    and "length (proposal_queue s) \<le> kMaximumProposalBatch"
  shows "reachable (proposal_round s)"
proof -
  let ?s1 = "s\<lparr>proposal_worker := P_collecting\<rparr>"
  have "reachable ?s1"
    by (rule reachable_worker [OF assms(1) worker_step.proposals_seen [OF assms(2,3)]])
  then have "reachable (take_proposals ?s1)"
    by (rule reachable_worker) (simp add: worker_step.proposals_taken)
  then have "reachable (s\<lparr>proposal_worker := P_batch (proposal_queue s), proposal_queue := []\<rparr>)"
    using assms(4) by (simp add: take_proposals_def min_absorb1)
  then show ?thesis
    unfolding proposal_round_eq [OF assms(4)]
    by (rule reachable_worker) (simp add: worker_step.proposals_processed)
qed

lemma process_batch_frame:
  "proposal_worker (process_batch b s) = P_idle" "proposal_queue (process_batch b s) = proposal_queue s"
  "read_worker (process_batch b s) = read_worker s" "read_queue (process_batch b s) = read_queue s"
  "map fst (proposals_done (process_batch b s)) = map fst (proposals_done s) @ map fst b"
proof -
  obtain x n v where run: "run_node_prog (process_proposal_batch (map snd b)) s = (x, s\<lparr>sys_node := n, sys_calls := v\<rparr>)"
    and len: "length x = length b"
    by (metis length_map length_process_proposal_batch run_node_prog_frame surj_pair)
  show "proposal_worker (process_batch b s) = P_idle" "proposal_queue (process_batch b s) = proposal_queue s"
    "read_worker (process_batch b s) = read_worker s" "read_queue (process_batch b s) = read_queue s"
    "map fst (proposals_done (process_batch b s)) = map fst (proposals_done s) @ map fst b"
    using len by (simp_all add: process_batch_def run)
qed

lemma proposal_round_frame:
  assumes "length (proposal_queue s) \<le> kMaximumProposalBatch"
  shows "proposal_worker (proposal_round s) = P_idle" "proposal_queue (proposal_round s) = []"
    "read_worker (proposal_round s) = read_worker s" "read_queue (proposal_round s) = read_queue s"
    "map fst (proposals_done (proposal_round s)) = map fst (proposals_done s) @ map fst (proposal_queue s)"
  by (simp_all add: proposal_round_eq [OF assms] process_batch_frame)

text \<open>A submission to a node with an idle proposal worker is answered, whatever the reader does.\<close>

lemma enqueue_reachable:
  "reachable s \<Longrightarrow> reachable (snd (enqueue_proposal c s))"
  "reachable s \<Longrightarrow> reachable (snd (enqueue_read key s))"
  by (erule reachable.step, rule node_step.client_submit node_step.client_get, rule surjective_pairing)+

lemma rn_submit_reachable: "reachable s \<Longrightarrow> reachable (snd (rn_submit c s))"
  by (simp add: rn_submit_def case_prod_beta run_node_prog_reachable enqueue_reachable split: option.split)

lemma rn_submit_queue:
  assumes "rn_submit c s = (r, s')" and "proposal_worker s = P_idle" and "proposal_queue s = []"
  shows "proposal_worker s' = P_idle" "read_worker s' = read_worker s" "read_queue s' = read_queue s"
    "r = Inl x \<Longrightarrow> proposal_queue s' = []" "r = Inr p \<Longrightarrow> proposal_queue s' = [(p, c)]"
proof -
  obtain y n v where run: "run_node_prog submit_checks s = (y, s\<lparr>sys_node := n, sys_calls := v\<rparr>)"
    by (metis run_node_prog_frame surj_pair)
  show "proposal_worker s' = P_idle" "read_worker s' = read_worker s" "read_queue s' = read_queue s"
    "r = Inl x \<Longrightarrow> proposal_queue s' = []" "r = Inr p \<Longrightarrow> proposal_queue s' = [(p, c)]"
    using assms by (auto simp: rn_submit_def run enqueue_proposal_def split: option.splits if_splits)
qed


lemma quiet_submit:
  assumes "quiet s"
  shows "quiet (snd (run_state (blocking_submit c) s))"
proof -
  obtain r s' where sub: "rn_submit c s = (r, s')" by fastforce
  have q: "proposal_worker s = P_idle" "proposal_queue s = []" "read_worker s = R_idle" "read_queue s = []"
    using assms by (simp_all add: quiet_def)
  have reach: "reachable s'"
    using rn_submit_reachable [of s c] assms sub by (simp add: quiet_def)
  note frame = rn_submit_queue [OF sub q(1,2)]
  show ?thesis
  proof (cases r)
    case (Inl x)
    then show ?thesis using frame reach q by (simp add: blocking_submit_def sub quiet_def)
  next
    case (Inr p)
    then have len: "length (proposal_queue s') \<le> kMaximumProposalBatch"
      using frame(5) by (simp add: kMaximumProposalBatch_def)
    have "reachable (proposal_round s')"
      using proposal_round_reachable [OF reach frame(1) _ len] frame(5) [OF Inr] by simp
    then show ?thesis
      using Inr frame q by (simp add: blocking_submit_def sub quiet_def Let_def proposal_round_frame [OF len])
  qed
qed

lemma complete_reads_frame:
  "read_worker (complete_reads r b s) = R_idle" "read_queue (complete_reads r b s) = read_queue s"
  "proposal_worker (complete_reads r b s) = proposal_worker s" "proposal_queue (complete_reads r b s) = proposal_queue s"
proof -
  obtain x n v where run: "run_node_prog (finish_reads r (map snd b)) s = (x, s\<lparr>sys_node := n, sys_calls := v\<rparr>)"
    by (metis run_node_prog_frame surj_pair)
  show "read_worker (complete_reads r b s) = R_idle" "read_queue (complete_reads r b s) = read_queue s"
    "proposal_worker (complete_reads r b s) = proposal_worker s" "proposal_queue (complete_reads r b s) = proposal_queue s"
    by (simp_all add: complete_reads_def run)
qed

lemma quiet_barrier:
  assumes "reachable s" and "read_worker s = R_batch b" and "proposal_worker s = P_idle"
    and "proposal_queue s = []" and "read_queue s = []"
  shows "quiet (let s = submit_barrier b s in
     case read_worker s of
       R_waiting b p \<Rightarrow> (let s = proposal_round s in complete_reads (the (map_of (proposals_done s) p)) b s)
     | _ \<Rightarrow> s)"
proof -
  obtain x n v where run: "run_node_prog (count_read_batch (length b)) s = (x, s\<lparr>sys_node := n, sys_calls := v\<rparr>)"
    by (metis run_node_prog_frame surj_pair)
  let ?s = "s\<lparr>sys_node := n, sys_calls := v\<rparr>"
  obtain r s' where sub: "rn_submit read_barrier ?s = (r, s')" by fastforce
  have frame: "proposal_worker s' = P_idle" "read_worker s' = R_batch b" "read_queue s' = []"
    and inl: "\<And>x. r = Inl x \<Longrightarrow> proposal_queue s' = []"
    and inr: "\<And>p. r = Inr p \<Longrightarrow> proposal_queue s' = [(p, read_barrier)]"
    using rn_submit_queue [OF sub] assms by simp_all
  have step: "reachable (submit_barrier b s)"
    by (rule reachable_worker [OF assms(1) worker_step.barrier_submitted [OF assms(2)]])
  show ?thesis
  proof (cases r)
    case (Inl x)
    then have eq: "submit_barrier b s = complete_reads x b s'"
      by (simp add: submit_barrier_def run sub)
    then show ?thesis
      using step frame inl [OF Inl] by (simp add: quiet_def complete_reads_frame)
  next
    case (Inr p)
    let ?w = "s'\<lparr>read_worker := R_waiting b p\<rparr>"
    have eq: "submit_barrier b s = ?w"
      using Inr by (simp add: submit_barrier_def run sub)
    have len: "length (proposal_queue ?w) \<le> kMaximumProposalBatch"
      using inr [OF Inr] by (simp add: kMaximumProposalBatch_def)
    have reach: "reachable (proposal_round ?w)"
      using proposal_round_reachable [OF _ _ _ len] step eq frame inr [OF Inr] by simp
    have "p \<in> set (map fst (proposals_done (proposal_round ?w)))"
      using proposal_round_frame(5) [OF len] inr [OF Inr] by simp
    then obtain a where a: "map_of (proposals_done (proposal_round ?w)) p = Some a"
      by (metis list.set_map map_of_eq_None_iff not_None_eq)
    have "reachable (complete_reads a b (proposal_round ?w))"
      using proposal_round_frame(3) [OF len] map_of_SomeD [OF a]
      by (intro reachable_worker [OF reach worker_step.reads_completed]) simp_all
    then show ?thesis
      using a frame by (simp add: eq quiet_def complete_reads_frame proposal_round_frame [OF len])
  qed
qed

lemma quiet_read_round:
  assumes "reachable s" and "read_worker s = R_idle" and "proposal_worker s = P_idle"
    and "proposal_queue s = []" and "read_queue s = [e]"
  shows "quiet (read_round s)"
proof -
  let ?s1 = "s\<lparr>read_worker := R_collecting\<rparr>"
  have "reachable ?s1"
    using assms(5) by (intro reachable_worker [OF assms(1) worker_step.reads_seen [OF assms(2)]]) simp
  then have "reachable (take_reads ?s1)"
    by (rule reachable_worker) (simp add: worker_step.reads_taken)
  then have "quiet (let s = submit_barrier [e] (take_reads ?s1) in
     case read_worker s of
       R_waiting b p \<Rightarrow> (let s = proposal_round s in complete_reads (the (map_of (proposals_done s) p)) b s)
     | _ \<Rightarrow> s)"
    using assms by (intro quiet_barrier) (simp_all add: take_reads_def kMaximumReadBatch_def)
  moreover have "read_worker (take_reads ?s1) = R_batch [e]"
    using assms(5) by (simp add: take_reads_def kMaximumReadBatch_def)
  ultimately show ?thesis by (simp add: read_round_def Let_def)
qed

lemma quiet_get:
  assumes "quiet s"
  shows "quiet (snd (run_state (blocking_get key) s))"
proof -
  obtain x n v where run: "run_node_prog (get_checks key) s = (x, s\<lparr>sys_node := n, sys_calls := v\<rparr>)"
    by (metis run_node_prog_frame surj_pair)
  let ?s = "s\<lparr>sys_node := n, sys_calls := v\<rparr>"
  have q: "quiet ?s"
    using quiet_run_node_prog [OF assms, of "get_checks key"] run by simp
  then have reach: "reachable (snd (enqueue_read key ?s))"
    by (intro enqueue_reachable) (simp add: quiet_def)
  have "quiet (read_round (snd (enqueue_read key ?s)))" if "fst (enqueue_read key ?s) = Inr p" for p
    using that q reach by (intro quiet_read_round [where e = "(p, key)"])
      (auto simp: enqueue_read_def quiet_def split: if_splits)
  moreover have "quiet (snd (enqueue_read key ?s))" if "fst (enqueue_read key ?s) = Inl r" for r
    using that q by (auto simp: enqueue_read_def split: if_splits)
  ultimately show ?thesis
    using q by (cases "enqueue_read key ?s")
      (auto simp: blocking_get_def linearizable_get_def run Let_def split: option.split sum.split)
qed


section \<open>The contract of the interface\<close>

text \<open>
  What the service relies on: every operation of the node keeps the invariant of the node. Then
  so does every command and every session.
\<close>

definition preserves :: "('w \<Rightarrow> bool) \<Rightarrow> ('w, 'a) state \<Rightarrow> bool" where
  "preserves good p \<longleftrightarrow> (\<forall>w. good w \<longrightarrow> good (snd (run_state p w)))"

lemma preserves_return: "preserves good (State_Monad.return x)"
  by (simp add: preserves_def)

lemma preserves_bind: "preserves good p \<Longrightarrow> (\<And>x. preserves good (f x)) \<Longrightarrow> preserves good (State_Monad.bind p f)"
  by (simp add: preserves_def case_prod_beta)

lemma preserves_if: "preserves good a \<Longrightarrow> preserves good b \<Longrightarrow> preserves good (if c then a else b)"
  by simp

lemmas preserves_intros = preserves_return preserves_bind preserves_if

locale node_interface =
  fixes api :: "'w raft_api" and good :: "'w \<Rightarrow> bool"
  assumes submit_keeps: "preserves good (api_submit api c)"
    and get_keeps: "preserves good (api_linearizable_get api key)"
    and is_leader_keeps: "preserves good (api_is_leader api)"
    and endpoint_keeps: "preserves good (api_leader_client_endpoint api)"
    and info_keeps: "preserves good (api_info api)"
    and now_keeps: "preserves good (api_now api)"
begin

lemma not_leader_keeps: "preserves good (not_leader_error api)"
  by (simp add: not_leader_error_def preserves_intros endpoint_keeps)

lemma execute_write_keeps: "preserves good (execute_write api args)"
  by (auto simp: execute_write_def write_reply_def split: sum.split
      intro!: preserves_intros submit_keeps not_leader_keeps)

lemma execute_authenticated_keeps: "preserves good (execute_authenticated api svc args)"
  by (auto simp: execute_authenticated_def execute_get_def info_response_def role_response_def Let_def
      intro!: preserves_intros execute_write_keeps get_keeps not_leader_keeps info_keeps now_keeps
        is_leader_keeps endpoint_keeps)

lemma execute_keeps: "preserves good (execute api svc args session)"
  by (auto simp: execute_def Let_def intro!: preserves_intros execute_authenticated_keeps)

lemma execute_all_keeps: "preserves good (execute_all api svc cmds session)"
  by (induction cmds arbitrary: session)
    (auto simp: case_prod_beta intro!: preserves_intros execute_keeps)

end

interpretation na: node_interface "node_api now" quiet
  by unfold_locales (auto simp: preserves_def node_api_def quiet_submit quiet_get)

lemma quiet_answered:
  assumes "quiet s"
  shows "fst ` set (proposals_done s) = {..<next_proposal s}" "fst ` set (reads_done s) = {..<next_read s}"
  using assms reachable_system_ok [of s] mset_eq_setD [of "all_proposals s" "[0..<next_proposal s]"]
    mset_eq_setD [of "all_reads s" "[0..<next_read s]"]
  by (simp_all add: quiet_def system_ok_def all_proposals_def all_reads_def atLeast0LessThan del: mset_upt)

section \<open>Properties\<close>

text \<open>
  C18. No command reaches the node before the right password: whatever commands a session that is not
  authenticated sends, as long as none of them is AUTH with exactly the configured password, the
  state of the node is unchanged, the session stays closed, and the replies depend on nothing but
  the commands themselves. In particular every data command gets NOAUTH.
\<close>

theorem closed_session_reaches_nothing:
  assumes "\<not> authenticated session" and "list_all (\<lambda>args. \<not> right_password svc args) cmds"
  shows "\<exists>replies. (\<forall>api w. run_state (execute_all api svc cmds session) w = ((replies, session), w)) \<and>
    (\<forall>k<length cmds. cmds ! k \<noteq> [] \<and> uppercase_ascii (hd (cmds ! k)) \<notin> {''PING'', ''AUTH''} \<longrightarrow>
       replies ! k = Inr (''-NOAUTH Authentication required'' @ CRLF))"
proof (intro exI conjI allI impI)
  show "run_state (execute_all api svc cmds session) w = ((map closed_reply cmds, session), w)" for api w
    by (rule execute_all_closed [OF assms])
qed (simp add: closed_reply_def encode_error_def contains_newline_def)

definition example_service :: CommandService where
  "example_service = new_CommandService (node1_config\<lparr>cfg_requirepass := ''secret''\<rparr>) 0"

theorem closed_session_reaches_nothing_witness:
  "\<exists>replies. run_state (execute_all (node_api 0) example_service
       [[''AUTH'', ''secre''], [''SET'', ''k'', ''v'']] new_session) example_run = ((replies, new_session), example_run) \<and>
     replies ! 1 = Inr (''-NOAUTH Authentication required'' @ CRLF)"
proof -
  have 1: "\<not> authenticated new_session"
    by (simp add: new_session_def)
  have 2: "list_all (\<lambda>args. \<not> right_password example_service args) [[''AUTH'', ''secre''], [''SET'', ''k'', ''v'']]"
    by (simp add: right_password_def example_service_def new_CommandService_def)
  have up: "uppercase_ascii ''SET'' = ''SET''"
    by (simp add: uppercase_ascii_def toupper_def)
  show ?thesis
    using closed_session_reaches_nothing [OF 1 2] by (fastforce simp: up)
qed

text \<open>
  C19. A write of an authenticated session is submitted to the node exactly once and exactly as it was
  spelled: name in any case, key, value and, if given, the client and request numbers, which must be
  positive decimal numbers of at most 64 bits. The reply is made from the result of that submission.
  Arguments that do not spell a write (wrong number of arguments, wrong keywords, a number that is not
  decimal, zero or too large) are answered with an ERR error and never reach the node.
\<close>

theorem writes_submitted_as_spelled:
  assumes "authenticated session" and "args \<noteq> []" and "write_command (uppercase_ascii (hd args))"
  shows "(\<forall>c. spelled_write args c \<longrightarrow>
       run_state (execute api svc args session) w =
         (let (result, w) = run_state (api_submit api c) w;
              (reply, w) = run_state (write_reply api (uppercase_ascii (hd args)) result) w
          in ((reply, session), w))) \<and>
     ((\<nexists>c. spelled_write args c) \<longrightarrow>
       (\<exists>t. run_state (execute api svc args session) w = ((Inr (''-ERR '' @ t @ CRLF), session), w)))"
proof -
  have "uppercase_ascii (hd args) \<noteq> ''PING''" "uppercase_ascii (hd args) \<noteq> ''AUTH''"
    using assms(3) by (auto simp: write_command_def)
  then have run: "run_state (execute api svc args session) w =
      (let (reply, w) = run_state (execute_write api args) w in ((reply, session), w))"
    using assms by (simp add: execute_def execute_authenticated_def Let_def split: prod.split)
  show ?thesis
    unfolding run write_of_iff [OF assms(3,2), symmetric]
    using write_of_error [OF assms(3)]
    by (cases "write_of args") (auto simp: execute_write_def Let_def split: prod.split)
qed

theorem writes_submitted_as_spelled_witness:
  "\<exists>t. run_state (execute (node_api 0) example_service [''set'', ''k'', ''v'', ''client'', ''0'', ''request'', ''1'']
     \<lparr>authenticated = True\<rparr>) example_run = ((Inr (''-ERR '' @ t @ CRLF), \<lparr>authenticated = True\<rparr>), example_run)"
proof -
  let ?args = "[''set'', ''k'', ''v'', ''client'', ''0'', ''request'', ''1'']"
  have up: "uppercase_ascii (hd ?args) = ''SET''"
    by code_simp
  have "\<not> spelled_number ''0'' n" for n
    by (auto simp: spelled_number_def decimal_value_def digit_value_def unat_eq_0)
  then have "\<nexists>c. spelled_write ?args c"
    by (auto simp: spelled_write_def spelled_body_def append_eq_Cons_conv)
  then show ?thesis
    using writes_submitted_as_spelled [of "\<lparr>authenticated = True\<rparr>" ?args "node_api 0" example_service example_run]
      up by (simp add: write_command_def)
qed

text \<open>
  C20. The return value of \<open>execute\<close> is one complete RESP2 frame: any parser whose size limit admits
  the reply reads exactly one value and nothing is left. The only other outcome, for any command,
  any session and any behaviour of the node, is the exception \<open>encode_error\<close> throws for a text with a
  line break.
\<close>

theorem reply_is_one_frame:
  "case fst (fst (run_state (execute api svc args session) w)) of
     Inr m \<Rightarrow> (\<exists>v. \<forall>mx. length m \<le> mx \<and> mx < 2 ^ 63 \<longrightarrow> parse_value (Suc (Suc 0)) mx m = Inr (Some (v, [])))
   | Inl e \<Rightarrow> e = Invalid_argument ''RESP error contains newline''"
proof -
  have "reply_ok (fst (fst (run_state (execute api svc args session) w)))"
    using execute_reply [of api svc args session] by (simp add: always_def case_prod_beta)
  then show ?thesis
    by (auto simp: reply_ok_def complete_frame_def simp del: parse_value.simps split: sum.splits)
qed

theorem reply_is_one_frame_witness:
  "fst (fst (run_state (execute (node_api 0) example_service [''ping''] new_session) example_run)) =
     Inr (''+PONG'' @ CRLF) \<and>
   (\<exists>v. \<forall>mx. length (''+PONG'' @ CRLF) \<le> mx \<and> mx < 2 ^ 63 \<longrightarrow>
     parse_value (Suc (Suc 0)) mx (''+PONG'' @ CRLF) = Inr (Some (v, [])))"
proof -
  have ping: "uppercase_ascii ''ping'' = ''PING''"
    by code_simp
  have "fst (fst (run_state (execute (node_api 0) example_service [''ping''] new_session) example_run)) =
     Inr (''+PONG'' @ CRLF)"
    by (simp add: execute_def ping encode_simple_string_def contains_newline_def)
  with reply_is_one_frame [of "node_api 0" example_service "[''ping'']" new_session example_run] show ?thesis
    by (simp del: parse_value.simps)
qed

text \<open>
  C39. Against the documented promise that a reply is always a frame, an authenticated client that
  sends an unknown command whose name contains a line break gets no reply: \<open>execute\<close> throws.
\<close>

theorem unknown_command_with_newline_throws:
  assumes "authenticated session" and "args \<noteq> []" and "contains_newline (hd args)"
    and "uppercase_ascii (hd args) \<notin> {''PING'', ''AUTH'', ''GET'', ''INFO'', ''ROLE''}"
    and "\<not> write_command (uppercase_ascii (hd args))"
  shows "run_state (execute api svc args session) w =
    ((Inl (Invalid_argument ''RESP error contains newline''), session), w)"
  using assms
  by (auto simp: execute_def execute_authenticated_def Let_def encode_error_def contains_newline_def)

theorem unknown_command_with_newline_throws_witness:
  "run_state (execute (node_api 0) example_service [[LF]] \<lparr>authenticated = True\<rparr>) example_run =
    ((Inl (Invalid_argument ''RESP error contains newline''), \<lparr>authenticated = True\<rparr>), example_run)"
  by (rule unknown_command_with_newline_throws)
    (simp_all add: contains_newline_def uppercase_ascii_def toupper_def write_command_def)

text \<open>
  Sessions run on the real node leave nothing behind: after any sequence of commands the node is
  still in a reachable state, both workers wait, and every proposal and every read it ever accepted
  has its answer, whatever the consensus library answered in between.
\<close>

theorem sessions_leave_nothing_pending:
  assumes "quiet s" and "run_state (execute_all (node_api now) svc cmds session) s = ((replies, session'), s')"
  shows "reachable s' \<and> proposal_worker s' = P_idle \<and> read_worker s' = R_idle \<and>
     fst ` set (proposals_done s') = {..<next_proposal s'} \<and> fst ` set (reads_done s') = {..<next_read s'}"
proof -
  have "quiet s'"
    using na.execute_all_keeps assms by (metis preserves_def snd_conv)
  then show ?thesis
    using quiet_answered [of s'] by (simp add: quiet_def)
qed


definition example_idle :: "nat node_system" where
  "example_idle = start_workers (initial_system example_node (\<lambda>_. example_instant))"

lemma example_idle_quiet: "quiet example_idle"
proof -
  have "reachable example_idle"
    unfolding example_idle_def
    by (rule reachable.step [OF reachable.initial node_step.workers_started]) (simp_all add: initial_system_def)
  then show ?thesis
    by (simp add: quiet_def example_idle_def start_workers_def initial_system_def)
qed

theorem sessions_leave_nothing_pending_witness:
  "\<exists>replies session s.
     run_state (execute_all (node_api 0) example_service [[''AUTH'', ''secret''], [''SET'', ''k'', ''v''], [''GET'', ''k'']]
       new_session) example_idle = ((replies, session), s) \<and>
     proposal_worker s = P_idle \<and> fst ` set (proposals_done s) = {..<next_proposal s}"
proof -
  obtain replies session s where run:
    "run_state (execute_all (node_api 0) example_service [[''AUTH'', ''secret''], [''SET'', ''k'', ''v''], [''GET'', ''k'']]
       new_session) example_idle = ((replies, session), s)"
    by (metis surj_pair)
  with sessions_leave_nothing_pending [OF example_idle_quiet run] show ?thesis by blast
qed

end
