(* ===== verification/Client.thy ===== *)
theory Client
  imports Command_Service
begin

text \<open>
  The client library, \<^verbatim>\<open>src/src/client/client.cpp\<close> and \<^verbatim>\<open>src/include/strongkv/client.h\<close>: finding
  the leader among the seed nodes, authenticating every connection, numbering the writes and
  retrying them. The sockets belong to the asio library: the state of a client contains the
  outcomes of its coming network calls, and a list of the requests it has handed to
  \<^theory_text>\<open>asio::write\<close>, each with the endpoint it was connected to. When the outcomes are used up, the next
  call fails with the end of the stream, so every finite behaviour of the network is a list of
  outcomes. The mutex is left out because every operation holds it for its whole body.

  The theorems: all attempts of one write carry the same client and request numbers, which no other
  write of the client has; the numbers are what the server reads; so, however often a write reaches
  the replicated state machine, it is applied once.
\<close>

section \<open>Endpoints and values\<close>

definition kMaximumResponseSize :: nat where
  "kMaximumResponseSize = 16 * 1024 * 1024"

record Endpoint =
  ep_host :: string
  ep_port :: string

definition endpoint_text :: "Endpoint \<Rightarrow> string" where
  "endpoint_text e = ep_host e @ '':'' @ ep_port e"

text \<open>\<^theory_text>\<open>std::stoul\<close> on a string of digits.\<close>

definition stoul :: "string \<Rightarrow> exn + nat" where
  "stoul s = (if decimal_value s > unat u64_max then Inl (Out_of_range ''stoul'') else Inr (decimal_value s))"

definition parse_endpoint :: "string \<Rightarrow> exn + Endpoint" where
  "parse_endpoint text =
     (case rfind_char (CHR '':'') text of
        None \<Rightarrow> Inl (ClientError (''invalid endpoint: '' @ text))
      | Some separator \<Rightarrow>
          if separator = 0 \<or> separator + 1 \<ge> length text then Inl (ClientError (''invalid endpoint: '' @ text))
          else
            let result = \<lparr>ep_host = take separator text, ep_port = drop (separator + 1) text\<rparr> in
            if \<not> list_all is_digit (ep_port result) then Inl (ClientError (''invalid endpoint port: '' @ text))
            else bindE (stoul (ep_port result)) (\<lambda>numeric.
              if numeric = 0 \<or> numeric > 65535 then Inl (ClientError (''endpoint port out of range: '' @ text))
              else Inr result))"

datatype ClientValueType = cvSimpleString | cvError | cvInteger | cvBulkString | cvNull | cvArray

datatype ClientValue =
  ClientValue (cv_type: ClientValueType) (cv_text: string) (cv_integer: i64) (cv_array: "ClientValue list")

primrec convert_value :: "RespValue \<Rightarrow> ClientValue" where
  "convert_value (RespValue t text i vs) =
     (case t of
        kSimpleString \<Rightarrow> ClientValue cvSimpleString text 0 []
      | kError \<Rightarrow> ClientValue cvError text 0 []
      | kRespInteger \<Rightarrow> ClientValue cvInteger '''' i []
      | kBulkString \<Rightarrow> ClientValue cvBulkString text 0 []
      | kNullBulkString \<Rightarrow> ClientValue cvNull '''' 0 []
      | kArray \<Rightarrow> ClientValue cvArray '''' 0 (map convert_value vs))"

text \<open>\<^theory_text>\<open>input >> word\<close>: the next word of a text stream, empty at its end, and what follows.\<close>

definition next_word :: "string \<Rightarrow> string \<times> string" where
  "next_word s = (let s = dropWhile is_space s in (takeWhile (\<lambda>c. \<not> is_space c) s, dropWhile (\<lambda>c. \<not> is_space c) s))"

text \<open>\<open>None\<close>: no redirect; an endpoint with an empty host: a redirect to an unknown leader.\<close>

definition redirect_from_error :: "RespValue \<Rightarrow> exn + Endpoint option" where
  "redirect_from_error v =
     (if rv_type v \<noteq> kError \<or> take 10 (rv_text v) \<noteq> ''NOT_LEADER'' then Inr None
      else
        let (_, input) = next_word (rv_text v);
            (host, input) = next_word input;
            (port, _) = next_word input
        in if host = [] \<or> port = [] then Inr (Some \<lparr>ep_host = '''', ep_port = ''''\<rparr>)
           else bindE (parse_endpoint (endpoint_text \<lparr>ep_host = host, ep_port = port\<rparr>)) (\<lambda>e. Inr (Some e)))"

definition require_ok :: "ClientValue \<Rightarrow> string \<Rightarrow> exn + unit" where
  "require_ok v operation =
     (if cv_type v = cvError then Inl (ClientError (cv_text v))
      else if cv_type v \<noteq> cvSimpleString \<or> cv_text v \<noteq> ''OK''
      then Inl (ClientError (operation @ '' returned an unexpected value''))
      else Inr ())"

definition require_integer :: "ClientValue \<Rightarrow> string \<Rightarrow> exn + i64" where
  "require_integer v operation =
     (if cv_type v = cvError then Inl (ClientError (cv_text v))
      else if cv_type v \<noteq> cvInteger then Inl (ClientError (operation @ '' did not return an integer''))
      else Inr (cv_integer v))"

text \<open>The clock and the two random numbers are arguments.\<close>

definition make_client_id :: "u64 \<Rightarrow> u32 \<Rightarrow> u32 \<Rightarrow> u64" where
  "make_client_id now r1 r2 =
     (let entropy = push_bit 32 (ucast r1) XOR ucast r2; v = now XOR entropy
      in if v = 0 then 1 else v)"

section \<open>The connection\<close>

datatype io_outcome = Io_error string | Io_ok | Io_data string

record client =
  cl_seeds :: "string list"
  cl_open :: bool
  cl_parser :: RespParser
  cl_current :: string
  cl_password :: string
  cl_client_id :: u64
  cl_next_request_id :: u64
  net_outcomes :: "io_outcome list"
  net_sent :: "(string \<times> string) list"

type_synonym 'a client_prog = "(client, 'a) prog"

definition new_client :: "string list \<Rightarrow> u64 \<Rightarrow> u32 \<Rightarrow> u32 \<Rightarrow> io_outcome list \<Rightarrow> exn + client" where
  "new_client seeds now r1 r2 net =
     bindE (new_parser kMaximumResponseSize 16) (\<lambda>p.
     if seeds = [] then Inl (ClientError ''at least one seed node is required'')
     else bindE (foldE (\<lambda>seed _. bindE (parse_endpoint seed) (\<lambda>_. Inr ())) seeds ()) (\<lambda>_.
       Inr \<lparr>cl_seeds = seeds, cl_open = False, cl_parser = p, cl_current = '''', cl_password = '''',
         cl_client_id = make_client_id now r1 r2, cl_next_request_id = 0, net_outcomes = net, net_sent = []\<rparr>))"

text \<open>A call of the network library: its outcome, and the error text of a failed one.\<close>

definition net_call :: "io_outcome client_prog" where
  "net_call s =
     (case net_outcomes s of
        [] \<Rightarrow> (Ret (Io_error ''End of file''), s)
      | r # rs \<Rightarrow> (Ret r, s\<lparr>net_outcomes := rs\<rparr>))"

definition net_check :: "string \<Rightarrow> unit client_prog" where
  "net_check failure =
     bindP net_call (\<lambda>r. case r of Io_error m \<Rightarrow> throwP (ClientError (failure @ m)) | _ \<Rightarrow> retP ())"

definition close_locked :: "unit client_prog" where
  "close_locked = modifyP (\<lambda>s. s\<lparr>cl_open := False, cl_parser := clear_buffer (cl_parser s), cl_current := ''''\<rparr>)"

definition connect_endpoint_locked :: "Endpoint \<Rightarrow> unit client_prog" where
  "connect_endpoint_locked e =
     bindP close_locked (\<lambda>_.
     bindP (net_check (''cannot resolve '' @ endpoint_text e @ '': '')) (\<lambda>_.
     bindP (net_check (''cannot connect '' @ endpoint_text e @ '': '')) (\<lambda>_.
     modifyP (\<lambda>s. s\<lparr>cl_open := True, cl_current := endpoint_text e, cl_parser := clear_buffer (cl_parser s)\<rparr>))))"

text \<open>The loop that waits for one value: every iteration uses one outcome of the network.\<close>

function read_value :: "RespValue client_prog" where
  "read_value s =
     (case next_value (cl_parser s) of
        Inl e \<Rightarrow> (Throw (ClientError (''invalid server response: '' @ what e)), s)
      | Inr (Some v, p) \<Rightarrow> (Ret v, s\<lparr>cl_parser := p\<rparr>)
      | Inr (None, p) \<Rightarrow>
          (case net_outcomes s of
             [] \<Rightarrow> (Throw (ClientError ''read failed: End of file''), s\<lparr>cl_parser := p\<rparr>)
           | r # rs \<Rightarrow>
               (let s = s\<lparr>cl_parser := p, net_outcomes := rs\<rparr> in
                case r of
                  Io_error m \<Rightarrow> (Throw (ClientError (''read failed: '' @ m)), s)
                | Io_ok \<Rightarrow> read_value s
                | Io_data d \<Rightarrow>
                    (case feed d p of
                       Inl e \<Rightarrow> (Throw (ClientError (''invalid server response: '' @ what e)), s)
                     | Inr p \<Rightarrow> read_value (s\<lparr>cl_parser := p\<rparr>)))))"
  by pat_completeness auto

termination
  by (relation "measure (\<lambda>s. length (net_outcomes s))") auto

declare read_value.simps [simp del]

definition request_once_locked :: "string list \<Rightarrow> RespValue client_prog" where
  "request_once_locked arguments =
     bindP (getP cl_open) (\<lambda>is_open.
     if \<not> is_open then throwP (ClientError ''client is not connected'')
     else
       bindP (modifyP (\<lambda>s. s\<lparr>net_sent := net_sent s @ [(cl_current s, encode_array arguments)]\<rparr>)) (\<lambda>_.
       bindP (net_check ''write failed: '') (\<lambda>_. read_value)))"

definition check_auth :: "RespValue \<Rightarrow> unit client_prog" where
  "check_auth v =
     (if rv_type v = kError then throwP (ClientError (rv_text v))
      else if rv_type v \<noteq> kSimpleString \<or> rv_text v \<noteq> ''OK''
      then throwP (ClientError ''AUTH returned an unexpected response'')
      else retP ())"

definition authenticate_current_locked :: "unit client_prog" where
  "authenticate_current_locked =
     bindP (getP cl_password) (\<lambda>password.
     bindP (request_once_locked [''AUTH'', password]) check_auth)"

definition authenticate_if_needed :: "unit client_prog" where
  "authenticate_if_needed =
     bindP (getP cl_password) (\<lambda>password. if password \<noteq> [] then authenticate_current_locked else retP ())"

text \<open>A handler for \<^theory_text>\<open>ClientError\<close> only: \<open>Inl\<close> the message.\<close>

definition try_client :: "'a client_prog \<Rightarrow> (string + 'a) client_prog" where
  "try_client m =
     catchP (bindP m (\<lambda>x. retP (Inr x)))
       (\<lambda>e. case e of ClientError text \<Rightarrow> retP (Inl text) | _ \<Rightarrow> throwP e)"

primrec connect_seeds :: "string list \<Rightarrow> string \<Rightarrow> unit client_prog" where
  "connect_seeds [] failures = throwP (ClientError (''all seed nodes failed: '' @ failures))"
| "connect_seeds (seed # seeds) failures =
     bindP (try_client
       (bindP (liftP (parse_endpoint seed)) (\<lambda>e.
        bindP (connect_endpoint_locked e) (\<lambda>_. authenticate_if_needed)))) (\<lambda>r.
     case r of
       Inr _ \<Rightarrow> retP ()
     | Inl text \<Rightarrow> connect_seeds seeds (failures @ text @ ''; ''))"

definition connect_any_locked :: "unit client_prog" where
  "connect_any_locked = bindP (getP cl_seeds) (\<lambda>seeds. connect_seeds seeds '''')"

text \<open>One attempt: the response, or where to try next.\<close>

definition attempt :: "string list \<Rightarrow> Endpoint option \<Rightarrow> (Endpoint option + RespValue) client_prog" where
  "attempt arguments directed =
     bindP (try_client
       (bindP (getP cl_open) (\<lambda>is_open.
        bindP
          (if is_open then retP ()
           else case directed of
             Some e \<Rightarrow>
               if ep_host e \<noteq> [] then bindP (connect_endpoint_locked e) (\<lambda>_. authenticate_if_needed)
               else connect_any_locked
           | None \<Rightarrow> connect_any_locked) (\<lambda>_.
        bindP (request_once_locked arguments) (\<lambda>response.
        bindP (liftP (redirect_from_error response)) (\<lambda>redirect.
        case redirect of
          None \<Rightarrow> retP (Inr response)
        | Some e \<Rightarrow> bindP close_locked (\<lambda>_. retP (Inl (if ep_host e = [] then None else Some e))))))))) (\<lambda>r.
     case r of
       Inr result \<Rightarrow> retP result
     | Inl _ \<Rightarrow> bindP close_locked (\<lambda>_. retP (Inl None)))"

primrec attempts :: "nat \<Rightarrow> string list \<Rightarrow> Endpoint option \<Rightarrow> RespValue client_prog" where
  "attempts 0 arguments directed = throwP (ClientError ''unable to reach the current leader after retries'')"
| "attempts (Suc n) arguments directed =
     bindP (attempt arguments directed) (\<lambda>r.
     case r of Inr response \<Rightarrow> retP response | Inl directed \<Rightarrow> attempts n arguments directed)"

definition request_with_redirect_locked :: "string list \<Rightarrow> RespValue client_prog" where
  "request_with_redirect_locked arguments =
     bindP (getP (\<lambda>s. length (cl_seeds s) + 3)) (\<lambda>max_attempts. attempts max_attempts arguments None)"

section \<open>Operations\<close>

definition connect :: "unit client_prog" where
  "connect = connect_any_locked"

definition auth :: "string \<Rightarrow> unit client_prog" where
  "auth password =
     bindP (getP cl_open) (\<lambda>is_open.
     bindP (if is_open then retP () else connect_any_locked) (\<lambda>_.
     bindP (request_once_locked [''AUTH'', password]) (\<lambda>v.
     bindP (check_auth v) (\<lambda>_. modifyP (\<lambda>s. s\<lparr>cl_password := password\<rparr>)))))"

definition close :: "unit client_prog" where
  "close = close_locked"

definition client_is_write :: "string \<Rightarrow> bool" where
  "client_is_write name \<longleftrightarrow>
     (let name = map toupper name in name = ''SET'' \<or> name = ''DEL'' \<or> name = ''INCR'' \<or> name = ''DECR'')"

definition request_suffix :: "u64 \<Rightarrow> u64 \<Rightarrow> string list" where
  "request_suffix client request = [''CLIENT'', to_string_nat (unat client), ''REQUEST'', to_string_nat (unat request)]"

definition client_command :: "string list \<Rightarrow> ClientValue client_prog" where
  "client_command arguments =
     (if arguments = [] then throwP (ClientError ''empty command'')
      else
        bindP
          (if client_is_write (hd arguments) then
             bindP (getP cl_next_request_id) (\<lambda>i.
             if i = u64_max then throwP (ClientError ''client request id exhausted'')
             else
               bindP (modifyP (\<lambda>s. s\<lparr>cl_next_request_id := i + 1\<rparr>)) (\<lambda>_.
               getP (\<lambda>s. arguments @ request_suffix (cl_client_id s) (cl_next_request_id s))))
           else retP arguments) (\<lambda>arguments.
        bindP (request_with_redirect_locked arguments) (\<lambda>v. retP (convert_value v))))"

definition client_set :: "string \<Rightarrow> string \<Rightarrow> unit client_prog" where
  "client_set key v = bindP (client_command [''SET'', key, v]) (\<lambda>r. liftP (require_ok r ''SET''))"

definition client_get :: "string \<Rightarrow> string option client_prog" where
  "client_get key =
     bindP (client_command [''GET'', key]) (\<lambda>v.
     if cv_type v = cvError then throwP (ClientError (cv_text v))
     else if cv_type v = cvNull then retP None
     else if cv_type v \<noteq> cvBulkString then throwP (ClientError ''GET returned an unexpected value'')
     else retP (Some (cv_text v)))"

definition client_del :: "string \<Rightarrow> i64 client_prog" where
  "client_del key = bindP (client_command [''DEL'', key]) (\<lambda>v. liftP (require_integer v ''DEL''))"

definition client_incr :: "string \<Rightarrow> i64 client_prog" where
  "client_incr key = bindP (client_command [''INCR'', key]) (\<lambda>v. liftP (require_integer v ''INCR''))"

definition client_decr :: "string \<Rightarrow> i64 client_prog" where
  "client_decr key = bindP (client_command [''DECR'', key]) (\<lambda>v. liftP (require_integer v ''DECR''))"

definition client_ping :: "string client_prog" where
  "client_ping =
     bindP (client_command [''PING'']) (\<lambda>v.
     if cv_type v = cvError then throwP (ClientError (cv_text v))
     else if cv_type v \<noteq> cvSimpleString then throwP (ClientError ''PING returned an unexpected value'')
     else retP (cv_text v))"

definition client_role :: "string list client_prog" where
  "client_role =
     bindP (client_command [''ROLE'']) (\<lambda>v.
     if cv_type v = cvError then throwP (ClientError (cv_text v))
     else if cv_type v \<noteq> cvArray then throwP (ClientError ''ROLE returned an unexpected value'')
     else liftP (foldE (\<lambda>item output.
       if cv_type item \<noteq> cvBulkString \<and> cv_type item \<noteq> cvSimpleString
       then Inl (ClientError ''ROLE array contains a non-string value'')
       else Inr (output @ [cv_text item])) (cv_array v) []))"

definition client_info :: "string client_prog" where
  "client_info =
     bindP (client_command [''INFO'']) (\<lambda>v.
     if cv_type v = cvError then throwP (ClientError (cv_text v))
     else if cv_type v \<noteq> cvBulkString then throwP (ClientError ''INFO returned an unexpected value'')
     else retP (cv_text v))"


section \<open>What a client sends\<close>

text \<open>
  A step of a client that keeps its identity and, while its password is \<open>p\<close>, sends nothing but AUTH
  with this password and the frames of \<open>F\<close>.
\<close>

definition sends :: "string \<Rightarrow> string set \<Rightarrow> client \<Rightarrow> client \<Rightarrow> bool" where
  "sends p F s t \<longleftrightarrow>
     cl_seeds t = cl_seeds s \<and> cl_client_id t = cl_client_id s \<and> cl_next_request_id t = cl_next_request_id s \<and>
     (cl_password s = p \<longrightarrow> cl_password t = p \<and>
        (\<exists>new. net_sent t = net_sent s @ new \<and> snd ` set new \<subseteq> insert (encode_array [''AUTH'', p]) F))"

lemma sends_same:
  "cl_seeds t = cl_seeds s \<Longrightarrow> cl_client_id t = cl_client_id s \<Longrightarrow> cl_next_request_id t = cl_next_request_id s \<Longrightarrow>
   cl_password t = cl_password s \<Longrightarrow> net_sent t = net_sent s \<Longrightarrow> sends p F s t"
  by (simp add: sends_def)

interpretation cs: transition_relation "sends p F" for p F
proof
  show "sends p F s s" for s by (rule sends_same) simp_all
  show "sends p F s u" if "sends p F s t" "sends p F t u" for s t u
    using that unfolding sends_def by (auto simp: image_Un)
qed

lemma keeps_sends_iff: "keeps (sends p F) m \<longleftrightarrow> (\<forall>s. sends p F s (snd (m s)))"
  by (simp add: keeps_def)

lemma keeps_if: "keeps R a \<Longrightarrow> keeps R b \<Longrightarrow> keeps R (if c then a else b)"
  by simp

lemmas sends_intros = cs.keeps_retP cs.keeps_throwP cs.keeps_liftP cs.keeps_getP cs.keeps_bindP cs.keeps_catchP keeps_if

lemma keeps_net_call: "keeps (sends p F) net_call"
  by (auto simp: keeps_sends_iff net_call_def intro!: sends_same split: list.split)

lemma keeps_net_check: "keeps (sends p F) (net_check m)"
  by (auto simp: net_check_def intro!: sends_intros keeps_net_call split: io_outcome.split)

lemma keeps_close: "keeps (sends p F) close_locked"
  by (simp add: keeps_sends_iff close_locked_def sends_same)

lemma keeps_connect_endpoint: "keeps (sends p F) (connect_endpoint_locked e)"
proof -
  have "keeps (sends p F) (modifyP (\<lambda>s. s\<lparr>cl_open := True, cl_current := a, cl_parser := clear_buffer (cl_parser s)\<rparr>))" for a
    by (simp add: keeps_sends_iff sends_same)
  then show ?thesis
    by (auto simp: connect_endpoint_locked_def intro!: sends_intros keeps_net_check keeps_close)
qed

lemma read_value_frame:
  "cl_seeds (snd (read_value s)) = cl_seeds s \<and> cl_client_id (snd (read_value s)) = cl_client_id s \<and>
   cl_next_request_id (snd (read_value s)) = cl_next_request_id s \<and> cl_password (snd (read_value s)) = cl_password s \<and>
   net_sent (snd (read_value s)) = net_sent s"
proof (induction s rule: read_value.induct)
  case (1 s)
  show ?case
    by (subst (1 2 3 4 5) read_value.simps) (use 1 in \<open>auto simp: Let_def split: sum.splits option.splits list.splits io_outcome.splits\<close>)
qed

lemma keeps_read_value: "keeps (sends p F) read_value"
  using read_value_frame by (simp add: keeps_sends_iff sends_same)

lemma keeps_request_once:
  assumes "encode_array args \<in> insert (encode_array [''AUTH'', p]) F"
  shows "keeps (sends p F) (request_once_locked args)"
proof -
  have "keeps (sends p F) (modifyP (\<lambda>s. s\<lparr>net_sent := net_sent s @ [(cl_current s, encode_array args)]\<rparr>))"
    using assms by (auto simp: keeps_sends_iff sends_def)
  then show ?thesis
    by (auto simp: request_once_locked_def intro!: sends_intros keeps_net_check keeps_read_value)
qed

lemma keeps_check_auth: "keeps (sends p F) (check_auth v)"
  by (simp add: check_auth_def sends_intros)

text \<open>The password that is sent is the one the client has.\<close>

lemma keeps_password:
  assumes "\<And>q. keeps (sends q F) (m q)"
  shows "keeps (sends p F) (bindP (getP cl_password) m)"
proof -
  have "sends p F s (snd (m (cl_password s) s))" for s
    using assms [of "cl_password s"] unfolding keeps_sends_iff by (auto simp: sends_def)
  then show ?thesis
    by (simp add: keeps_sends_iff bindP_def)
qed

lemma keeps_authenticate: "keeps (sends p F) authenticate_current_locked" "keeps (sends p F) authenticate_if_needed"
proof -
  show auth: "keeps (sends p F) authenticate_current_locked" for p
    unfolding authenticate_current_locked_def
    by (intro keeps_password sends_intros keeps_request_once keeps_check_auth) simp
  show "keeps (sends p F) authenticate_if_needed"
    unfolding authenticate_if_needed_def by (intro keeps_password sends_intros auth)
qed

lemma keeps_try_client: "keeps (sends p F) m \<Longrightarrow> keeps (sends p F) (try_client m)"
  by (auto simp: try_client_def intro!: sends_intros split: exn.split)

lemma keeps_connect_seeds: "keeps (sends p F) (connect_seeds seeds failures)"
  by (induction seeds arbitrary: failures)
    (auto intro!: sends_intros keeps_try_client keeps_connect_endpoint keeps_authenticate split: sum.split)

lemma keeps_connect_any: "keeps (sends p F) connect_any_locked"
  by (simp add: connect_any_locked_def sends_intros keeps_connect_seeds)

lemma keeps_attempt:
  assumes "encode_array args \<in> insert (encode_array [''AUTH'', p]) F"
  shows "keeps (sends p F) (attempt args directed)"
  by (auto simp: attempt_def intro!: sends_intros keeps_try_client keeps_connect_endpoint keeps_authenticate
      keeps_connect_any keeps_request_once assms keeps_close split: option.split sum.split)

lemma keeps_attempts:
  assumes "encode_array args \<in> insert (encode_array [''AUTH'', p]) F"
  shows "keeps (sends p F) (attempts n args directed)"
  by (induction n arbitrary: directed)
    (auto intro!: sends_intros keeps_attempt assms split: sum.split)

lemma keeps_request:
  assumes "encode_array args \<in> insert (encode_array [''AUTH'', p]) F"
  shows "keeps (sends p F) (request_with_redirect_locked args)"
  unfolding request_with_redirect_locked_def by (intro sends_intros keeps_attempts assms)


text \<open>One command: a write takes the next request number, anything else keeps the counter.\<close>

lemma client_command_sends:
  assumes "client_command args s = (r, t)" and "args \<noteq> []"
    and "client_is_write (hd args) \<Longrightarrow> cl_next_request_id s \<noteq> u64_max"
  shows "\<exists>i. i = (if client_is_write (hd args) then cl_next_request_id s + 1 else cl_next_request_id s) \<and>
     sends (cl_password s)
       {encode_array (if client_is_write (hd args) then args @ request_suffix (cl_client_id s) i else args)}
       (s\<lparr>cl_next_request_id := i\<rparr>) t"
proof -
  define i where "i = (if client_is_write (hd args) then cl_next_request_id s + 1 else cl_next_request_id s)"
  define full where "full = (if client_is_write (hd args) then args @ request_suffix (cl_client_id s) i else args)"
  let ?s = "s\<lparr>cl_next_request_id := i\<rparr>"
  have "client_command args s = bindP (request_with_redirect_locked full) (\<lambda>v. retP (convert_value v)) ?s"
    using assms(2,3) by (auto simp: client_command_def bindP_def i_def full_def)
  moreover have "keeps (sends (cl_password s) {encode_array full})
      (bindP (request_with_redirect_locked full) (\<lambda>v. retP (convert_value v)))"
    by (intro sends_intros keeps_request) simp
  ultimately have "sends (cl_password s) {encode_array full} ?s t"
    using assms(1) unfolding keeps_sends_iff by (metis snd_conv)
  then show ?thesis using i_def unfolding full_def by blast
qed

lemma client_command_refused:
  "client_is_write (hd args) \<Longrightarrow> cl_next_request_id s = u64_max \<Longrightarrow> args \<noteq> [] \<Longrightarrow> snd (client_command args s) = s"
  "client_command [] s = (Throw (ClientError ''empty command''), s)"
  by (simp_all add: client_command_def bindP_def)

section \<open>The life of a client\<close>

inductive client_reachable :: "client \<Rightarrow> bool" where
  created: "new_client seeds now r1 r2 net = Inr s \<Longrightarrow> client_reachable s"
| connected: "client_reachable s \<Longrightarrow> client_reachable (snd (connect s))"
| authenticated: "client_reachable s \<Longrightarrow> client_reachable (snd (auth password s))"
| closed: "client_reachable s \<Longrightarrow> client_reachable (snd (close s))"
| commanded: "client_reachable s \<Longrightarrow> client_reachable (snd (client_command args s))"
| network: "client_reachable s \<Longrightarrow> client_reachable (s\<lparr>net_outcomes := net\<rparr>)"

text \<open>Every frame is a command that is no write, or a write with the client's number and a request number it has used.\<close>

definition frame_ok :: "u64 \<Rightarrow> u64 \<Rightarrow> string \<Rightarrow> bool" where
  "frame_ok client used m \<longleftrightarrow>
     (\<exists>args. m = encode_array args \<and> args \<noteq> [] \<and>
        (\<not> client_is_write (hd args) \<or>
         (\<exists>x i. args = x @ request_suffix client i \<and> x \<noteq> [] \<and> i \<noteq> 0 \<and> i \<le> used)))"

definition client_ok :: "client \<Rightarrow> bool" where
  "client_ok s \<longleftrightarrow> cl_client_id s \<noteq> 0 \<and>
     (\<forall>m\<in>snd ` set (net_sent s). frame_ok (cl_client_id s) (cl_next_request_id s) m)"

lemma client_is_write_AUTH: "\<not> client_is_write ''AUTH''"
  by code_simp

lemma frame_ok_auth: "frame_ok cl n (encode_array [''AUTH'', p])"
  unfolding frame_ok_def using client_is_write_AUTH by (intro exI [of _ "[''AUTH'', p]"]) simp

lemma frame_ok_mono: "frame_ok cl n m \<Longrightarrow> n \<le> n' \<Longrightarrow> frame_ok cl n' m"
  unfolding frame_ok_def by (blast intro: order_trans)

lemma client_ok_sends:
  assumes "client_ok s" and "sends (cl_password s) F s t"
    and "\<And>m. m \<in> F \<Longrightarrow> frame_ok (cl_client_id s) (cl_next_request_id s) m"
  shows "client_ok t"
proof -
  obtain new where "net_sent t = net_sent s @ new" "snd ` set new \<subseteq> insert (encode_array [''AUTH'', cl_password s]) F"
    and "cl_client_id t = cl_client_id s" "cl_next_request_id t = cl_next_request_id s"
    using assms(2) by (auto simp: sends_def)
  then show ?thesis
    using assms(1,3) frame_ok_auth unfolding client_ok_def by (auto simp: image_Un)
qed

lemma make_client_id_nonzero: "make_client_id now r1 r2 \<noteq> 0"
  by (simp add: make_client_id_def Let_def)

lemma next_id_grows:
  fixes x :: u64
  assumes "x \<noteq> u64_max"
  shows "unat (x + 1) = Suc (unat x)" "x \<le> x + 1" "x + 1 \<noteq> 0"
proof -
  have "unat x \<noteq> unat u64_max" using assms unsigned_word_eqI by blast
  then have "x < u64_max" using unsigned_less [of x, where ?'a = nat] by (simp add: word_less_nat_alt)
  then show s: "unat (x + 1) = Suc (unat x)" by (rule unat_plus_one)
  then show "x \<le> x + 1" by (simp add: word_le_nat_alt)
  show "x + 1 \<noteq> 0" using s by (metis unsigned_0 nat.distinct(1))
qed

lemma client_ok_command:
  assumes "client_ok s"
  shows "client_ok (snd (client_command args s))"
proof (cases "args = [] \<or> client_is_write (hd args) \<and> cl_next_request_id s = u64_max")
  case True
  then show ?thesis
    using assms client_command_refused(1) [of args s] client_command_refused(2) [of s] by (cases "args = []") simp_all
next
  case False
  define i where "i = (if client_is_write (hd args) then cl_next_request_id s + 1 else cl_next_request_id s)"
  let ?s = "s\<lparr>cl_next_request_id := i\<rparr>"
  let ?m = "encode_array (if client_is_write (hd args) then args @ request_suffix (cl_client_id s) i else args)"
  have i: "cl_next_request_id s \<le> i" "client_is_write (hd args) \<Longrightarrow> i \<noteq> 0"
    using False next_id_grows [of "cl_next_request_id s"] by (auto simp: i_def)
  have a: "sends (cl_password ?s) {?m} ?s (snd (client_command args s))"
    using client_command_sends [of args s] False by (auto simp: i_def prod_eq_iff)
  have b: "client_ok ?s"
    using assms i(1) frame_ok_mono unfolding client_ok_def by auto
  have c: "frame_ok (cl_client_id s) i ?m"
  proof (cases "client_is_write (hd args)")
    case True
    then show ?thesis
      using False i(2) unfolding frame_ok_def
      by (intro exI [of _ "args @ request_suffix (cl_client_id s) i"]) auto
  next
    case no: False
    then show ?thesis using False unfolding frame_ok_def by (intro exI [of _ args]) simp
  qed
  have "frame_ok (cl_client_id ?s) (cl_next_request_id ?s) m" if "m \<in> {?m}" for m
    using that c by (simp split del: if_split)
  then show ?thesis by (rule client_ok_sends [OF b a])
qed


lemma client_ok_frame [simp]:
  "client_ok (s\<lparr>cl_password := p\<rparr>) = client_ok s" "client_ok (s\<lparr>net_outcomes := net\<rparr>) = client_ok s"
  by (simp_all add: client_ok_def)

lemma client_ok_auth:
  assumes "client_ok s"
  shows "client_ok (snd (auth password s))"
proof -
  define m where "m = bindP (getP cl_open) (\<lambda>is_open.
     bindP (if is_open then retP () else connect_any_locked) (\<lambda>_.
     bindP (request_once_locked [''AUTH'', password]) check_auth))"
  have split: "auth password = bindP m (\<lambda>_. modifyP (\<lambda>s. s\<lparr>cl_password := password\<rparr>))"
    by (simp add: auth_def m_def bindP_assoc)
  have "keeps (sends p {encode_array [''AUTH'', password]}) m" for p
    unfolding m_def by (intro sends_intros keeps_connect_any keeps_request_once keeps_check_auth) simp
  then have "client_ok (snd (m s))"
    using client_ok_sends [OF assms, of "{encode_array [''AUTH'', password]}"] frame_ok_auth
    unfolding keeps_sends_iff by auto
  then show ?thesis
    unfolding split by (cases "m s"; cases "fst (m s)") (simp_all add: bindP_def)
qed

lemma client_reachable_ok: "client_reachable s \<Longrightarrow> client_ok s"
proof (induction rule: client_reachable.induct)
  case (created seeds now r1 r2 net s)
  then show ?case
    by (auto simp: new_client_def exn_simps client_ok_def make_client_id_nonzero split: if_splits)
next
  case (connected s)
  then show ?case
    using client_ok_sends [of s "{}"] keeps_connect_any unfolding keeps_sends_iff connect_def by auto
next
  case (closed s)
  then show ?case
    using client_ok_sends [of s "{}"] keeps_close unfolding keeps_sends_iff close_def by auto
next
  case (network s net)
  then show ?case by simp
qed (simp_all add: client_ok_auth client_ok_command)

section \<open>What the server reads\<close>

text \<open>The arguments a server finds in a frame, with the limits of its parser.\<close>

definition frame_arguments :: "nat \<Rightarrow> string \<Rightarrow> string list option" where
  "frame_arguments mx m =
     (case parse_value (Suc 16) mx m of
        Inr (Some (v, [])) \<Rightarrow> (case command_arguments v of Inr args \<Rightarrow> Some args | _ \<Rightarrow> None)
      | _ \<Rightarrow> None)"

lemma frame_arguments_encode:
  assumes "command_ok mx args" and "mx < 2 ^ 63"
  shows "frame_arguments mx (encode_array args) = Some args"
proof -
  have "parse_value (Suc (Suc 15)) mx (encode_array args) = Inr (Some (RespValue_array_value (map RespValue_bulk args), []))"
    using assms by (intro parse_encoded_command) (auto simp: command_ok_def list_all_iff)
  then show ?thesis
    using assms(1) by (simp add: frame_arguments_def command_arguments_bulk command_ok_def del: parse_value.simps)
qed

lemma spelled_number_to_string: "n \<noteq> 0 \<Longrightarrow> spelled_number s n \<longleftrightarrow> s = to_string_nat (unat n) \<or>
    (s \<noteq> [] \<and> list_all is_digit s \<and> decimal_value s = unat n)"
  by (auto simp: spelled_number_def list_all_iff digits_to_string_nat)

lemma uppercase_suffix: "uppercase_ascii ''CLIENT'' = ''CLIENT''" "uppercase_ascii ''REQUEST'' = ''REQUEST''"
  by code_simp+

lemma client_is_write_iff: "client_is_write name \<longleftrightarrow> write_command (uppercase_ascii name)"
  by (simp add: client_is_write_def write_command_def uppercase_ascii_def Let_def)

lemma spelled_body_write: "spelled_body body c \<Longrightarrow> body \<noteq> [] \<and> client_is_write (hd body)"
  by (auto simp: spelled_body_def client_is_write_iff write_command_def)

text \<open>A write the client numbers is read with exactly these numbers.\<close>

lemma spelled_numbered:
  assumes "spelled_body body c" and "cl \<noteq> 0" and "i \<noteq> 0"
  shows "spelled_write (body @ request_suffix cl i) (c\<lparr>client_id := cl, request_id := i\<rparr>)"
  using assms spelled_body_default [OF assms(1)]
  by (auto simp: spelled_write_def request_suffix_def uppercase_suffix spelled_number_to_string)

lemma spelled_suffix:
  assumes "spelled_write (x @ request_suffix cl i) c" and "x \<noteq> []"
  shows "client_id c = cl \<and> request_id c = i"
proof -
  have "\<not> spelled_body (x @ request_suffix cl i) c"
    using assms(2) by (auto simp: spelled_body_def request_suffix_def append_eq_Cons_conv Cons_eq_append_conv)
  then obtain a b where n: "spelled_number (to_string_nat (unat cl)) a" "spelled_number (to_string_nat (unat i)) b"
    and "client_id c = a" "request_id c = b"
    using assms(1) by (auto simp: spelled_write_def request_suffix_def)
  then show ?thesis
    by (simp add: spelled_number_def word_unat_eq_iff)
qed


text \<open>The writes among the frames a client has sent, as a server reads them.\<close>

definition issued :: "nat \<Rightarrow> client \<Rightarrow> Command \<Rightarrow> bool" where
  "issued mx s c \<longleftrightarrow>
     (\<exists>m args. m \<in> snd ` set (net_sent s) \<and> frame_arguments mx m = Some args \<and> args \<noteq> [] \<and>
        write_command (uppercase_ascii (hd args)) \<and> write_of args = Inr c)"

lemma frame_arguments_fits:
  assumes "length (encode_array args) \<le> mx" and "args \<noteq> []" and "mx < 2 ^ 63"
  shows "frame_arguments mx (encode_array args) = Some args"
proof (rule frame_arguments_encode [OF _ assms(3)])
  have "length args * 3 \<le> mx"
    using length_encode_array(1) [of args] assms(1) by linarith
  moreover have "length a \<le> mx" if "a \<in> set args" for a
    using length_encode_array(2) [OF that] assms(1) by linarith
  ultimately show "command_ok mx args"
    using assms(2) by (simp add: command_ok_def list_all_iff less_eq_div_iff_mult_less_eq)
qed

text \<open>No write of the client carries a number it has not used yet.\<close>

lemma issued_numbers:
  assumes "client_ok s" and "issued mx s c" and "mx < 2 ^ 63"
    and "\<forall>m\<in>snd ` set (net_sent s). length m \<le> mx"
  shows "client_id c = cl_client_id s \<and> request_id c \<noteq> 0 \<and> request_id c \<le> cl_next_request_id s"
proof -
  from assms(2) obtain m args where m: "m \<in> snd ` set (net_sent s)" "frame_arguments mx m = Some args" "args \<noteq> []"
    "write_command (uppercase_ascii (hd args))" "write_of args = Inr c"
    by (auto simp: issued_def)
  have "frame_ok (cl_client_id s) (cl_next_request_id s) m"
    using assms(1) m(1) unfolding client_ok_def by blast
  then obtain args' where a: "m = encode_array args'" "args' \<noteq> []"
    and f: "\<not> client_is_write (hd args') \<or>
      (\<exists>x i. args' = x @ request_suffix (cl_client_id s) i \<and> x \<noteq> [] \<and> i \<noteq> 0 \<and> i \<le> cl_next_request_id s)"
    by (auto simp: frame_ok_def)
  have "length (encode_array args') \<le> mx" using assms(4) m(1) unfolding a(1) by (rule bspec)
  then have "args = args'" using frame_arguments_fits [OF _ a(2) assms(3)] m(2) a(1) by simp
  then obtain x i where x: "args = x @ request_suffix (cl_client_id s) i" "x \<noteq> []" "i \<noteq> 0" "i \<le> cl_next_request_id s"
    using f m(4) by (auto simp: client_is_write_iff)
  moreover have "spelled_write args c"
    using write_of_iff [OF m(4,3)] m(5) by blast
  ultimately show ?thesis using spelled_suffix by simp
qed

text \<open>A request record names a request that was applied.\<close>

lemma dedup_from_log:
  "om_find (dedup (apply_all cs s)) cl = Some r \<Longrightarrow>
     om_find (dedup s) cl = Some r \<or> (\<exists>c\<in>set cs. client_id c = cl \<and> request_id c = dr_request_id r)"
proof (induction cs arbitrary: s)
  case (Cons c cs)
  obtain res s' where new: "apply_new_request_locked c s = (res, s')" by fastforce
  have "om_find (dedup (snd (apply_locked c s))) cl = Some r \<Longrightarrow>
      om_find (dedup s) cl = Some r \<or> client_id c = cl \<and> request_id c = dr_request_id r"
    using apply_new_request_spec(3) [OF new]
    by (auto simp: apply_locked_def Let_def new om_find_insert split: option.splits if_splits)
  then show ?case using Cons by fastforce
qed simp


lemma numbered_command:
  assumes "spelled_body args c" and "client_reachable s" and "cl_next_request_id s \<noteq> u64_max"
    and "client_command args s = (r, t)"
  shows "cl_client_id s \<noteq> 0" "cl_client_id t = cl_client_id s" "cl_next_request_id t = cl_next_request_id s + 1"
    "\<exists>new. net_sent t = net_sent s @ new \<and>
       snd ` set new \<subseteq> {encode_array [''AUTH'', cl_password s],
         encode_array (args @ request_suffix (cl_client_id s) (cl_next_request_id s + 1))}"
    "write_of (args @ request_suffix (cl_client_id s) (cl_next_request_id s + 1)) =
       Inr (c\<lparr>client_id := cl_client_id s, request_id := cl_next_request_id s + 1\<rparr>)"
proof -
  let ?i = "cl_next_request_id s + 1"
  have w: "args \<noteq> []" "client_is_write (hd args)"
    using spelled_body_write [OF assms(1)] by simp_all
  show id: "cl_client_id s \<noteq> 0"
    using client_reachable_ok [OF assms(2)] by (simp add: client_ok_def)
  have "sends (cl_password s) {encode_array (args @ request_suffix (cl_client_id s) ?i)} (s\<lparr>cl_next_request_id := ?i\<rparr>) t"
    using client_command_sends [OF assms(4) w(1)] assms(3) w(2) by simp
  then show "cl_client_id t = cl_client_id s" "cl_next_request_id t = ?i"
    "\<exists>new. net_sent t = net_sent s @ new \<and>
       snd ` set new \<subseteq> {encode_array [''AUTH'', cl_password s], encode_array (args @ request_suffix (cl_client_id s) ?i)}"
    by (auto simp: sends_def)
  have "spelled_write (args @ request_suffix (cl_client_id s) ?i) (c\<lparr>client_id := cl_client_id s, request_id := ?i\<rparr>)"
    using spelled_numbered [OF assms(1) id] next_id_grows(3) [OF assms(3)] by simp
  then show "write_of (args @ request_suffix (cl_client_id s) ?i) = Inr (c\<lparr>client_id := cl_client_id s, request_id := ?i\<rparr>)"
    using w by (subst write_of_iff) (simp_all add: client_is_write_iff)
qed

section \<open>Properties\<close>

text \<open>
  C21. However often a write is retried, on whatever nodes and whatever the network does, every frame
  the client sends for it is either the AUTH command with its own password or one and the same request:
  the server reads from it exactly the command the caller asked for, with the client's number and the
  next request number, which this call alone uses.
\<close>

theorem client_retries_same_request:
  assumes "client_reachable s" and "spelled_body args c" and "cl_next_request_id s \<noteq> u64_max"
    and "client_command args s = (r, t)" and "mx < 2 ^ 63" and "\<forall>m\<in>snd ` set (net_sent t). length m \<le> mx"
  shows "\<exists>new. net_sent t = net_sent s @ new \<and>
    (\<forall>m\<in>snd ` set new. m = encode_array [''AUTH'', cl_password s] \<or>
       (\<exists>args'. frame_arguments mx m = Some args' \<and>
          write_of args' = Inr (c\<lparr>client_id := cl_client_id s, request_id := cl_next_request_id s + 1\<rparr>))) \<and>
    unat (cl_next_request_id t) = unat (cl_next_request_id s) + 1"
proof -
  note num = numbered_command [OF assms(2,1,3,4)]
  let ?args = "args @ request_suffix (cl_client_id s) (cl_next_request_id s + 1)"
  obtain new where new: "net_sent t = net_sent s @ new"
    "snd ` set new \<subseteq> {encode_array [''AUTH'', cl_password s], encode_array ?args}"
    using num(4) by blast
  have "m = encode_array [''AUTH'', cl_password s] \<or> frame_arguments mx m = Some ?args" if m: "m \<in> snd ` set new" for m
  proof (cases "m = encode_array ?args")
    case True
    have "length m \<le> mx"
      using assms(6) m new(1) by auto
    then show ?thesis
      using frame_arguments_fits [OF _ _ assms(5), of ?args] True by (simp add: request_suffix_def)
  qed (use m new(2) in blast)
  then show ?thesis
    using new(1) num(3,5) next_id_grows(1) [OF assms(3)] by (intro exI [of _ new]) auto
qed

text \<open>
  C11. A write of the client takes effect once. Let the command reach the replicated log any number of
  times, at any places, interleaved with the earlier requests of the same client and with the
  commands of all other clients: after it was applied for the first time, every later occurrence
  changes nothing and returns the result of the first.
\<close>

theorem client_write_takes_effect_once:
  assumes "client_reachable s" and "spelled_body args c\<^sub>0" and "cl_next_request_id s \<noteq> u64_max"
    and "client_command args s = (r, t)" and "mx < 2 ^ 63" and "\<forall>m\<in>snd ` set (net_sent t). length m \<le> mx"
    and "c = c\<^sub>0\<lparr>client_id := cl_client_id s, request_id := cl_next_request_id s + 1\<rparr>"
    and "\<forall>c'\<in>set (before @ after). client_id c' = cl_client_id s \<longrightarrow> issued mx t c'"
    and "apply_locked c (apply_all before initial_state) = (res, st)"
  shows "apply_locked c (apply_all after st) = (res, apply_all after st)"
proof -
  note num = numbered_command [OF assms(2,1,3,4)]
  have ok: "client_ok t"
    using client_reachable_ok client_reachable.commanded [OF assms(1), of args] assms(4) by simp
  have ids: "client_id c = cl_client_id s" "request_id c = cl_next_request_id t" "request_id c \<noteq> 0"
    using num(3) next_id_grows(3) [OF assms(3)] by (simp_all add: assms(7))
  have wr: "is_write (cmd_type c)"
    using assms(2) by (auto simp: assms(7) spelled_body_def is_write_def)
  have old: "request_id c' \<le> request_id c" if "c' \<in> set (before @ after)" "client_id c' = client_id c" for c'
  proof -
    have "issued mx t c'" using bspec [OF assms(8) that(1)] that(2) ids(1) by simp
    from issued_numbers [OF ok this assms(5,6)] show ?thesis by (simp add: ids(2))
  qed
  have "dr_request_id d \<le> request_id c" if found: "om_find (dedup (apply_all before initial_state)) (client_id c) = Some d" for d
  proof -
    have "om_find (dedup initial_state) (client_id c) = None"
      by (simp add: initial_state_def om_find_def)
    then obtain c' where "c' \<in> set before" "client_id c' = client_id c" "request_id c' = dr_request_id d"
      using dedup_from_log [OF found] by auto
    then show ?thesis using old [of c'] by simp
  qed
  then have "om_find (dedup st) (client_id c) = Some \<lparr>dr_request_id = request_id c, dr_result = res\<rparr>"
    using apply_locked_records [OF wr _ ids(3) _ assms(9)] num(1) ids(1) by simp
  then have "om_find (dedup (apply_all after st)) (client_id c) = Some \<lparr>dr_request_id = request_id c, dr_result = res\<rparr>"
    using old by (intro dedup_stays) auto
  then show ?thesis
    using apply_locked_hit(1) [OF wr _ ids(3)] num(1) ids(1) by simp
qed


text \<open>A client with one seed node, whatever the network does.\<close>

definition example_client :: "io_outcome list \<Rightarrow> client" where
  "example_client net = \<lparr>cl_seeds = [''n1:7401''], cl_open = False,
     cl_parser = \<lparr>max_request_size = kMaximumResponseSize, max_depth = 16, buffer = ''''\<rparr>, cl_current = '''',
     cl_password = '''', cl_client_id = 1, cl_next_request_id = 0, net_outcomes = net, net_sent = []\<rparr>"

definition example_write :: Command where
  "example_write = \<lparr>version = 1, cmd_type = kIncr, cmd_key = ''n'', cmd_value = '''', client_id = 0, request_id = 0\<rparr>"

lemma example_client_reachable: "client_reachable (example_client net)"
proof (rule client_reachable.created)
  have "parse_endpoint ''n1:7401'' = Inr \<lparr>ep_host = ''n1'', ep_port = ''7401''\<rparr>"
    by (simp add: parse_endpoint_def stoul_def is_digit_def decimal_value_def digit_value_def)
  then show "new_client [''n1:7401''] 0 0 0 net = Inr (example_client net)"
    by (simp add: new_client_def new_parser_def kMaximumResponseSize_def make_client_id_def example_client_def)
qed

lemma example_write_spelled: "spelled_body [''INCR'', ''n''] example_write"
proof -
  have "uppercase_ascii ''INCR'' = ''INCR''" by code_simp
  then show ?thesis by (simp add: spelled_body_def example_write_def)
qed

lemma example_frames_fit:
  assumes "client_command [''INCR'', ''n''] (example_client net) = (r, t)"
  shows "\<forall>m\<in>snd ` set (net_sent t). length m \<le> 1048576"
proof -
  have id: "cl_client_id (example_client net) = 1" "cl_next_request_id (example_client net) = 0"
    "cl_password (example_client net) = ''''" "net_sent (example_client net) = []"
    by (simp_all add: example_client_def)
  have "length (encode_array ([''INCR'', ''n''] @ request_suffix 1 (0 + 1))) \<le> 1048576"
    "length (encode_array [''AUTH'', '''']) \<le> 1048576"
    by (simp_all add: encode_array_def encode_bulk_string_def request_suffix_def to_string_nat.simps)
  then show ?thesis
    using numbered_command(4) [OF example_write_spelled example_client_reachable _ assms]
    by (auto simp: id)
qed

theorem client_retries_same_request_witness:
  "\<exists>r t. client_command [''INCR'', ''n''] (example_client [Io_ok, Io_ok, Io_ok, Io_error ''reset'']) = (r, t) \<and>
     unat (cl_next_request_id t) = 1"
proof -
  let ?s = "example_client [Io_ok, Io_ok, Io_ok, Io_error ''reset'']"
  obtain r t where run: "client_command [''INCR'', ''n''] ?s = (r, t)" by fastforce
  have id: "cl_next_request_id ?s \<noteq> u64_max" "unat (cl_next_request_id ?s) = 0"
    by (simp_all add: example_client_def)
  show ?thesis
    using client_retries_same_request [OF example_client_reachable example_write_spelled id(1) run _ example_frames_fit [OF run]]
      run id(2) by auto
qed

theorem client_write_takes_effect_once_witness:
  "apply_locked (example_write\<lparr>client_id := 1, request_id := 1\<rparr>)
     (apply_all [example_set] (snd (apply_locked (example_write\<lparr>client_id := 1, request_id := 1\<rparr>) initial_state))) =
   (fst (apply_locked (example_write\<lparr>client_id := 1, request_id := 1\<rparr>) initial_state),
    apply_all [example_set] (snd (apply_locked (example_write\<lparr>client_id := 1, request_id := 1\<rparr>) initial_state)))"
proof -
  let ?s = "example_client []"
  let ?c = "example_write\<lparr>client_id := 1, request_id := 1\<rparr>"
  obtain r t where run: "client_command [''INCR'', ''n''] ?s = (r, t)" by fastforce
  have id: "cl_next_request_id ?s \<noteq> u64_max" "cl_next_request_id ?s = 0" "cl_client_id ?s = 1"
    by (simp_all add: example_client_def)
  have c: "?c = example_write\<lparr>client_id := cl_client_id ?s, request_id := cl_next_request_id ?s + 1\<rparr>"
    by (simp add: id)
  have others: "\<forall>c'\<in>set ([] @ [example_set]). client_id c' = cl_client_id ?s \<longrightarrow> issued 1048576 t c'"
    by (simp add: id example_set_def)
  have first: "apply_locked ?c (apply_all [] initial_state) =
      (fst (apply_locked ?c initial_state), snd (apply_locked ?c initial_state))"
    by simp
  show ?thesis
    by (rule client_write_takes_effect_once [OF example_client_reachable example_write_spelled id(1) run _
          example_frames_fit [OF run] c others first]) simp
qed

end
