(* ===== verification/Cli.thy ===== *)
theory Cli
  imports Client
begin

text \<open>
  The command line client, \<^verbatim>\<open>src/tools/strongkv-cli/main.cpp\<close>: splitting a line into arguments, printing
  values, the options and the interactive loop over the client library. The lines of the standard
  input are an argument; what is printed is collected.

  The theorems: a line in which every argument is quoted splits into exactly these arguments, as
  long as none is empty; an empty quoted argument disappears.
\<close>

section \<open>Splitting a line\<close>

record split_state =
  sp_output :: "string list"
  sp_current :: string
  sp_quote :: "char option"
  sp_escaped :: bool

definition split_char :: "split_state \<Rightarrow> char \<Rightarrow> split_state" where
  "split_char s c =
     (if sp_escaped s then s\<lparr>sp_current := sp_current s @ [c], sp_escaped := False\<rparr>
      else if c = CHR 0x5C then s\<lparr>sp_escaped := True\<rparr>
      else case sp_quote s of
        Some quote \<Rightarrow>
          if c = quote then s\<lparr>sp_quote := None\<rparr> else s\<lparr>sp_current := sp_current s @ [c]\<rparr>
      | None \<Rightarrow>
          if c = single_quote \<or> c = double_quote then s\<lparr>sp_quote := Some c\<rparr>
          else if is_space c then
            if sp_current s \<noteq> [] then s\<lparr>sp_output := sp_output s @ [sp_current s], sp_current := ''''\<rparr> else s
          else s\<lparr>sp_current := sp_current s @ [c]\<rparr>)"

definition split_command :: "string \<Rightarrow> exn + string list" where
  "split_command line =
     (let s = foldl split_char \<lparr>sp_output = [], sp_current = '''', sp_quote = None, sp_escaped = False\<rparr> line in
      if sp_escaped s \<or> sp_quote s \<noteq> None then Inl (Runtime_error ''unfinished escape or quote'')
      else Inr (if sp_current s \<noteq> [] then sp_output s @ [sp_current s] else sp_output s))"

section \<open>Printing\<close>

fun print_value :: "ClientValue \<Rightarrow> nat \<Rightarrow> string" and print_items :: "nat \<Rightarrow> ClientValue list \<Rightarrow> nat \<Rightarrow> string" where
  "print_value (ClientValue t text i vs) indent =
     (let prefix = replicate indent (CHR '' '') in
      case t of
        cvSimpleString \<Rightarrow> prefix @ text @ [LF]
      | cvBulkString \<Rightarrow> prefix @ text @ [LF]
      | cvError \<Rightarrow> prefix @ ''(error) '' @ text @ [LF]
      | cvInteger \<Rightarrow> prefix @ ''(integer) '' @ to_string_int (sint i) @ [LF]
      | cvNull \<Rightarrow> prefix @ ''(nil)'' @ [LF]
      | cvArray \<Rightarrow> print_items 0 vs indent)"
| "print_items n [] indent = ''''"
| "print_items n (v # vs) indent =
     replicate indent (CHR '' '') @ to_string_nat (n + 1) @ '') '' @ print_value v (indent + 3) @
     print_items (n + 1) vs indent"

section \<open>The program\<close>

record cli_options =
  opt_host :: string
  opt_port :: string
  opt_password :: string
  opt_seeds :: "string list"
  opt_command :: "string list"

definition default_options :: cli_options where
  "default_options = \<lparr>opt_host = ''127.0.0.1'', opt_port = ''7401'', opt_password = '''', opt_seeds = [], opt_command = []\<rparr>"

text \<open>The loop over the arguments: \<open>Inl\<close> the exit code after the usage text.\<close>

fun parse_options :: "string list \<Rightarrow> cli_options \<Rightarrow> nat + cli_options" where
  "parse_options [] opts = Inr opts"
| "parse_options [a] opts =
     (if a = ''-h'' \<or> a = ''-p'' \<or> a = ''-a'' \<or> a = ''--seed'' then Inl 2
      else if a = ''--help'' then Inl 0
      else Inr (opts\<lparr>opt_command := opt_command opts @ [a]\<rparr>))"
| "parse_options (a # b # rest) opts =
     (if a = ''-h'' then parse_options rest (opts\<lparr>opt_host := b\<rparr>)
      else if a = ''-p'' then parse_options rest (opts\<lparr>opt_port := b\<rparr>)
      else if a = ''-a'' then parse_options rest (opts\<lparr>opt_password := b\<rparr>)
      else if a = ''--seed'' then parse_options rest (opts\<lparr>opt_seeds := opt_seeds opts @ [b]\<rparr>)
      else if a = ''--help'' then Inl 0
      else Inr (opts\<lparr>opt_command := opt_command opts @ a # b # rest\<rparr>))"

definition cli_seeds :: "cli_options \<Rightarrow> string list" where
  "cli_seeds opts = (if opt_seeds opts = [] then [opt_host opts @ '':'' @ opt_port opts] else opt_seeds opts)"

definition print_text :: "string \<Rightarrow> (string \<times> client, unit) prog" where
  "print_text m = modifyP (\<lambda>(out, s). (out @ m, s))"

primrec interactive :: "string list \<Rightarrow> (string \<times> client, unit) prog" where
  "interactive [] = print_text ''strongkv> ''"
| "interactive (line # lines) =
     bindP (print_text ''strongkv> '') (\<lambda>_.
     bindP (liftP (split_command line)) (\<lambda>arguments.
     if arguments = [] then interactive lines
     else
       let name = map toupper (hd arguments) in
       if name = ''QUIT'' \<or> name = ''EXIT'' then retP ()
       else if name = ''AUTH'' \<and> length arguments = 2 then
         bindP (in_world (auth (arguments ! 1))) (\<lambda>_.
         bindP (print_text (''OK'' @ [LF])) (\<lambda>_. interactive lines))
       else
         bindP (in_world (client_command arguments)) (\<lambda>v.
         bindP (print_text (print_value v 0)) (\<lambda>_. interactive lines))))"

definition cli_session :: "cli_options \<Rightarrow> string list \<Rightarrow> (string \<times> client, unit) prog" where
  "cli_session opts lines =
     bindP (in_world connect) (\<lambda>_.
     bindP (if opt_password opts \<noteq> [] then in_world (auth (opt_password opts)) else retP ()) (\<lambda>_.
     if opt_command opts \<noteq> [] then
       bindP (in_world (client_command (opt_command opts))) (\<lambda>v. print_text (print_value v 0))
     else interactive lines))"

text \<open>The exit code, the standard output and the text of the error, if any.\<close>

definition cli_main ::
    "string list \<Rightarrow> string list \<Rightarrow> u64 \<Rightarrow> u32 \<Rightarrow> u32 \<Rightarrow> io_outcome list \<Rightarrow> nat \<times> string \<times> string option" where
  "cli_main argv lines now r1 r2 net =
     (case parse_options argv default_options of
        Inl code \<Rightarrow> (code, '''', None)
      | Inr opts \<Rightarrow>
          (case new_client (cli_seeds opts) now r1 r2 net of
             Inl e \<Rightarrow> (1, '''', Some (what e))
           | Inr s \<Rightarrow>
               (case cli_session opts lines ('''', s) of
                  (Throw e, (out, _)) \<Rightarrow> (1, out, Some (what e))
                | (_, (out, _)) \<Rightarrow> (0, out, None))))"

section \<open>Quoted arguments\<close>

text \<open>An argument in double quotes, with quotes and backslashes escaped.\<close>

definition quote_char :: "char \<Rightarrow> string" where
  "quote_char c = (if c = double_quote \<or> c = CHR 0x5C then [CHR 0x5C, c] else [c])"

definition quote_argument :: "string \<Rightarrow> string" where
  "quote_argument a = [double_quote] @ concat (map quote_char a) @ [double_quote]"

lemma split_quoted:
  assumes "sp_quote s = Some double_quote" and "\<not> sp_escaped s"
  shows "foldl split_char s (concat (map quote_char a)) = s\<lparr>sp_current := sp_current s @ a\<rparr>"
  using assms
proof (induction a arbitrary: s)
  case (Cons c a)
  have "foldl split_char s (quote_char c) = s\<lparr>sp_current := sp_current s @ [c]\<rparr>"
    using Cons.prems by (auto simp: quote_char_def split_char_def)
  then show ?case using Cons by simp
qed simp

lemma split_argument:
  assumes "sp_quote s = None" and "\<not> sp_escaped s"
  shows "foldl split_char s (quote_argument a) = s\<lparr>sp_current := sp_current s @ a\<rparr>"
proof -
  have "foldl split_char s [double_quote] = s\<lparr>sp_quote := Some double_quote\<rparr>"
    using assms by (simp add: split_char_def)
  then show ?thesis
    using assms by (simp add: quote_argument_def split_quoted) (simp add: split_char_def)
qed

lemma split_arguments:
  assumes "sp_quote s = None" and "\<not> sp_escaped s" and "sp_current s = []" and "list_all (\<lambda>a. a \<noteq> []) args"
  shows "foldl split_char s (concat (map (\<lambda>a. quote_argument a @ '' '') args)) = s\<lparr>sp_output := sp_output s @ args\<rparr>"
  using assms
proof (induction args arbitrary: s)
  case (Cons a args)
  let ?s = "s\<lparr>sp_output := sp_output s @ [a]\<rparr>"
  have "foldl split_char s (quote_argument a @ '' '') = ?s"
    using Cons.prems split_argument [OF Cons.prems(1,2)] by (simp add: split_char_def is_space_def)
  moreover have "foldl split_char ?s (concat (map (\<lambda>a. quote_argument a @ '' '') args)) =
      ?s\<lparr>sp_output := sp_output ?s @ args\<rparr>"
    using Cons.prems by (intro Cons.IH) simp_all
  ultimately show ?case by simp
qed simp

text \<open>Quoting is undone by splitting, whatever characters the arguments contain.\<close>

theorem split_command_roundtrip:
  assumes "list_all (\<lambda>a. a \<noteq> []) args"
  shows "split_command (concat (map (\<lambda>a. quote_argument a @ '' '') args)) = Inr args"
  using split_arguments [OF _ _ _ assms] by (simp add: split_command_def)

text \<open>An empty argument cannot be given, not even in quotes.\<close>

theorem empty_argument_is_dropped: "split_command (''SET k '' @ quote_argument '''') = Inr [''SET'', ''k'']"
  by (simp add: split_command_def quote_argument_def split_char_def is_space_def)

end
