(* ===== verification/Benchmark.thy ===== *)
theory Benchmark
  imports Client
begin

text \<open>
  The load generator, \<^verbatim>\<open>src/tools/strongkv-benchmark/main.cpp\<close>: its arguments, the operations of one
  worker over the client library and the exit code. Every worker has a client of its own; what the
  workers share is the count of completed operations, the count of workers that are ready, and the
  first error. The measured time and the printed rate are not modelled.

  The lemmas: a worker that fails nowhere completes exactly its operations; of any hundred
  consecutive operations exactly the given share are reads; no key is both read and written, so the
  reads of a run never find what the run has written.
\<close>

section \<open>Arguments\<close>

text \<open>\<^theory_text>\<open>std::stoi\<close>: white space, a sign, digits; what follows the digits is ignored.\<close>

definition stoi :: "string \<Rightarrow> exn + int" where
  "stoi s =
     (let s = dropWhile is_space s;
          negative = (s \<noteq> [] \<and> hd s = CHR ''-'');
          s = (if s \<noteq> [] \<and> (hd s = CHR ''-'' \<or> hd s = CHR ''+'') then tl s else s);
          digits = takeWhile is_digit s;
          v = (if negative then - int (decimal_value digits) else int (decimal_value digits))
      in if digits = [] then Inl (Invalid_argument ''stoi'')
         else if v < - (2 ^ 31) \<or> v \<ge> 2 ^ 31 then Inl (Out_of_range ''stoi'')
         else Inr v)"

record bench_arguments =
  ba_password :: string
  ba_connections :: int
  ba_operations :: int
  ba_read_percent :: int
  ba_value_bytes :: int
  ba_seeds :: "string list"

text \<open>
  The arguments after the program name. The first \<open>Inl\<close> is an exception that no handler catches, the
  second the exit code after a message.
\<close>

definition parse_bench :: "string list \<Rightarrow> exn + (nat + bench_arguments)" where
  "parse_bench argv =
     (if length argv < 6 then Inr (Inl 2)
      else
        bindE (stoi (argv ! 1)) (\<lambda>connection_count.
        bindE (stoi (argv ! 2)) (\<lambda>operations_per_connection.
        bindE (stoi (argv ! 3)) (\<lambda>read_percent.
        bindE (stoi (argv ! 4)) (\<lambda>value_bytes.
        if connection_count \<le> 0 \<or> operations_per_connection \<le> 0 \<or> read_percent < 0 \<or> read_percent > 100 \<or>
           value_bytes < 0
        then Inr (Inl 2)
        else Inr (Inr \<lparr>ba_password = argv ! 0, ba_connections = connection_count,
               ba_operations = operations_per_connection, ba_read_percent = read_percent,
               ba_value_bytes = value_bytes, ba_seeds = drop 5 argv\<rparr>))))))"

section \<open>A worker\<close>

definition bench_key :: "int \<Rightarrow> int \<Rightarrow> string" where
  "bench_key worker operation = ''benchmark:'' @ to_string_int worker @ '':'' @ to_string_int (operation mod 1000)"

text \<open>The sum is taken to stay below the limit of \<^theory_text>\<open>int\<close>, beyond which C++ leaves it undefined.\<close>

definition bench_is_read :: "int \<Rightarrow> int \<Rightarrow> int \<Rightarrow> bool" where
  "bench_is_read read_percent worker operation \<longleftrightarrow> (operation + worker) mod 100 < read_percent"

definition bench_operation :: "bench_arguments \<Rightarrow> int \<Rightarrow> int \<Rightarrow> unit client_prog" where
  "bench_operation a worker operation =
     (let key = bench_key worker operation in
      if bench_is_read (ba_read_percent a) worker operation
      then bindP (client_get key) (\<lambda>_. retP ())
      else client_set key (replicate (nat (ba_value_bytes a)) (CHR ''x'')))"

text \<open>The loop from \<open>operation\<close> on, \<open>n\<close> operations before the end; the first component counts.\<close>

primrec bench_loop :: "bench_arguments \<Rightarrow> int \<Rightarrow> nat \<Rightarrow> int \<Rightarrow> (nat \<times> client, unit) prog" where
  "bench_loop a worker 0 operation = retP ()"
| "bench_loop a worker (Suc n) operation =
     bindP (in_world (bench_operation a worker operation)) (\<lambda>_.
     bindP (modifyP (\<lambda>(completed, s). (completed + 1, s))) (\<lambda>_.
     bench_loop a worker n (operation + 1)))"

definition bench_worker :: "bench_arguments \<Rightarrow> int \<Rightarrow> (nat \<times> client, unit) prog" where
  "bench_worker a worker =
     bindP (in_world connect) (\<lambda>_.
     bindP (in_world (auth (ba_password a))) (\<lambda>_.
     bindP (in_world (client_get ''benchmark-warmup'')) (\<lambda>_.
     bench_loop a worker (nat (ba_operations a)) 0)))"

text \<open>
  The thread of a worker: the error it reports, if any, and the operations it completed. The error of
  the program is the first reported one that is not empty, in the order \<open>finished\<close> in which the
  workers fail.
\<close>

definition bench_thread :: "bench_arguments \<Rightarrow> int \<Rightarrow> exn + client \<Rightarrow> string option \<times> nat" where
  "bench_thread a worker created =
     (let report = (\<lambda>e. Some (''worker '' @ to_string_int worker @ '': '' @ what e)) in
      case created of
        Inl e \<Rightarrow> (report e, 0)
      | Inr s \<Rightarrow>
          (case bench_worker a worker (0, s) of
             (Throw e, (completed, _)) \<Rightarrow> (report e, completed)
           | (_, (completed, _)) \<Rightarrow> (None, completed)))"

definition bench_exit :: "(string option \<times> nat) list \<Rightarrow> nat \<times> (string + nat)" where
  "bench_exit finished =
     (case filter (\<lambda>r. fst r \<noteq> None) finished of
        (Some e, _) # _ \<Rightarrow> (1, Inl e)
      | _ \<Rightarrow> (0, Inr (sum_list (map snd finished))))"

section \<open>Lemmas\<close>

lemma bench_loop_completes:
  assumes "bench_loop a worker n operation (c, s) = (Ret (), (c', s'))"
  shows "c' = c + n"
  using assms
proof (induction n arbitrary: operation c s)
  case (Suc n)
  then obtain t where "bench_loop a worker n (operation + 1) (Suc c, t) = (Ret (), (c', s'))"
    by (auto simp: bindP_Ret_iff in_world_def split: prod.splits)
  from Suc.IH [OF this] show ?case by simp
qed simp

text \<open>A run without an error counts every operation of every worker.\<close>

theorem bench_counts_every_operation:
  assumes "bench_thread a worker (Inr s) = (None, k)" and "fst (bench_worker a worker (0, s)) \<noteq> Died"
  shows "k = nat (ba_operations a)"
proof -
  obtain r c t where run: "bench_worker a worker (0, s) = (r, (c, t))" by (metis prod.exhaust)
  with assms have "r = Ret () \<and> c = k" by (cases r) (auto simp: bench_thread_def)
  with run show ?thesis
    using bench_loop_completes by (fastforce simp: bench_worker_def bindP_Ret_iff in_world_def split: prod.splits)
qed

text \<open>Of a hundred consecutive operations of a worker exactly \<open>read_percent\<close> are reads.\<close>

theorem bench_read_share:
  assumes "0 \<le> p" and "p \<le> 100"
  shows "card {operation \<in> {a..<a + 100}. bench_is_read p worker operation} = nat p"
proof -
  have "bij_betw (\<lambda>operation. (operation + worker) mod 100)
      {operation \<in> {a..<a + 100}. (operation + worker) mod 100 < p} {0..<p}"
  proof (rule bij_betw_byWitness [where f' = "\<lambda>r. a + (r - a - worker) mod 100"])
    show "\<forall>x\<in>{operation \<in> {a..<a + 100}. (operation + worker) mod 100 < p}.
        a + ((x + worker) mod 100 - a - worker) mod 100 = x"
    proof
      fix x assume "x \<in> {operation \<in> {a..<a + 100}. (operation + worker) mod 100 < p}"
      then have "0 \<le> x - a" "x - a < 100" by auto
      moreover have "((x + worker) mod 100 - a - worker) mod 100 = (x - a) mod 100"
        by (metis (no_types, opaque_lifting) add_diff_cancel_right diff_diff_eq mod_diff_left_eq)
      ultimately show "a + ((x + worker) mod 100 - a - worker) mod 100 = x" by simp
    qed
    show there: "\<forall>r\<in>{0..<p}. (a + (r - a - worker) mod 100 + worker) mod 100 = r"
    proof
      fix r assume "r \<in> {0..<p}"
      then have r: "r mod 100 = r" using assms by simp
      have "(a + (r - a - worker) mod 100 + worker) mod 100 = (a + (r - a - worker) + worker) mod 100"
        by (metis (no_types, opaque_lifting) mod_add_left_eq mod_add_right_eq)
      then show "(a + (r - a - worker) mod 100 + worker) mod 100 = r" using r by simp
    qed
    show "(\<lambda>operation. (operation + worker) mod 100) `
        {operation \<in> {a..<a + 100}. (operation + worker) mod 100 < p} \<subseteq> {0..<p}" by auto
    show "(\<lambda>r. a + (r - a - worker) mod 100) ` {0..<p} \<subseteq>
        {operation \<in> {a..<a + 100}. (operation + worker) mod 100 < p}"
      using there by auto
  qed
  from bij_betw_same_card [OF this] show ?thesis by (simp add: bench_is_read_def)
qed

text \<open>
  Two operations on the same key, of the same or of different workers, are both reads or both writes:
  the reads of a run never find a value the run has written.
\<close>

lemma to_string_int_colon: "CHR '':'' \<notin> set (to_string_int i)"
proof -
  have "\<not> is_digit (CHR '':'')" by (simp add: is_digit_def)
  then show ?thesis using digits_to_string_nat by (auto simp: to_string_int_def)
qed

lemma to_string_int_inject: "0 \<le> i \<Longrightarrow> 0 \<le> j \<Longrightarrow> to_string_int i = to_string_int j \<Longrightarrow> i = j"
  using decimal_value_to_string_nat by (metis (mono_tags) to_string_int_def nat_eq_iff2 not_less)

lemma split_at_separator:
  "c \<notin> set xs \<Longrightarrow> c \<notin> set xs' \<Longrightarrow> xs @ c # ys = xs' @ c # ys' \<Longrightarrow> xs = xs' \<and> ys = ys'"
  by (simp add: append_eq_Cons_conv append_eq_append_conv2) (auto simp: append_eq_Cons_conv Cons_eq_append_conv)

theorem bench_reads_never_hit:
  assumes "bench_key worker operation = bench_key worker' operation'" and "0 \<le> worker" and "0 \<le> worker'"
  shows "bench_is_read p worker operation = bench_is_read p worker' operation'"
proof -
  have "to_string_int worker @ CHR '':'' # to_string_int (operation mod 1000) =
      to_string_int worker' @ CHR '':'' # to_string_int (operation' mod 1000)"
    using assms(1) by (simp add: bench_key_def)
  from split_at_separator [OF to_string_int_colon to_string_int_colon this]
  have "worker = worker'" and "operation mod 1000 = operation' mod 1000"
    using to_string_int_inject assms(2,3) by (auto intro: to_string_int_inject)
  then have "operation mod 1000 mod 100 = operation' mod 1000 mod 100" by simp
  then have "operation mod 100 = operation' mod 100" by (simp add: mod_mod_cancel)
  then have "(operation + worker) mod 100 = (operation' + worker') mod 100"
    using \<open>worker = worker'\<close> by (metis mod_add_left_eq)
  then show ?thesis by (simp add: bench_is_read_def)
qed

end
