(* ===== verification/Logger.thy ===== *)
theory Logger
  imports Config Posix_World
begin

text \<open>
  The logger, \<^verbatim>\<open>src/src/logging/logger.{h,cpp}\<close>: levels, their names and their order, the filter, the
  lines written to the log file and to the error stream. A stream is the text written to it so far;
  the code does not look at the outcome of a write, and the writes are taken to succeed. The local time
  of a call, as text, is an argument. The mutex is left out: every operation holds it for its whole
  body.

  The lemmas: every level that a valid configuration names is parsed, so the server never fails to
  start because of it; the filter keeps exactly the lines at or above the configured severity,
  whatever else is logged; the numeric levels of the library are mapped to the nearest level.
\<close>

section \<open>Levels\<close>

datatype LogLevel = kError | kWarn | kInfo | kDebug

fun level_number :: "LogLevel \<Rightarrow> int" where
  "level_number kError = 2"
| "level_number kWarn = 3"
| "level_number kInfo = 4"
| "level_number kDebug = 5"

definition parse_log_level :: "string \<Rightarrow> exn + LogLevel" where
  "parse_log_level v =
     (if v = ''debug'' then Inr kDebug
      else if v = ''info'' then Inr kInfo
      else if v = ''warn'' then Inr kWarn
      else if v = ''error'' then Inr kError
      else Inl (Invalid_argument (''unknown log level: '' @ v)))"

fun level_name :: "LogLevel \<Rightarrow> string" where
  "level_name kDebug = ''DEBUG''"
| "level_name kInfo = ''INFO''"
| "level_name kWarn = ''WARN''"
| "level_name kError = ''ERROR''"

definition normalize :: "int \<Rightarrow> LogLevel" where
  "normalize level =
     (if level \<le> level_number kError then kError
      else if level = level_number kWarn then kWarn
      else if level = level_number kInfo then kInfo
      else kDebug)"

section \<open>The logger\<close>

record Logger =
  lg_level :: int
  lg_file :: string
  lg_cerr :: string

text \<open>
  The constructor: creating the parent directory and opening the file for appending may fail.
  \<open>mkdir\<close> and \<open>opened\<close> are the outcomes of the two, \<open>old\<close> is what the file holds already.
\<close>

definition new_Logger :: "path \<Rightarrow> LogLevel \<Rightarrow> exn option \<Rightarrow> bool \<Rightarrow> string \<Rightarrow> exn + Logger" where
  "new_Logger p level mkdir opened old =
     (case (if CHR ''/'' \<in> set p then mkdir else None) of
        Some e \<Rightarrow> Inl e
      | None \<Rightarrow>
          if \<not> opened then Inl (Runtime_error (''cannot open log file: '' @ p))
          else Inr \<lparr>lg_level = level_number level, lg_file = old, lg_cerr = ''''\<rparr>)"

definition log :: "string \<Rightarrow> LogLevel \<Rightarrow> string \<Rightarrow> Logger \<Rightarrow> Logger" where
  "log now level line g =
     (if level_number level > lg_level g then g
      else
        let g = g\<lparr>lg_file := lg_file g @ now @ '' '' @ level_name level @ '' '' @ line @ [CHR 10]\<rparr>
        in if level = kError then g\<lparr>lg_cerr := lg_cerr g @ level_name level @ '' '' @ line @ [CHR 10]\<rparr> else g)"

definition log_debug :: "string \<Rightarrow> string \<Rightarrow> Logger \<Rightarrow> Logger" where
  "log_debug now line = log now kDebug line"

definition log_info :: "string \<Rightarrow> string \<Rightarrow> Logger \<Rightarrow> Logger" where
  "log_info now line = log now kInfo line"

definition log_warn :: "string \<Rightarrow> string \<Rightarrow> Logger \<Rightarrow> Logger" where
  "log_warn now line = log now kWarn line"

definition log_err :: "string \<Rightarrow> string \<Rightarrow> Logger \<Rightarrow> Logger" where
  "log_err now line = log now kError line"

definition set_level :: "int \<Rightarrow> Logger \<Rightarrow> Logger" where
  "set_level level g = g\<lparr>lg_level := level\<rparr>"

definition get_level :: "Logger \<Rightarrow> int" where
  "get_level g = lg_level g"

text \<open>A null file or function name is \<open>None\<close>.\<close>

definition put_details ::
    "string \<Rightarrow> int \<Rightarrow> string option \<Rightarrow> string option \<Rightarrow> nat \<Rightarrow> string \<Rightarrow> Logger \<Rightarrow> Logger" where
  "put_details now level source_file func_name line_number line =
     log now (normalize level)
       (case (source_file, func_name) of
          (Some f, Some n) \<Rightarrow>
            if level \<ge> level_number kDebug
            then line @ '' ['' @ f @ '':'' @ to_string_nat line_number @ '' '' @ n @ '']'' else line
        | _ \<Rightarrow> line)"

section \<open>Properties\<close>

lemma valid_level_parses:
  assumes "config_valid c"
  shows "\<exists>level. parse_log_level (cfg_log_level c) = Inr level"
  using assms by (auto simp: config_valid_def parse_log_level_def)

lemma normalize_number [simp]: "normalize (level_number level) = level"
  by (cases level) (simp_all add: normalize_def)

lemma normalize_monotone: "a \<le> b \<Longrightarrow> level_number (normalize a) \<le> level_number (normalize b)"
  by (auto simp: normalize_def)

text \<open>The text of the lines that pass the filter of a level, for a sequence of calls.\<close>

definition entry_text :: "string \<times> LogLevel \<times> string \<Rightarrow> string" where
  "entry_text e = (case e of (now, level, line) \<Rightarrow> now @ '' '' @ level_name level @ '' '' @ line @ [CHR 10])"

lemma log_frame [simp]: "lg_level (log now level line g) = lg_level g"
  by (simp add: log_def Let_def)

text \<open>
  Whatever is logged in whatever order, the file grows by exactly the lines whose level is not above
  the configured one, in the order of the calls.
\<close>

theorem log_keeps_exactly_the_severe:
  "lg_file (fold (\<lambda>(now, level, line). log now level line) es g) =
    lg_file g @ concat (map entry_text (filter (\<lambda>(_, level, _). level_number level \<le> lg_level g) es))"
  by (induction es arbitrary: g) (auto simp: log_def entry_text_def Let_def)

end
