(* ===== verification/Raft_Lifecycle.thy ===== *)
theory Raft_Lifecycle
  imports Raft_Workers Kv_Persistence File_Log_Store
begin

text \<open>
  Starting and stopping a node, \<open>start()\<close> and \<open>stop()\<close> of \<^verbatim>\<open>src/src/raft/raft_node.cpp\<close>: the objects a
  node owns (log store, state manager, state machine, launcher), the order in which they are
  created, flushed and released, and the library parameters a configuration gives. The launcher is a
  parameter: \<open>init\<close> and \<open>shutdown\<close> are arbitrary programs over the objects of the node and the files,
  because the library calls back into all of them; so is what the two worker threads do while they
  are joined. The state manager's reference to the log store is \<open>()\<close>, the only log store of the node.
  The library has let go of the objects when the launcher is released. Log lines are left out, except
  those of \<open>on_raft_event\<close>.

  The theorem: an orderly stop loses nothing, whatever a power loss after it takes: the next start
  finds all log entries, the applied state with its request records, and the term and vote.
\<close>

section \<open>Objects\<close>

record 'snap node_objects =
  no_system :: "'snap node_system"
  no_log_store :: "FileLogStore option"
  no_state_manager :: "unit FileStateManager option"
  no_launcher :: bool

type_synonym ('snap, 'a) objects_prog = "('snap node_objects \<times> world, 'a) prog"

definition object_config :: "'snap node_objects \<Rightarrow> Config" where
  "object_config ob = rn_config (sys_node (no_system ob))"

definition object_machine :: "'snap node_objects \<Rightarrow> 'snap KvStateMachine option" where
  "object_machine ob = rn_state_machine (sys_node (no_system ob))"

definition get_objects :: "('snap node_objects \<Rightarrow> 'a) \<Rightarrow> ('snap, 'a) objects_prog" where
  "get_objects f = getP (\<lambda>s. f (fst s))"

definition mod_objects :: "('snap node_objects \<Rightarrow> 'snap node_objects) \<Rightarrow> ('snap, unit) objects_prog" where
  "mod_objects f = modifyP (\<lambda>s. (f (fst s), snd s))"

definition with_system :: "('snap node_system \<Rightarrow> 'snap node_system) \<Rightarrow> 'snap node_objects \<Rightarrow> 'snap node_objects" where
  "with_system f ob = ob\<lparr>no_system := f (no_system ob)\<rparr>"

definition with_node :: "('snap RaftNode \<Rightarrow> 'snap RaftNode) \<Rightarrow> 'snap node_objects \<Rightarrow> 'snap node_objects" where
  "with_node f = with_system (\<lambda>s. s\<lparr>sys_node := f (sys_node s)\<rparr>)"

text \<open>The constructor: an absent logger is refused.\<close>

definition new_RaftNode :: "Config \<Rightarrow> bool \<Rightarrow> 'snap calls \<Rightarrow> exn + 'snap node_objects" where
  "new_RaftNode c logger v =
     (if \<not> logger then Inl (Invalid_argument ''RaftNode requires a logger'')
      else Inr \<lparr>no_system = initial_system \<lparr>rn_config = c, rn_state_machine = None, rn_server = False,
                  rn_running = False, rn_proposal_batches = 0, rn_proposal_entries = 0, rn_read_batches = 0,
                  rn_read_requests = 0, rn_lease_reads = 0\<rparr> v,
                no_log_store = None, no_state_manager = None, no_launcher = False\<rparr>)"

section \<open>The library\<close>

text \<open>The parameters the code sets; the others keep the defaults of the library.\<close>

record raft_params =
  heart_beat_interval :: int
  election_timeout_lower_bound :: int
  election_timeout_upper_bound :: int
  client_req_timeout :: int
  snapshot_distance :: int
  reserved_log_items :: int
  max_append_size :: int
  use_bg_thread_for_urgent_commit :: bool
  return_method_blocking :: bool
  leadership_expiry :: int
  auto_forwarding :: bool

definition raft_params_of :: "Config \<Rightarrow> raft_params" where
  "raft_params_of c = \<lparr>heart_beat_interval = cfg_heartbeat_ms c,
     election_timeout_lower_bound = cfg_election_timeout_lower_ms c,
     election_timeout_upper_bound = cfg_election_timeout_upper_ms c,
     client_req_timeout = cfg_client_request_timeout_ms c,
     snapshot_distance = cfg_snapshot_distance c, reserved_log_items = cfg_reserved_log_items c,
     max_append_size = 256, use_bg_thread_for_urgent_commit = False, return_method_blocking = True,
     leadership_expiry = cfg_election_timeout_lower_ms c, auto_forwarding = False\<rparr>"

definition thread_pool_size :: nat where "thread_pool_size = 4"

text \<open>
  \<open>lib_init port threads params\<close> returns whether the server pointer is not null. \<open>lib_polls\<close> are the
  answers of \<open>is_initialized\<close> and of the comparison of the clock with the deadline, round by round.
  \<open>lib_join\<close> is the run of the two workers until both have returned.
\<close>

record 'snap launcher =
  lib_init :: "nat \<Rightarrow> nat \<Rightarrow> raft_params \<Rightarrow> ('snap, bool) objects_prog"
  lib_shutdown :: "nat \<Rightarrow> ('snap, bool) objects_prog"
  lib_polls :: "(bool \<times> bool) list"
  lib_join :: "'snap node_system \<Rightarrow> 'snap node_system"

fun wait_initialized :: "(bool \<times> bool) list \<Rightarrow> (bool \<times> bool) list" where
  "wait_initialized [] = []"
| "wait_initialized ((ready, early) # polls) = (if \<not> ready \<and> early then wait_initialized polls else polls)"

definition initialized_in_time :: "(bool \<times> bool) list \<Rightarrow> bool" where
  "initialized_in_time polls = (case wait_initialized polls of [] \<Rightarrow> False | (ready, _) # _ \<Rightarrow> ready)"

section \<open>Events\<close>

text \<open>
  The events the callback names. A parameter is absent, or carries the leader and, behind its
  context pointer, a term or an index. The result is the line that is logged; the callback always
  returns \<open>Ok\<close>.
\<close>

datatype raft_event = BecomeLeader | BecomeFollower | SnapshotCreationBegin | NewConfig | Other_event int

record cb_param =
  cb_leaderId :: int
  cb_ctx :: "u64 option"

definition role_description :: "bool \<Rightarrow> string" where
  "role_description leader = (if leader then ''LEADER'' else ''FOLLOWER'')"

definition event_context :: "cb_param option \<Rightarrow> u64" where
  "event_context p = (case p of Some q \<Rightarrow> (case cb_ctx q of Some x \<Rightarrow> x | None \<Rightarrow> 0) | None \<Rightarrow> 0)"

definition on_raft_event :: "raft_event \<Rightarrow> cb_param option \<Rightarrow> string option" where
  "on_raft_event type p =
     (let leader = (case p of Some q \<Rightarrow> cb_leaderId q | None \<Rightarrow> - 1);
          role_change = ''role change role='' @ role_description (type = BecomeLeader) @
            '' leader_id='' @ to_string_int leader @ '' term='' @ to_string_nat (unat (event_context p))
      in case type of
           BecomeLeader \<Rightarrow> Some role_change
         | BecomeFollower \<Rightarrow> Some role_change
         | SnapshotCreationBegin \<Rightarrow>
             Some (''snapshot creation begin index='' @ to_string_nat (unat (event_context p)))
         | NewConfig \<Rightarrow> Some ''Raft cluster configuration committed''
         | Other_event _ \<Rightarrow> None)"

section \<open>Start and stop\<close>

text \<open>A program of the log store, if there is one.\<close>

definition on_log_store :: "'a store_prog \<Rightarrow> ('snap, unit) objects_prog" where
  "on_log_store p s =
     (case s of (ob, w) \<Rightarrow>
        (case no_log_store ob of
           None \<Rightarrow> (Ret (), (ob, w))
         | Some l \<Rightarrow>
             (case p (l, w) of
                (Ret _, (l', w')) \<Rightarrow> (Ret (), (ob\<lparr>no_log_store := Some l'\<rparr>, w'))
              | (Throw e, (l', w')) \<Rightarrow> (Throw e, (ob\<lparr>no_log_store := Some l'\<rparr>, w'))
              | (Died, (l', w')) \<Rightarrow> (Died, (ob\<lparr>no_log_store := Some l'\<rparr>, w')))))"

text \<open>Releasing the pointers runs the destructor of the log store; the others have nothing to do.\<close>

definition release_objects :: "('snap, unit) objects_prog" where
  "release_objects =
     bindP (mod_objects (with_node (\<lambda>n. n\<lparr>rn_server := False, rn_state_machine := None\<rparr>))) (\<lambda>_.
     bindP (mod_objects (\<lambda>ob. ob\<lparr>no_launcher := False, no_state_manager := None\<rparr>)) (\<lambda>_.
     bindP (on_log_store destroy) (\<lambda>_.
     mod_objects (\<lambda>ob. ob\<lparr>no_log_store := None\<rparr>))))"

text \<open>
  The first half of \<open>start\<close>. A store that a failed start left behind has loaded its file and has
  nothing pending, so replacing it does not write.
\<close>

definition open_storage :: "entry_api \<Rightarrow> 'snap snapshot_api \<Rightarrow> ('snap, unit) objects_prog" where
  "open_storage eapi sapi =
     bindP (get_objects object_config) (\<lambda>c.
     bindP (in_world (create_directories (cfg_data_dir c))) (\<lambda>_.
     bindP (in_world (create_directories (cfg_raft_log_dir c))) (\<lambda>_.
     bindP (in_world (create_directories (cfg_snapshot_dir c))) (\<lambda>_.
     bindP (in_world (new_FileLogStore eapi (path_join (cfg_raft_log_dir c) ''raft-log.bin''))) (\<lambda>l.
     bindP (mod_objects (\<lambda>ob. ob\<lparr>no_log_store := Some l\<rparr>)) (\<lambda>_.
     bindP (liftP (new_FileStateManager c (Some ()))) (\<lambda>manager.
     bindP (mod_objects (\<lambda>ob. ob\<lparr>no_state_manager := Some manager\<rparr>)) (\<lambda>_.
     bindP (in_world (new_KvStateMachine sapi (cfg_data_dir c) (cfg_snapshot_dir c) (cfg_max_request_size c))) (\<lambda>m.
     bindP (mod_objects (with_node (\<lambda>n. n\<lparr>rn_state_machine := Some m\<rparr>))) (\<lambda>_.
     mod_objects (\<lambda>ob. ob\<lparr>no_launcher := True\<rparr>)))))))))))"

definition start_server :: "'snap launcher \<Rightarrow> ('snap, unit) objects_prog" where
  "start_server lib =
     bindP (get_objects object_config) (\<lambda>c.
     bindP (liftP (local_node c)) (\<lambda>_.
     bindP (lib_init lib (cfg_raft_port c) thread_pool_size (raft_params_of c)) (\<lambda>server.
     bindP (mod_objects (with_node (\<lambda>n. n\<lparr>rn_server := server\<rparr>))) (\<lambda>_.
     if \<not> server then
       bindP release_objects (\<lambda>_. throwP (Runtime_error ''NuRaft launcher initialization failed''))
     else if \<not> initialized_in_time (lib_polls lib) then
       bindP (lib_shutdown lib 5) (\<lambda>_.
       bindP release_objects (\<lambda>_. throwP (Runtime_error ''NuRaft did not initialize within 10 seconds'')))
     else
       bindP (mod_objects (with_node (\<lambda>n. n\<lparr>rn_running := True\<rparr>))) (\<lambda>_.
       mod_objects (with_system start_workers))))))"

definition start :: "'snap launcher \<Rightarrow> entry_api \<Rightarrow> 'snap snapshot_api \<Rightarrow> ('snap, unit) objects_prog" where
  "start lib eapi sapi =
     bindP (get_objects (\<lambda>ob. rn_running (sys_node (no_system ob)))) (\<lambda>running.
     if running then retP () else bindP (open_storage eapi sapi) (\<lambda>_. start_server lib))"

definition stop_workers :: "'snap launcher \<Rightarrow> 'snap node_system \<Rightarrow> 'snap node_system" where
  "stop_workers lib s = lib_join lib (stop_proposals (stop_reads s))"

definition checkpoint_applied :: "('snap, unit) objects_prog" where
  "checkpoint_applied =
     bindP (get_objects object_machine) (\<lambda>machine.
     case machine of None \<Rightarrow> retP () | Some m \<Rightarrow> in_world (checkpoint m))"

definition stop :: "'snap launcher \<Rightarrow> ('snap, unit) objects_prog" where
  "stop lib =
     bindP (get_objects no_launcher) (\<lambda>launched.
     if \<not> launched then retP ()
     else
       bindP (mod_objects (with_node (\<lambda>n. n\<lparr>rn_running := False\<rparr>))) (\<lambda>_.
       bindP (mod_objects (with_system (stop_workers lib))) (\<lambda>_.
       bindP (lib_shutdown lib 10) (\<lambda>graceful.
       bindP (on_log_store flush) (\<lambda>_.
       bindP checkpoint_applied (\<lambda>_.
       release_objects))))))"

section \<open>What each part touches\<close>

text \<open>Appending and syncing touches no file but the log, and no name at all.\<close>

lemma sync_data_others: "keeps (others_same p) (sync_data p)"
  unfolding sync_data_def by (intro others_sys_call others_effects)

lemma sync_pending_frame:
  assumes "fd_open l" and "sync_pending_locked (l, w) = (r, (l', w'))"
  shows "others_same (log_file l) w w' \<and> older w' = older w \<and> log_file l' = log_file l"
proof (cases "pending l = []")
  case True
  then show ?thesis
    using assms(2) by (simp add: sync_pending_locked_def get_store_bind others.refl)
next
  case False
  let ?io = "bindP (write_all (log_io_error ''write'' (log_file l)) (log_file l) (pending l))
    (\<lambda>_. sync_data (log_file l))"
  have "keeps (others_same (log_file l)) ?io"
    by (intro others.keeps_bindP keeps_write_all sync_data_others)
  then have "others_same (log_file l) w (snd (?io w))" by (simp add: keeps_def)
  moreover have "older (snd (?io w)) = older w" using write_sync_names [of _ _ _ w] by (metis prod.collapse)
  ultimately show ?thesis
    using assms(2) unfolding sync_pending_open [OF assms(1) False]
    by (auto split: prod.splits outcome.splits)
qed

lemma flush_Ret:
  assumes "store_ok api s ds ps l w" and "flush (l, w) = (Ret x, (l', w'))"
  shows "store_ok api s (ds @ ps) [] l' w'" and "log_file l' = log_file l" and "others_same (log_file l) w w'"
    and "older w' = older w"
proof -
  from assms(2) obtain l1 w1 where sync: "sync_pending_locked (l, w) = (Ret (), (l1, w1))"
    and rest: "(if fd_open l1 then in_world (sync_data (log_file l1)) else retP ()) (l1, w1) = (Ret (), (l', w'))"
    by (auto simp: flush_def bindP_Ret_iff get_store_def split: if_splits)
  from sync_pending_cases [OF assms(1) sync] have ok: "store_ok api s (ds @ ps) [] l1 w1" by simp
  then obtain f where f: "files w1 (log_file l1) = Some f" "synced f = length (content f)" and "fd_open l1"
    by (auto simp: store_ok_def)
  then have sd: "sync_data (log_file l1) w1 = (Ret (), w')" "l' = l1"
    using rest by (auto simp: in_world_def split: prod.splits)
  from sync_data_cases [OF sd(1) f(1)] f(2) have "files w' (log_file l1) = Some f" by simp
  moreover have names: "older w' = older w1"
    using sd(1) unfolding sync_data_def by (elim sys_call_Ret) simp
  ultimately show "store_ok api s (ds @ ps) [] l' w'" using ok f(1) sd(2) by (simp add: store_ok_def)
  have "fd_open l" using assms(1) by (simp add: store_ok_def)
  note frame = sync_pending_frame [OF this sync]
  then show "log_file l' = log_file l" and "older w' = older w" using sd(2) names by simp_all
  have "others_same (log_file l1) w1 w'" using sync_data_others [of "log_file l1"] sd(1) by (metis keeps_def snd_conv)
  then show "others_same (log_file l) w w'" using frame others.trans by metis
qed

lemma destroy_idle: "pending l = [] \<Longrightarrow> destroy (l, w) = (Ret (), (l\<lparr>fd_open := False\<rparr>, w))"
  by (simp add: destroy_def sync_pending_locked_def get_store_def close_locked_def mod_store_def bindP_def catchP_def)

text \<open>Paths with different file names are different.\<close>

lemma append_neq:
  assumes "rev f ! k \<noteq> rev g ! k" and "k < length f" and "k < length g"
  shows "x @ f \<noteq> y @ g"
proof
  assume "x @ f = y @ g"
  then have "rev (x @ f) ! k = rev (y @ g) ! k" by simp
  with assms show False by (simp add: nth_append)
qed

lemma path_join_eq: "path_join a f = (if a = [] \<or> last a = CHR ''/'' then a else a @ ''/'') @ f"
  by (simp add: path_join_def)

lemma path_join_neq:
  assumes "rev f ! k \<noteq> rev g ! k" and "k < length f" and "k < length g"
  shows "path_join a f \<noteq> path_join b g"
  unfolding path_join_eq by (rule append_neq [OF assms])

lemma path_join_tmp: "path_join b g @ t = path_join b (g @ t)"
  by (simp add: path_join_eq)

lemma node_paths_differ:
  "path_join a ''raft-log.bin'' \<noteq> path_join b ''kv-state.bin''"
  "path_join a ''raft-log.bin'' \<noteq> path_join b ''latest.bin''"
  "path_join a ''latest.bin'' \<noteq> path_join b ''kv-state.bin''"
  "path_join a ''state.bin'' \<noteq> path_join b ''raft-log.bin''"
  by (rule path_join_neq [of _ 4]; simp)+

lemma temporary_paths_differ:
  "path_join a ''raft-log.bin'' \<noteq> path_join b ''kv-state.bin'' @ ''.tmp''"
  "path_join a ''latest.bin'' \<noteq> path_join b ''kv-state.bin'' @ ''.tmp''"
  "path_join a ''state.bin'' \<noteq> path_join b ''kv-state.bin'' @ ''.tmp''"
  unfolding path_join_tmp by (rule path_join_neq [of _ 0]; simp)+

lemma state_path_differs: "path_join a ''state.bin'' \<noteq> path_join b ''kv-state.bin''"
proof
  assume "path_join a ''state.bin'' = path_join b ''kv-state.bin''"
  then have "rev (path_join a ''state.bin'') = rev (path_join b ''kv-state.bin'')" by simp
  then have "rev (if a = [] \<or> last a = CHR ''/'' then a else a @ ''/'') =
      ''-vk'' @ rev (if b = [] \<or> last b = CHR ''/'' then b else b @ ''/'')"
    by (simp only: path_join_eq rev_append) simp
  then show False by (cases a rule: rev_cases) (auto split: if_splits)
qed

section \<open>Stop and start again\<close>

text \<open>
  The snapshot file is absent or holds a complete snapshot that is not ahead of the applied state, as
  after any snapshot the machine itself has taken or applied, and the directory has been synced since.
\<close>

definition snapshot_behind :: "'snap snapshot_api \<Rightarrow> nat \<Rightarrow> StateData \<Rightarrow> path \<Rightarrow> world \<Rightarrow> bool" where
  "snapshot_behind sapi n s p w \<longleftrightarrow> older w p = [] \<and>
     (\<forall>f. files w p = Some f \<longrightarrow>
        (\<exists>meta t. content f = record_image kSnapshotMagic (snapshot_image sapi meta (state_image t)) \<and>
           length (content f) \<le> synced f \<and> snapshot_fits sapi meta (state_image t) \<and> storable n t \<and>
           sd_last_commit_index t = Kv_Persistence.get_last_log_idx sapi meta \<and>
           sd_last_commit_index t \<le> sd_last_commit_index s))"

text \<open>
  The storage of a running node: the log store holds the entries \<open>es\<close> from index \<open>s\<close> on, durable or
  still pending, the machine \<open>m\<close> can be checkpointed within the limits of the format, and the last save
  of the term and vote has returned.
\<close>

definition node_storage :: "entry_api \<Rightarrow> 'snap snapshot_api \<Rightarrow> u64 \<Rightarrow> log_entry list \<Rightarrow> 'snap KvStateMachine \<Rightarrow>
    'snap node_objects \<Rightarrow> world \<Rightarrow> bool" where
  "node_storage eapi sapi s es m ob w \<longleftrightarrow>
     (\<exists>l ds ps. no_log_store ob = Some l \<and> es = ds @ ps \<and> store_ok eapi s ds ps l w \<and>
        log_file l = path_join (cfg_raft_log_dir (object_config ob)) ''raft-log.bin'') \<and>
     log_size eapi s es \<le> kMaximumLogFile \<and> object_machine ob = Some m \<and>
     state_file m = path_join (cfg_data_dir (object_config ob)) ''kv-state.bin'' \<and>
     max_field_size m = cfg_max_request_size (object_config ob) \<and> 0 < max_field_size m \<and>
     storable (max_field_size m) (state m) \<and> length (state_image (state m)) \<le> kMaximumStateFile \<and>
     snapshot_behind sapi (max_field_size m) (state m)
       (path_join (cfg_snapshot_dir (object_config ob)) ''latest.bin'') w \<and>
     older w (path_join (cfg_raft_log_dir (object_config ob)) ''state.bin'') = []"

lemma load_snapshot_behind:
  assumes "snapshot_api_ok sapi" and "script w = []"
    and "snapshot_behind sapi (max_field_size m) (state m) (snapshot_file m) w"
  shows "\<exists>snap. load_snapshot_metadata sapi m w = (Ret (m\<lparr>sm_last_snapshot := snap\<rparr>), w)"
proof (cases "files w (snapshot_file m)")
  case None
  then have "load_snapshot_metadata sapi m w = (Ret (m\<lparr>sm_last_snapshot := sm_last_snapshot m\<rparr>), w)"
    using assms(2) by (simp add: load_snapshot_metadata_def bindP_def)
  then show ?thesis ..
next
  case (Some f)
  then obtain meta t where t: "content f = record_image kSnapshotMagic (snapshot_image sapi meta (state_image t))"
      "snapshot_fits sapi meta (state_image t)" "storable (max_field_size m) t"
      "sd_last_commit_index t = Kv_Persistence.get_last_log_idx sapi meta"
      "\<not> sd_last_commit_index (state m) < sd_last_commit_index t"
    using assms(3) by (auto simp: snapshot_behind_def)
  have "holds_snapshot sapi meta (state_image t) (snapshot_file m) w"
    using assms(2) Some t(1) by (simp add: holds_snapshot_def)
  from load_snapshot_metadata_ok [OF this t(2) assms(1) deserialize_state_image [OF t(3)] t(4)] t(5)
  show ?thesis by auto
qed

lemma new_machine_restored:
  assumes "snapshot_api_ok sapi" and "script w = []" and "0 < n"
    and "files w (path_join d ''kv-state.bin'') = Some f"
    and "content f = record_image kStateMagic (state_image st)" and "storable n st"
    and "length (state_image st) \<le> kMaximumStateFile"
    and "snapshot_behind sapi n st (path_join e ''latest.bin'') w"
  shows "\<exists>m. new_KvStateMachine sapi d e n w = (Ret m, w) \<and> state m = st \<and> max_field_size m = n \<and>
    state_file m = path_join d ''kv-state.bin''"
proof -
  define m where "m = \<lparr>state_file = path_join d ''kv-state.bin'', snapshot_file = path_join e ''latest.bin'',
    max_field_size = n, state = initial_state, recent_results = [], sm_last_snapshot = None :: 'a option\<rparr>"
  have "load_state m w = (Ret (m\<lparr>state := st\<rparr>), w)"
    using assms by (intro load_state_image) (simp_all add: m_def)
  moreover obtain snap where "load_snapshot_metadata sapi (m\<lparr>state := st\<rparr>) w =
      (Ret (m\<lparr>state := st, sm_last_snapshot := snap\<rparr>), w)"
    using load_snapshot_behind [OF assms(1,2), of "m\<lparr>state := st\<rparr>"] assms(8) by (auto simp: m_def)
  ultimately have "new_KvStateMachine sapi d e n w = (Ret (m\<lparr>state := st, sm_last_snapshot := snap\<rparr>), w)"
    using assms(3) by (simp add: new_KvStateMachine_def Let_def bindP_eq flip: m_def)
  then show ?thesis by (intro exI [of _ "m\<lparr>state := st, sm_last_snapshot := snap\<rparr>"]) (simp add: m_def)
qed

text \<open>The objects after the workers have been stopped and before the library is shut down.\<close>

definition stopping :: "'snap launcher \<Rightarrow> 'snap node_objects \<Rightarrow> 'snap node_objects" where
  "stopping lib ob = with_system (stop_workers lib) (with_node (\<lambda>n. n\<lparr>rn_running := False\<rparr>) ob)"

lemma stop_steps:
  assumes "stop lib (ob, w) = (Ret (), (ob', w'))" and "no_launcher ob"
    and "lib_shutdown lib 10 (stopping lib ob, w) = (Ret g, (ob\<^sub>1, w\<^sub>1))"
    and "no_log_store ob\<^sub>1 = Some l" and "object_machine ob\<^sub>1 = Some m" and "store_ok api s ds ps l w\<^sub>1"
  shows "\<exists>l\<^sub>2 w\<^sub>2 x. flush (l, w\<^sub>1) = (Ret x, (l\<^sub>2, w\<^sub>2)) \<and> checkpoint m w\<^sub>2 = (Ret (), w')"
proof -
  have "bindP (on_log_store flush) (\<lambda>_. bindP checkpoint_applied (\<lambda>_. release_objects)) (ob\<^sub>1, w\<^sub>1) = (Ret (), (ob', w'))"
    using assms(1-3) by (simp add: stop_def get_objects_def mod_objects_def stopping_def bindP_def)
  then obtain ob\<^sub>2 w\<^sub>2 ob\<^sub>3 w\<^sub>3 where run: "on_log_store flush (ob\<^sub>1, w\<^sub>1) = (Ret (), (ob\<^sub>2, w\<^sub>2))"
      "checkpoint_applied (ob\<^sub>2, w\<^sub>2) = (Ret (), (ob\<^sub>3, w\<^sub>3))" "release_objects (ob\<^sub>3, w\<^sub>3) = (Ret (), (ob', w'))"
    by (auto simp: bindP_Ret_iff)
  from run(1) assms(4) obtain x l\<^sub>2 where fl: "flush (l, w\<^sub>1) = (Ret x, (l\<^sub>2, w\<^sub>2))" "ob\<^sub>2 = ob\<^sub>1\<lparr>no_log_store := Some l\<^sub>2\<rparr>"
    by (auto simp: on_log_store_def split: prod.splits outcome.splits)
  have cp: "checkpoint m w\<^sub>2 = (Ret (), w\<^sub>3)" "ob\<^sub>3 = ob\<^sub>2"
    using run(2) assms(5) fl(2)
    by (auto simp: checkpoint_applied_def get_objects_def bindP_def object_machine_def in_world_def split: prod.splits)
  have "pending l\<^sub>2 = []" using flush_Ret(1) [OF assms(6) fl(1)] by (simp add: store_ok_def)
  then have "w' = w\<^sub>3"
    using run(3) fl(2) cp(2)
    by (simp add: release_objects_def mod_objects_def with_node_def with_system_def bindP_def on_log_store_def destroy_idle)
  then show ?thesis using fl(1) cp(1) by blast
qed

text \<open>What the files hold after a stop that returned, and after a power loss.\<close>

lemma stop_files:
  assumes "stop lib (ob, w) = (Ret (), (ob', w'))" and "no_launcher ob"
    and "lib_shutdown lib 10 (stopping lib ob, w) = (Ret g, (ob\<^sub>1, w\<^sub>1))"
    and "node_storage eapi sapi s es m ob\<^sub>1 w\<^sub>1" and "c = object_config ob\<^sub>1"
  shows "\<exists>f. files w' (path_join (cfg_raft_log_dir c) ''raft-log.bin'') = Some f \<and>
      content f = header_image s @ frames eapi s es \<and> synced f = length (content f) \<and>
      older w' (path_join (cfg_raft_log_dir c) ''raft-log.bin'') = []"
    and "files w' (path_join (cfg_data_dir c) ''kv-state.bin'') =
      Some \<lparr>content = record_image kStateMagic (state_image (state m)),
        synced = length (record_image kStateMagic (state_image (state m)))\<rparr> \<and>
      older w' (path_join (cfg_data_dir c) ''kv-state.bin'') = []"
    and "older w\<^sub>1 (path_join d ''latest.bin'') = [] \<Longrightarrow> files w' (path_join d ''latest.bin'') =
      files w\<^sub>1 (path_join d ''latest.bin'') \<and> older w' (path_join d ''latest.bin'') = []"
    and "older w\<^sub>1 (path_join d ''state.bin'') = [] \<Longrightarrow> files w' (path_join d ''state.bin'') =
      files w\<^sub>1 (path_join d ''state.bin'') \<and> older w' (path_join d ''state.bin'') = []"
proof -
  obtain l ds ps where l: "no_log_store ob\<^sub>1 = Some l" "es = ds @ ps" "store_ok eapi s ds ps l w\<^sub>1"
      "log_file l = path_join (cfg_raft_log_dir c) ''raft-log.bin''" and om: "object_machine ob\<^sub>1 = Some m"
      and m: "state_file m = path_join (cfg_data_dir c) ''kv-state.bin''" "storable (max_field_size m) (state m)"
    using assms(4,5) by (auto simp: node_storage_def)
  obtain l\<^sub>2 w\<^sub>2 x where run: "flush (l, w\<^sub>1) = (Ret x, (l\<^sub>2, w\<^sub>2))" "checkpoint m w\<^sub>2 = (Ret (), w')"
    using stop_steps [OF assms(1-3) l(1) om l(3)] by blast
  note fl = flush_Ret [OF l(3) run(1)]
  have same: "files w' q = files w\<^sub>2 q \<and> (older w\<^sub>2 q = [] \<longrightarrow> older w' q = [])"
    if "q \<noteq> state_file m" "q \<noteq> state_file m @ ''.tmp''" for q
    using elsewhere_keptD [OF checkpoint_cases(2) [OF run(2) m(2)] that] by simp
  have before: "files w\<^sub>2 q = files w\<^sub>1 q" if "q \<noteq> log_file l" for q
    using fl(3) that by (simp add: others_same_def)
  have "files w' (log_file l) = files w\<^sub>2 (log_file l\<^sub>2)" "older w\<^sub>2 (log_file l) = [] \<longrightarrow> older w' (log_file l) = []"
    using same [of "log_file l"] node_paths_differ(1) temporary_paths_differ(1) l(4) m(1) fl(2) by simp_all
  then show "\<exists>f. files w' (path_join (cfg_raft_log_dir c) ''raft-log.bin'') = Some f \<and>
      content f = header_image s @ frames eapi s es \<and> synced f = length (content f) \<and>
      older w' (path_join (cfg_raft_log_dir c) ''raft-log.bin'') = []"
    using fl(1,2) l(2,4) by (auto simp: store_ok_def)
  show "files w' (path_join (cfg_data_dir c) ''kv-state.bin'') =
      Some \<lparr>content = record_image kStateMagic (state_image (state m)),
        synced = length (record_image kStateMagic (state_image (state m)))\<rparr> \<and>
      older w' (path_join (cfg_data_dir c) ''kv-state.bin'') = []"
    using checkpoint_cases(1) [OF run(2) m(2)] m(1) by (simp add: replaced_def)
  show "files w' (path_join d ''latest.bin'') = files w\<^sub>1 (path_join d ''latest.bin'') \<and>
      older w' (path_join d ''latest.bin'') = []" if "older w\<^sub>1 (path_join d ''latest.bin'') = []"
    using same [of "path_join d ''latest.bin''"] node_paths_differ(3) temporary_paths_differ(2) m(1)
      before [of "path_join d ''latest.bin''"] node_paths_differ(2) [symmetric] l(4) fl(4) that by simp
  show "files w' (path_join d ''state.bin'') = files w\<^sub>1 (path_join d ''state.bin'') \<and>
      older w' (path_join d ''state.bin'') = []" if "older w\<^sub>1 (path_join d ''state.bin'') = []"
    using same [of "path_join d ''state.bin''"] state_path_differs temporary_paths_differ(3) m(1)
      before [of "path_join d ''state.bin''"] node_paths_differ(4) l(4) fl(4) that by simp
qed

lemma snapshot_behind_power_loss:
  assumes "snapshot_behind sapi n s p w"
  shows "snapshot_behind sapi n s p (power_loss kept w)"
  unfolding snapshot_behind_def
proof (intro conjI allI impI)
  have old: "older w p = []" using assms by (simp add: snapshot_behind_def)
  fix f assume "files (power_loss kept w) p = Some f"
  then obtain f\<^sub>0 where f\<^sub>0: "files w p = Some f\<^sub>0" using old by (auto simp: power_loss_files)
  then obtain meta t where t: "content f\<^sub>0 = record_image kSnapshotMagic (snapshot_image sapi meta (state_image t))"
      "length (content f\<^sub>0) \<le> synced f\<^sub>0" "snapshot_fits sapi meta (state_image t)" "storable n t"
      "sd_last_commit_index t = Kv_Persistence.get_last_log_idx sapi meta"
      "sd_last_commit_index t \<le> sd_last_commit_index s"
    using assms unfolding snapshot_behind_def by blast
  have "f = \<lparr>content = content f\<^sub>0, synced = length (content f\<^sub>0)\<rparr>"
    using power_loss_synced [OF f\<^sub>0 old t(2)] \<open>files (power_loss kept w) p = Some f\<close> by simp
  then show "\<exists>meta t. content f = record_image kSnapshotMagic (snapshot_image sapi meta (state_image t)) \<and>
      length (content f) \<le> synced f \<and> snapshot_fits sapi meta (state_image t) \<and> storable n t \<and>
      sd_last_commit_index t = Kv_Persistence.get_last_log_idx sapi meta \<and> sd_last_commit_index t \<le> sd_last_commit_index s"
    using t by (intro exI [of _ meta] exI [of _ t]) simp
qed simp

lemma complete_log_loads:
  assumes "entry_api_ok eapi" and "s \<noteq> 0" and "list_all (entry_ok eapi) es" and "no_wrap s (length es)"
    and "log_size eapi s es \<le> kMaximumLogFile"
    and "\<exists>f. files w p = Some f \<and> content f = header_image s @ frames eapi s es \<and> synced f = length (content f) \<and>
      older w p = []"
  shows "new_FileLogStore eapi p (power_loss kept w) = (Ret (loaded_store eapi p s es), power_loss kept w)"
    and "store_ok eapi s (map (reloaded eapi) es) [] (loaded_store eapi p s es) (power_loss kept w)"
proof -
  obtain f where f: "files (power_loss kept w) p = Some f" "content f = header_image s @ frames eapi s es"
      "synced f = length (content f)"
    using assms(6) power_loss_synced [of w p _ kept] by auto
  have small: "length (content f) \<le> kMaximumLogFile" using f(2) assms(5) by (simp add: log_size_def)
  show "new_FileLogStore eapi p (power_loss kept w) = (Ret (loaded_store eapi p s es), power_loss kept w)"
    using load_result [OF assms(1) _ f(1) _ small assms(2-4), of "[]"] f(2) by simp
  then show "store_ok eapi s (map (reloaded eapi) es) [] (loaded_store eapi p s es) (power_loss kept w)"
    using load_recovers [OF assms(1) _ f(1) _ _ f(3) small assms(2-4), of "[]"] f(2) by auto
qed

lemma open_storage_ok:
  assumes "script w = []" and "c = object_config ob"
    and "new_FileLogStore eapi (path_join (cfg_raft_log_dir c) ''raft-log.bin'') w = (Ret l, w)"
    and "new_KvStateMachine sapi (cfg_data_dir c) (cfg_snapshot_dir c) (cfg_max_request_size c) w = (Ret m, w)"
  shows "\<exists>ob' manager. open_storage eapi sapi (ob, w) = (Ret (), (ob', w)) \<and> no_log_store ob' = Some l \<and>
    object_machine ob' = Some m \<and> object_config ob' = c \<and> no_launcher ob' \<and> no_state_manager ob' = Some manager \<and>
    new_FileStateManager c (Some ()) = Inr manager"
  using assms
  by (simp add: open_storage_def get_objects_def mod_objects_def bindP_def in_world_def create_directories_def sys_call_def
      new_FileStateManager_def with_node_def with_system_def object_machine_def object_config_def)

section \<open>A start that fails\<close>

definition released :: "'snap node_objects \<Rightarrow> bool" where
  "released ob \<longleftrightarrow> no_log_store ob = None \<and> no_state_manager ob = None \<and> object_machine ob = None \<and>
     \<not> no_launcher ob \<and> \<not> rn_server (sys_node (no_system ob))"

lemma destroy_never_throws: "destroy s \<noteq> (Throw e, t)"
  by (auto simp: destroy_def bindP_def catchP_def close_locked_def mod_store_def split: prod.splits outcome.splits)

lemma release_objects_cases:
  assumes "release_objects (ob, w) = (r, (ob', w'))"
  shows "r = Ret () \<and> released ob' \<or> r = Died"
  using assms destroy_never_throws
  by (auto simp: release_objects_def mod_objects_def with_node_def with_system_def bindP_def on_log_store_def
      released_def object_machine_def split: option.splits prod.splits outcome.splits)

text \<open>
  Once the library has been called, a start either leaves a running node, whose server is there and
  was initialized in time and whose workers accept requests, or throws with every object released, so
  that a later start can open the same files.
\<close>

theorem start_all_or_nothing:
  assumes "start_server lib (ob, w) = (r, (ob', w'))" and "local_node (object_config ob) = Inr n"
    and "lib_init lib (cfg_raft_port (object_config ob)) thread_pool_size (raft_params_of (object_config ob)) (ob, w) =
      (Ret server, (ob\<^sub>1, w\<^sub>1))"
    and "lib_shutdown lib 5 (with_node (\<lambda>n. n\<lparr>rn_server := True\<rparr>) ob\<^sub>1, w\<^sub>1) = (Ret g, (ob\<^sub>2, w\<^sub>2))"
  shows "r = Ret () \<and> server \<and> initialized_in_time (lib_polls lib) \<and> rn_running (sys_node (no_system ob')) \<and>
      rn_server (sys_node (no_system ob')) \<and> \<not> proposal_stopping (no_system ob') \<and> \<not> read_stopping (no_system ob') \<or>
    (\<exists>e. r = Throw e) \<and> released ob' \<or> r = Died"
proof -
  let ?ob = "with_node (\<lambda>n. n\<lparr>rn_server := server\<rparr>) ob\<^sub>1"
  have undo: "(\<exists>e. r = Throw e) \<and> released ob' \<or> r = Died"
    if "bindP release_objects (\<lambda>_. throwP e) (ob\<^sub>3, w\<^sub>3) = (r, (ob', w'))" for e ob\<^sub>3 w\<^sub>3
    using that release_objects_cases [of ob\<^sub>3 w\<^sub>3]
    by (auto simp: bindP_def split: prod.splits outcome.splits)
  have run: "(if \<not> server then bindP release_objects (\<lambda>_. throwP (Runtime_error ''NuRaft launcher initialization failed''))
      else if \<not> initialized_in_time (lib_polls lib) then bindP (lib_shutdown lib 5) (\<lambda>_.
        bindP release_objects (\<lambda>_. throwP (Runtime_error ''NuRaft did not initialize within 10 seconds'')))
      else bindP (mod_objects (with_node (\<lambda>n. n\<lparr>rn_running := True\<rparr>))) (\<lambda>_.
        mod_objects (with_system start_workers))) (?ob, w\<^sub>1) = (r, (ob', w'))"
    using assms(1-3) by (simp add: start_server_def get_objects_def mod_objects_def bindP_def)
  show ?thesis
  proof (cases "server \<and> initialized_in_time (lib_polls lib)")
    case True
    then show ?thesis
      using run by (auto simp: mod_objects_def bindP_def with_node_def with_system_def start_workers_def)
  next
    case False
    then show ?thesis using run undo assms(4) by (auto simp: bindP_eq split: if_splits)
  qed
qed

section \<open>Properties\<close>

text \<open>
  C8. An orderly stop loses nothing. If \<open>stop()\<close> returned, then whatever unsynced bytes and whatever
  unsynced renames a power loss afterwards undoes, the next \<open>start()\<close> reaches the library with all its storage opened: the log
  holds every entry it held when the library was shut down, pending ones included, with the same
  indexes; the state machine holds exactly the applied state, keys, request records and index; the
  term and vote are the ones stored before. The storage is then again in the state an orderly stop
  requires.
\<close>

theorem orderly_stop_loses_nothing:
  assumes "entry_api_ok eapi" and "snapshot_api_ok sapi"
    and "stop lib (ob, w) = (Ret (), (ob', w'))" and "no_launcher ob"
    and "lib_shutdown lib 10 (stopping lib ob, w) = (Ret g, (ob\<^sub>1, w\<^sub>1))"
    and "node_storage eapi sapi s es m ob\<^sub>1 w\<^sub>1"
    and "object_config ob\<^sub>0 = object_config ob\<^sub>1" and "\<not> rn_running (sys_node (no_system ob\<^sub>0))"
  shows "\<exists>ob\<^sub>2 l\<^sub>2 m\<^sub>2 manager. start lib\<^sub>0 eapi sapi (ob\<^sub>0, power_loss kept w') = start_server lib\<^sub>0 (ob\<^sub>2, power_loss kept w') \<and>
    no_log_store ob\<^sub>2 = Some l\<^sub>2 \<and> map fst (entries l\<^sub>2) = map fst (indexed s es) \<and>
    map (entry_core \<circ> snd) (entries l\<^sub>2) = map entry_core es \<and>
    object_machine ob\<^sub>2 = Some m\<^sub>2 \<and> state m\<^sub>2 = state m \<and> no_state_manager ob\<^sub>2 = Some manager \<and>
    fst (read_state meta manager (power_loss kept w')) = fst (read_state meta manager (power_loss kept w\<^sub>1)) \<and>
    node_storage eapi sapi s (map (reloaded eapi) es) m\<^sub>2 ob\<^sub>2 (power_loss kept w')"
proof -
  let ?c = "object_config ob\<^sub>1" and ?w = "power_loss kept w'"
  let ?log = "path_join (cfg_raft_log_dir ?c) ''raft-log.bin''"
  note disk = stop_files [OF assms(3-6) refl]
  have st: "storable (max_field_size m) (state m)" "length (state_image (state m)) \<le> kMaximumStateFile"
      "max_field_size m = cfg_max_request_size ?c" "0 < max_field_size m" "log_size eapi s es \<le> kMaximumLogFile"
      "snapshot_behind sapi (max_field_size m) (state m) (path_join (cfg_snapshot_dir ?c) ''latest.bin'') w\<^sub>1"
      "older w\<^sub>1 (path_join (cfg_raft_log_dir ?c) ''state.bin'') = []"
      and es: "s \<noteq> 0" "list_all (entry_ok eapi) es" "no_wrap s (length es)"
    using assms(6) by (auto simp: node_storage_def store_ok_def)
  define l\<^sub>2 where "l\<^sub>2 = loaded_store eapi ?log s es"
  note log = complete_log_loads [OF assms(1) es st(5) disk(1), of kept, folded l\<^sub>2_def]
  have behind: "snapshot_behind sapi (cfg_max_request_size ?c) (state m) (path_join (cfg_snapshot_dir ?c) ''latest.bin'') ?w"
    using st(3,6) disk(3) by (intro snapshot_behind_power_loss) (auto simp: snapshot_behind_def)
  have n: "0 < cfg_max_request_size ?c" "storable (cfg_max_request_size ?c) (state m)" using st by simp_all
  have kv: "files ?w (path_join (cfg_data_dir ?c) ''kv-state.bin'') = Some
      \<lparr>content = record_image kStateMagic (state_image (state m)), synced = length (record_image kStateMagic (state_image (state m)))\<rparr>"
    using disk(2) by (simp add: power_loss_synced)
  obtain m\<^sub>2 where m\<^sub>2: "new_KvStateMachine sapi (cfg_data_dir ?c) (cfg_snapshot_dir ?c) (cfg_max_request_size ?c) ?w = (Ret m\<^sub>2, ?w)"
      "state m\<^sub>2 = state m" "max_field_size m\<^sub>2 = cfg_max_request_size ?c"
      "state_file m\<^sub>2 = path_join (cfg_data_dir ?c) ''kv-state.bin''"
    using new_machine_restored [OF assms(2) power_loss_script n(1) kv _ n(2) st(2) behind] by auto
  obtain ob\<^sub>2 manager where ob\<^sub>2: "open_storage eapi sapi (ob\<^sub>0, ?w) = (Ret (), (ob\<^sub>2, ?w))" "no_log_store ob\<^sub>2 = Some l\<^sub>2"
      "object_machine ob\<^sub>2 = Some m\<^sub>2" "object_config ob\<^sub>2 = ?c" "no_state_manager ob\<^sub>2 = Some manager"
      "new_FileStateManager ?c (Some ()) = Inr manager"
    using open_storage_ok [OF power_loss_script assms(7) [symmetric] log(1) m\<^sub>2(1)] by blast
  have "start lib\<^sub>0 eapi sapi (ob\<^sub>0, ?w) = start_server lib\<^sub>0 (ob\<^sub>2, ?w)"
    using ob\<^sub>2(1) assms(8) by (simp add: start_def get_objects_def bindP_def)
  moreover have "files ?w (raft_state_file manager) = files (power_loss kept w\<^sub>1) (raft_state_file manager)"
    using ob\<^sub>2(6) disk(4) [OF st(7)] st(7) by (auto simp: new_FileStateManager_def power_loss_files)
  then have "fst (read_state meta manager ?w) = fst (read_state meta manager (power_loss kept w\<^sub>1))"
    by (intro read_state_frame) simp_all
  moreover have "log_size eapi s (map (reloaded eapi) es) = log_size eapi s es"
    by (simp add: log_size_def frames_reloaded [OF assms(1)])
  then have "node_storage eapi sapi s (map (reloaded eapi) es) m\<^sub>2 ob\<^sub>2 ?w"
    unfolding node_storage_def using ob\<^sub>2 log(2) m\<^sub>2 st behind
    by (intro conjI exI [of _ l\<^sub>2] exI [of _ "map (reloaded eapi) es"] exI [of _ "[]"])
      (simp_all add: l\<^sub>2_def loaded_store_def fresh_store_def)
  ultimately show ?thesis
    using ob\<^sub>2 m\<^sub>2(2) loaded_store_entries(1,2) [OF assms(1), of ?log s es] unfolding l\<^sub>2_def by blast
qed

text \<open>A node with one pending entry, over a library that stops at once.\<close>

definition unary_snapshots :: "nat snapshot_api" where
  "unary_snapshots = \<lparr>snap_serialize = (\<lambda>n. replicate n 0), snap_deserialize = (\<lambda>bs. Inr (length bs)),
     get_last_log_idx = of_nat\<rparr>"

definition idle_launcher :: "nat launcher" where
  "idle_launcher = \<lparr>lib_init = (\<lambda>_ _ _. retP True), lib_shutdown = (\<lambda>_. retP True),
     lib_polls = [(False, True), (True, True), (True, True)], lib_join = id\<rparr>"

definition example_objects :: "FileLogStore \<Rightarrow> nat node_objects" where
  "example_objects l = \<lparr>no_system = initial_system (example_node
       \<lparr>rn_config := default_config\<lparr>cfg_data_dir := ''d'', cfg_raft_log_dir := ''d'', cfg_snapshot_dir := ''d''\<rparr>,
        rn_state_machine := Some (example_machine\<lparr>state_file := ''d/kv-state.bin'', max_field_size := 1048576,
          state := example_state\<rparr>)\<rparr>) (\<lambda>_. example_instant),
     no_log_store = Some l, no_state_manager = None, no_launcher = True\<rparr>"

definition stop_world :: world where
  "stop_world = \<lparr>files = [''d/raft-log.bin'' \<mapsto> \<lparr>content = header_image 1, synced = kHeaderSize\<rparr>], older = (\<lambda>_. []), script = []\<rparr>"

lemma example_objects_storage:
  assumes "store_ok plain_entries 1 [] [example_entry] l stop_world" and "log_file l = ''d/raft-log.bin''"
  shows "node_storage plain_entries unary_snapshots 1 [example_entry]
    (the (object_machine (example_objects l))) (stopping idle_launcher (example_objects l)) stop_world"
proof -
  have "object_config (stopping idle_launcher (example_objects l)) = object_config (example_objects l)"
    "object_machine (stopping idle_launcher (example_objects l)) = object_machine (example_objects l)"
    "no_log_store (stopping idle_launcher (example_objects l)) = Some l"
    by (simp_all add: stopping_def with_system_def with_node_def stop_workers_def stop_reads_def stop_proposals_def
        idle_launcher_def object_config_def object_machine_def example_objects_def)
  moreover have "storable 1048576 example_state"
    by (simp add: storable_def state_ok_def example_state_def kMaximumItemCount_def)
  moreover have "length (le_serialize plain_entries example_entry) = 11"
    by (simp add: plain_entries_def example_entry_def)
  then have "log_size plain_entries 1 [example_entry] \<le> kMaximumLogFile"
    by (simp add: log_size_def length_frame_image kHeaderSize_def kMaximumLogFile_def)
  ultimately show ?thesis
    using assms example_state_image_small unfolding node_storage_def
    by (simp add: object_config_def object_machine_def example_objects_def initial_system_def default_config_def
        path_join_def snapshot_behind_def stop_world_def exI [of _ "[]"])
qed

lemma checkpoint_ok:
  assumes "script w = []" and "storable n (state m)" and "length (state_image (state m)) \<le> kMaximumStateFile"
  shows "\<exists>w'. checkpoint m w = (Ret (), w')"
  using serialize_state_image [OF assms(2)] assms(1) kMaximumStateFile_less [OF assms(3)]
    checked_record_bytes_iff [of kStateMagic "state_image (state m)" "record_image kStateMagic (state_image (state m))"]
  by (simp add: checkpoint_def persist_state_locked_def write_checked_record_def bindP_def atomic_write_file_ok)

lemma example_stop_returns:
  assumes "store_ok plain_entries 1 [] [example_entry] l stop_world"
  shows "\<exists>ob' w'. stop idle_launcher (example_objects l, stop_world) = (Ret (), (ob', w'))"
proof -
  let ?m = "the (object_machine (example_objects l))"
  obtain l\<^sub>2 w\<^sub>2 where fl: "flush (l, stop_world) = (Ret True, (l\<^sub>2, w\<^sub>2))" "script w\<^sub>2 = []"
      "store_ok plain_entries 1 [example_entry] [] l\<^sub>2 w\<^sub>2"
    using flush_ok [OF assms] by (auto simp: stop_world_def)
  have "storable 64 (state ?m)" "length (state_image (state ?m)) \<le> kMaximumStateFile"
    using example_state_storable example_state_image_small
    by (simp_all add: object_machine_def example_objects_def initial_system_def)
  from checkpoint_ok [OF fl(2) this] obtain w' where cp: "checkpoint ?m w\<^sub>2 = (Ret (), w')" ..
  have "pending l\<^sub>2 = []" using fl(3) by (simp add: store_ok_def)
  then show ?thesis
    using fl(1) cp
    by (simp add: stop_def get_objects_def mod_objects_def with_system_def with_node_def stop_workers_def stop_reads_def
        stop_proposals_def idle_launcher_def on_log_store_def checkpoint_applied_def release_objects_def destroy_idle
        in_world_def bindP_def object_machine_def example_objects_def initial_system_def)
qed

theorem orderly_stop_loses_nothing_witness:
  "\<exists>l ob' w' ob\<^sub>2 m\<^sub>2. stop idle_launcher (example_objects l, stop_world) = (Ret (), (ob', w')) \<and>
     start idle_launcher plain_entries unary_snapshots (stopping idle_launcher (example_objects l), power_loss (\<lambda>_. (0, 1)) w') =
       start_server idle_launcher (ob\<^sub>2, power_loss (\<lambda>_. (0, 1)) w') \<and>
     object_machine ob\<^sub>2 = Some m\<^sub>2 \<and> state m\<^sub>2 = example_state"
proof -
  have "store_ok plain_entries 1 [] [] (loaded_store plain_entries ''d/raft-log.bin'' 1 []) stop_world"
    by (simp add: store_ok_def loaded_store_def fresh_store_def log_size_def stop_world_def no_wrap_def)
  from append_entry_ok [OF plain_entries_ok this example_entry_ok] obtain l
    where l: "store_ok plain_entries 1 [] [example_entry] l stop_world" "log_file l = ''d/raft-log.bin''"
    by (auto simp: no_wrap_def loaded_store_def fresh_store_def)
  let ?ob = "example_objects l" and ?ob\<^sub>1 = "stopping idle_launcher (example_objects l)"
  obtain ob' w' where run: "stop idle_launcher (?ob, stop_world) = (Ret (), (ob', w'))"
    using example_stop_returns [OF l(1)] by blast
  have down: "lib_shutdown idle_launcher 10 (?ob\<^sub>1, stop_world) = (Ret True, (?ob\<^sub>1, stop_world))"
    by (simp add: idle_launcher_def)
  have "snapshot_api_ok unary_snapshots" by (simp add: snapshot_api_ok_def unary_snapshots_def)
  moreover have "no_launcher ?ob" "\<not> rn_running (sys_node (no_system ?ob\<^sub>1))"
    by (simp_all add: stopping_def with_system_def with_node_def stop_workers_def stop_reads_def stop_proposals_def
        idle_launcher_def example_objects_def)
  moreover have "state (the (object_machine ?ob)) = example_state"
    by (simp add: object_machine_def example_objects_def initial_system_def)
  ultimately show ?thesis
    using orderly_stop_loses_nothing [OF plain_entries_ok _ run _ down example_objects_storage [OF l] refl, of idle_launcher "\<lambda>_. (0, 1)"]
      run by metis
qed

end
