(* ===== verification/Tcp_Server.thy ===== *)
theory Tcp_Server
  imports Command_Service
begin

text \<open>
  The connections of a server, \<^verbatim>\<open>src/src/server/tcp_server.{h,cpp}\<close>. The first part is
  \<^theory_text>\<open>session_loop\<close>: feeding what was read to the parser, answering every complete value and
  writing the answers. The socket belongs to the asio library: what a session sees of it is the
  sequence of the results of its coming reads, each with the value of \<open>running_\<close> before it, and the
  success of its coming writes. The second part is the threads: the accept loop, the session threads and
  \<^theory_text>\<open>stop\<close>, as steps of one state.

  The theorems: pipelined commands are answered one by one, in order, however their bytes are cut
  into packets; the number of registered connections never exceeds the limit and the connection
  counter is exact; \<^theory_text>\<open>stop\<close> always finishes, with the accept thread gone and no connection left,
  but session threads may still be running.
\<close>

section \<open>A session\<close>

record 'w connection =
  cn_parser :: RespParser
  cn_session :: ClientSession
  cn_world :: 'w
  cn_sent :: "string list"
  cn_writes :: "bool list"

datatype session_state = Serving | Disconnected | Threw exn

definition new_connection :: "Config \<Rightarrow> 'w \<Rightarrow> bool list \<Rightarrow> exn + 'w connection" where
  "new_connection config w writes =
     bindE (new_parser (cfg_max_request_size config) 16) (\<lambda>p.
     Inr \<lparr>cn_parser = p, cn_session = new_session, cn_world = w, cn_sent = [], cn_writes = writes\<rparr>)"

text \<open>The response to one value: a value that is no command is answered, other exceptions leave the loop.\<close>

definition respond :: "'w raft_api \<Rightarrow> CommandService \<Rightarrow> RespValue \<Rightarrow> 'w connection \<Rightarrow> (exn + string) \<times> 'w connection" where
  "respond api svc v c =
     (case command_arguments v of
        Inl e \<Rightarrow> (encode_error (''ERR Protocol error: '' @ what e), c)
      | Inr arguments \<Rightarrow>
          (let ((reply, session), w) = run_state (execute api svc arguments (cn_session c)) (cn_world c)
           in (reply, c\<lparr>cn_session := session, cn_world := w\<rparr>)))"

text \<open>\<^theory_text>\<open>asio::write\<close>: whether it succeeded; what was written is recorded.\<close>

definition send :: "string \<Rightarrow> 'w connection \<Rightarrow> bool \<times> 'w connection" where
  "send m c =
     (case cn_writes c of
        [] \<Rightarrow> (True, c\<lparr>cn_sent := cn_sent c @ [m]\<rparr>)
      | ok # rest \<Rightarrow>
          (ok, c\<lparr>cn_writes := rest, cn_sent := (if ok then cn_sent c @ [m] else cn_sent c)\<rparr>))"

lemma cn_parser_respond [simp]: "cn_parser (snd (respond api svc v c)) = cn_parser c"
  by (simp add: respond_def case_prod_beta Let_def split: sum.split)

lemma cn_parser_send [simp]: "cn_parser (snd (send m c)) = cn_parser c"
  by (simp add: send_def split: list.split)

function serve_values :: "'w raft_api \<Rightarrow> CommandService \<Rightarrow> 'w connection \<Rightarrow> session_state \<times> 'w connection" where
  "serve_values api svc c =
     (case next_value (cn_parser c) of
        Inl e \<Rightarrow> (Threw e, c)
      | Inr (value, p) \<Rightarrow>
          (let c = c\<lparr>cn_parser := p\<rparr> in
           case value of
             None \<Rightarrow> (Serving, c)
           | Some v \<Rightarrow>
               (let answer = respond api svc v c in
                case fst answer of
                  Inl e \<Rightarrow> (Threw e, snd answer)
                | Inr m \<Rightarrow>
                    (let written = send m (snd answer) in
                     if \<not> fst written then (Disconnected, snd written)
                     else serve_values api svc (snd written)))))"
  by pat_completeness auto

termination
  by (relation "measure (\<lambda>(_, _, c). length (buffer (cn_parser c)))") (auto dest: next_value_shrinks)

declare serve_values.simps [simp del]

text \<open>The loop over the reads; \<open>Inl\<close> is an error of \<^theory_text>\<open>read_some\<close>, as is the end of the list.\<close>

fun serve :: "'w raft_api \<Rightarrow> CommandService \<Rightarrow> (bool \<times> (string + string)) list \<Rightarrow> 'w connection \<Rightarrow>
    session_state \<times> 'w connection" where
  "serve api svc [] c = (Disconnected, c)"
| "serve api svc ((running, input) # inputs) c =
     (if \<not> running then (Disconnected, c)
      else case input of
        Inl error \<Rightarrow> (Disconnected, c)
      | Inr data \<Rightarrow>
          (case feed data (cn_parser c) of
             Inl e \<Rightarrow> (Threw e, c)
           | Inr p \<Rightarrow>
               (case serve_values api svc (c\<lparr>cn_parser := p\<rparr>) of
                  (Serving, c) \<Rightarrow> serve api svc inputs c
                | (other, c) \<Rightarrow> (other, c))))"

text \<open>The whole session: a protocol error is reported before the connection is closed.\<close>

definition session_loop :: "'w raft_api \<Rightarrow> CommandService \<Rightarrow> (bool \<times> (string + string)) list \<Rightarrow> 'w connection \<Rightarrow> 'w connection" where
  "session_loop api svc inputs c =
     (case serve api svc inputs c of
        (Threw (ProtocolError m), c) \<Rightarrow>
          (case encode_error (''ERR Protocol error: '' @ m) of
             Inl _ \<Rightarrow> c
           | Inr reply \<Rightarrow> snd (send reply c))
      | (_, c) \<Rightarrow> c)"


section \<open>Commands are answered in order\<close>

lemma next_values_Cons:
  assumes "next_values p = (v # vs, r)"
  obtains q where "next_value p = Inr (Some v, q)" "next_values q = (vs, r)"
proof (cases "next_value p")
  case (Inl e)
  then show ?thesis using assms by (simp add: next_values.simps)
next
  case (Inr x)
  obtain o' q where x: "x = (o', q)" by fastforce
  then show ?thesis
    using assms Inr that by (cases o'; cases "next_values q") (auto simp: next_values.simps [of p])
qed

lemma next_values_Nil: "next_values p = ([], Inr q) \<Longrightarrow> next_value p = Inr (None, q)"
  by (auto simp: next_values.simps [of p] map_prod_def split: sum.splits option.splits prod.splits)

abbreviation command_value :: "string list \<Rightarrow> RespValue" where
  "command_value args \<equiv> RespValue_array_value (map RespValue_bulk args)"

text \<open>The values in the buffer are commands whose execution does not throw, and writing succeeds.\<close>

lemma serve_values_commands:
  assumes "next_values (cn_parser c) = (map command_value cmds, Inr q)" and "list_all (\<lambda>args. args \<noteq> []) cmds"
    and "cn_writes c = []"
    and "run_state (execute_all api svc cmds (cn_session c)) (cn_world c) = ((map Inr ms, session), w)"
  shows "serve_values api svc c =
    (Serving, c\<lparr>cn_parser := q, cn_session := session, cn_world := w, cn_sent := cn_sent c @ ms\<rparr>)"
  using assms
proof (induction cmds arbitrary: c ms)
  case Nil
  then show ?case
    using next_values_Nil [of "cn_parser c" q] by (simp add: serve_values.simps [of _ _ c])
next
  case (Cons args cmds)
  from Cons.prems(1) obtain p where p: "next_value (cn_parser c) = Inr (Some (command_value args), p)"
    "next_values p = (map command_value cmds, Inr q)" by (auto elim: next_values_Cons)
  obtain r s1 w1 where ex: "run_state (execute api svc args (cn_session c)) (cn_world c) = ((r, s1), w1)"
    by (metis surj_pair)
  from Cons.prems(4) ex obtain m ms' where m: "ms = m # ms'" "r = Inr m"
    "run_state (execute_all api svc cmds s1) w1 = ((map Inr ms', session), w)"
    by (cases ms) (auto split: prod.splits)
  let ?c = "c\<lparr>cn_parser := p, cn_session := s1, cn_world := w1, cn_sent := cn_sent c @ [m]\<rparr>"
  have "respond api svc (command_value args) (c\<lparr>cn_parser := p\<rparr>) = (Inr m, c\<lparr>cn_parser := p, cn_session := s1, cn_world := w1\<rparr>)"
    using Cons.prems(2) ex m(2) by (simp add: respond_def command_arguments_bulk)
  then have "serve_values api svc c = serve_values api svc ?c"
    using p(1) Cons.prems(3) by (simp add: serve_values.simps [of _ _ c] send_def)
  also have "\<dots> = (Serving, ?c\<lparr>cn_parser := q, cn_session := session, cn_world := w, cn_sent := cn_sent ?c @ ms'\<rparr>)"
    using Cons.IH [of ?c ms'] p(2) m(3) Cons.prems(2,3) by simp
  finally show ?case using m(1) by simp
qed

lemma execute_all_append:
  "run_state (execute_all api svc (xs @ ys) s) w =
     (let ((rs, s1), w1) = run_state (execute_all api svc xs s) w;
          ((rs', s2), w2) = run_state (execute_all api svc ys s1) w1
      in ((rs @ rs', s2), w2))"
  by (induction xs arbitrary: s w) (simp_all add: Let_def split: prod.splits)

lemma length_execute_all: "length (fst (fst (run_state (execute_all api svc cmds s) w))) = length cmds"
  by (induction cmds arbitrary: s w) (simp_all split: prod.splits, metis fst_conv)

lemma serve_commands:
  assumes "receive ds (cn_parser c) = (map command_value cmds, Inr q)" and "list_all (\<lambda>args. args \<noteq> []) cmds"
    and "cn_writes c = []"
    and "run_state (execute_all api svc cmds (cn_session c)) (cn_world c) = ((map Inr ms, session), w)"
  shows "serve api svc (map (\<lambda>d. (True, Inr d)) ds) c =
    (Disconnected, c\<lparr>cn_parser := q, cn_session := session, cn_world := w, cn_sent := cn_sent c @ ms\<rparr>)"
  using assms
proof (induction ds arbitrary: c cmds ms)
  case Nil
  then show ?case by simp
next
  case (Cons d ds)
  from Cons.prems(1) obtain p q1 vs1 vs2 where feed: "feed d (cn_parser c) = Inr p"
    and v1: "next_values p = (vs1, Inr q1)" and v2: "receive ds q1 = (vs2, Inr q)"
    and vs: "map command_value cmds = vs1 @ vs2"
    by (auto simp: map_prod_def split: sum.splits prod.splits)
  then obtain c1 c2 where cmds: "cmds = c1 @ c2" "vs1 = map command_value c1" "vs2 = map command_value c2"
    by (auto simp: map_eq_append_conv)
  obtain rs1 s1 w1 where e1: "run_state (execute_all api svc c1 (cn_session c)) (cn_world c) = ((rs1, s1), w1)"
    by (metis surj_pair)
  with Cons.prems(4) cmds(1) obtain ms1 ms2 where ms: "ms = ms1 @ ms2" "rs1 = map Inr ms1"
    "run_state (execute_all api svc c2 s1) w1 = ((map Inr ms2, session), w)"
    by (auto simp: execute_all_append append_eq_map_conv split: prod.splits)
  let ?c = "c\<lparr>cn_parser := q1, cn_session := s1, cn_world := w1, cn_sent := cn_sent c @ ms1\<rparr>"
  have "serve_values api svc (c\<lparr>cn_parser := p\<rparr>) = (Serving, ?c)"
    using serve_values_commands [of "c\<lparr>cn_parser := p\<rparr>" c1 q1 api svc ms1 s1 w1] v1 cmds e1 ms Cons.prems(2,3) by simp
  then show ?case
    using feed Cons.IH [of ?c c2 ms2] v2 cmds ms Cons.prems(2,3) by simp
qed


section \<open>Threads\<close>

text \<open>
  The server as a whole. A session thread is at one of its program points, and so is \<^theory_text>\<open>stop\<close>; every
  access of a shared variable or lock is one step. A session at \<open>S_test\<close> is about to read
  \<open>running_\<close>, at \<open>S_reading\<close> it is blocked in \<^theory_text>\<open>read_some\<close>, at \<open>S_executing\<close> it answers what it
  read, and at \<open>S_erased\<close> it has removed its socket from the table but not yet told the command
  service that the client is gone. \<open>ts_closed\<close> are the sockets that were shut down.
\<close>

datatype session_point = S_new | S_test | S_reading | S_executing | S_ended | S_closed | S_erased | S_done
datatype accept_point = A_none | A_loop | A_accepted | A_exited
datatype stop_point = Stop_none | Stop_flagged | Stop_closed | Stop_joined | Stop_returned

record tcp_server =
  ts_max_connections :: nat
  ts_running :: bool
  ts_accept :: accept_point
  ts_sockets :: "nat set"
  ts_next_session_id :: nat
  ts_sessions :: "nat \<rightharpoonup> session_point"
  ts_closed :: "nat set"
  ts_connections :: nat
  ts_stop :: stop_point

definition new_tcp_server :: "Config \<Rightarrow> tcp_server" where
  "new_tcp_server config = \<lparr>ts_max_connections = cfg_max_connections config, ts_running = False, ts_accept = A_none,
     ts_sockets = {}, ts_next_session_id = 1, ts_sessions = Map.empty, ts_closed = {}, ts_connections = 0,
     ts_stop = Stop_none\<rparr>"

text \<open>
  \<open>start()\<close>: the outcomes of its calls (the address, open, the option, bind, listen, the mode of the
  acceptor, the thread), an error text or \<open>None\<close>. The first failing call ends the start.
\<close>

definition tcp_start :: "string option list \<Rightarrow> tcp_server \<Rightarrow> (exn + unit) \<times> tcp_server" where
  "tcp_start calls t =
     (if ts_running t then (Inr (), t)
      else
        let t = t\<lparr>ts_running := True\<rparr> in
        case List.find (\<lambda>outcome. outcome \<noteq> None) calls of
          Some (Some e) \<Rightarrow> (Inl (Runtime_error e), t\<lparr>ts_running := False\<rparr>)
        | _ \<Rightarrow> (Inr (), t\<lparr>ts_accept := A_loop, ts_stop := Stop_none\<rparr>))"

text \<open>The locked section of the accept loop: refuse, or register the socket and start its thread.\<close>

definition admit :: "bool \<Rightarrow> tcp_server \<Rightarrow> tcp_server" where
  "admit thread_started t =
     (let i = ts_next_session_id t; t = t\<lparr>ts_next_session_id := i + 1, ts_accept := A_loop\<rparr> in
      if card (ts_sockets t) \<ge> ts_max_connections t then t
      else if thread_started
      then t\<lparr>ts_sockets := insert i (ts_sockets t), ts_sessions := (ts_sessions t)(i \<mapsto> S_new)\<rparr>
      else t)"

abbreviation at_point :: "nat \<Rightarrow> session_point \<Rightarrow> tcp_server \<Rightarrow> tcp_server" where
  "at_point i p t \<equiv> t\<lparr>ts_sessions := (ts_sessions t)(i \<mapsto> p)\<rparr>"

text \<open>What the threads of the server do by themselves.\<close>

inductive own_step :: "tcp_server \<Rightarrow> tcp_server \<Rightarrow> bool" where
  admitted: "ts_accept t = A_accepted \<Longrightarrow> own_step t (admit started t)"
| accept_exit: "ts_accept t = A_loop \<Longrightarrow> \<not> ts_running t \<Longrightarrow> own_step t (t\<lparr>ts_accept := A_exited\<rparr>)"
| counted: "ts_sessions t i = Some S_new \<Longrightarrow>
    own_step t ((at_point i S_test t)\<lparr>ts_connections := ts_connections t + 1\<rparr>)"
| tested: "ts_sessions t i = Some S_test \<Longrightarrow> own_step t (at_point i (if ts_running t then S_reading else S_ended) t)"
| read_failed: "ts_sessions t i = Some S_reading \<Longrightarrow> i \<in> ts_closed t \<Longrightarrow> own_step t (at_point i S_ended t)"
| answered: "ts_sessions t i = Some S_executing \<Longrightarrow> p \<in> {S_test, S_ended} \<Longrightarrow> own_step t (at_point i p t)"
| socket_closed: "ts_sessions t i = Some S_ended \<Longrightarrow>
    own_step t ((at_point i S_closed t)\<lparr>ts_closed := insert i (ts_closed t)\<rparr>)"
| erased: "ts_sessions t i = Some S_closed \<Longrightarrow>
    own_step t ((at_point i S_erased t)\<lparr>ts_sockets := ts_sockets t - {i}\<rparr>)"
| uncounted: "ts_sessions t i = Some S_erased \<Longrightarrow>
    own_step t ((at_point i S_done t)\<lparr>ts_connections := ts_connections t - 1\<rparr>)"
| sockets_closed: "ts_stop t = Stop_flagged \<Longrightarrow>
    own_step t (t\<lparr>ts_closed := ts_closed t \<union> ts_sockets t, ts_stop := Stop_closed\<rparr>)"
| joined: "ts_stop t = Stop_closed \<Longrightarrow> ts_accept t = A_exited \<Longrightarrow> own_step t (t\<lparr>ts_stop := Stop_joined\<rparr>)"
| returned: "ts_stop t = Stop_joined \<Longrightarrow> ts_sockets t = {} \<Longrightarrow> own_step t (t\<lparr>ts_stop := Stop_returned\<rparr>)"

text \<open>What the peers, the operating system and the owner of the server do.\<close>

inductive server_step :: "tcp_server \<Rightarrow> tcp_server \<Rightarrow> bool" where
  own: "own_step t t' \<Longrightarrow> server_step t t'"
| started: "\<not> ts_running t \<Longrightarrow> ts_stop t \<in> {Stop_none, Stop_returned} \<Longrightarrow>
    server_step t (t\<lparr>ts_running := True, ts_accept := A_loop, ts_stop := Stop_none\<rparr>)"
| stop_called: "ts_running t \<Longrightarrow> server_step t (t\<lparr>ts_running := False, ts_stop := Stop_flagged\<rparr>)"
| connection: "ts_accept t = A_loop \<Longrightarrow> ts_running t \<Longrightarrow> server_step t (t\<lparr>ts_accept := A_accepted\<rparr>)"
| connection_lost: "ts_accept t = A_accepted \<Longrightarrow> server_step t (t\<lparr>ts_accept := A_loop\<rparr>)"
| data_arrived: "ts_sessions t i = Some S_reading \<Longrightarrow> server_step t (at_point i S_executing t)"
| peer_closed: "ts_sessions t i = Some S_reading \<Longrightarrow> server_step t (at_point i S_ended t)"

text \<open>A start has no effect, or is the step that starts the server; a failed one changes nothing.\<close>

lemma tcp_start_cases:
  assumes "tcp_start calls t = (r, t')" and "ts_stop t \<in> {Stop_none, Stop_returned}"
  shows "t' = t \<and> (r = Inr () \<longrightarrow> ts_running t) \<or> r = Inr () \<and> server_step t t' \<and> ts_running t'"
proof -
  have "t\<lparr>ts_running := False\<rparr> = t" if "\<not> ts_running t" using that by (cases t) simp
  then show ?thesis
    using assms server_step.started [of t]
    by (auto simp: tcp_start_def Let_def split: if_splits option.splits)
qed

inductive server_reachable :: "Config \<Rightarrow> tcp_server \<Rightarrow> bool" for config where
  initial: "server_reachable config (new_tcp_server config)"
| step: "server_reachable config t \<Longrightarrow> server_step t t' \<Longrightarrow> server_reachable config t'"

inductive_cases own_stepE: "own_step t t'"
inductive_cases server_stepE: "server_step t t'"


section \<open>The server invariant\<close>

definition with_point :: "session_point set \<Rightarrow> tcp_server \<Rightarrow> nat set" where
  "with_point P t = {i. \<exists>p\<in>P. ts_sessions t i = Some p}"

definition registered :: "session_point set" where
  "registered = {S_new, S_test, S_reading, S_executing, S_ended, S_closed}"

definition counted_points :: "session_point set" where
  "counted_points = {S_test, S_reading, S_executing, S_ended, S_closed, S_erased}"

definition server_ok :: "tcp_server \<Rightarrow> bool" where
  "server_ok t \<longleftrightarrow>
     dom (ts_sessions t) \<subseteq> {..<ts_next_session_id t} \<and>
     ts_sockets t = with_point registered t \<and> card (ts_sockets t) \<le> ts_max_connections t \<and>
     ts_connections t = card (with_point counted_points t) \<and>
     (ts_stop t \<noteq> Stop_none \<longrightarrow> \<not> ts_running t) \<and>
     (ts_stop t \<in> {Stop_closed, Stop_joined, Stop_returned} \<longrightarrow> with_point {S_reading} t \<subseteq> ts_closed t) \<and>
     (ts_stop t \<in> {Stop_joined, Stop_returned} \<longrightarrow> ts_accept t = A_exited) \<and>
     (ts_stop t = Stop_returned \<longrightarrow> ts_sockets t = {}) \<and>
     (ts_running t \<or> ts_stop t \<noteq> Stop_none \<longrightarrow> ts_accept t \<noteq> A_none)"

lemma server_okD:
  assumes "server_ok t"
  shows "dom (ts_sessions t) \<subseteq> {..<ts_next_session_id t}" "ts_sockets t = with_point registered t"
    "card (ts_sockets t) \<le> ts_max_connections t" "ts_connections t = card (with_point counted_points t)"
    "ts_stop t \<noteq> Stop_none \<Longrightarrow> \<not> ts_running t"
    "ts_stop t \<in> {Stop_closed, Stop_joined, Stop_returned} \<Longrightarrow> with_point {S_reading} t \<subseteq> ts_closed t"
    "ts_stop t \<in> {Stop_joined, Stop_returned} \<Longrightarrow> ts_accept t = A_exited"
    "ts_stop t = Stop_returned \<Longrightarrow> ts_sockets t = {}"
    "ts_running t \<or> ts_stop t \<noteq> Stop_none \<Longrightarrow> ts_accept t \<noteq> A_none"
  using assms unfolding server_ok_def by blast+

lemma with_point_cong [simp]:
  "with_point P (t\<lparr>ts_accept := a\<rparr>) = with_point P t" "with_point P (t\<lparr>ts_running := r\<rparr>) = with_point P t"
  "with_point P (t\<lparr>ts_stop := s\<rparr>) = with_point P t" "with_point P (t\<lparr>ts_closed := c\<rparr>) = with_point P t"
  "with_point P (t\<lparr>ts_connections := n\<rparr>) = with_point P t" "with_point P (t\<lparr>ts_sockets := x\<rparr>) = with_point P t"
  "with_point P (t\<lparr>ts_next_session_id := n\<rparr>) = with_point P t"
  by (simp_all add: with_point_def)

lemma with_point_at [simp]:
  "with_point P (at_point i p t) = (if p \<in> P then insert i (with_point P t) else with_point P t - {i})"
  by (auto simp: with_point_def)

lemma in_with_point: "ts_sessions t i = Some p \<Longrightarrow> i \<in> with_point P t \<longleftrightarrow> p \<in> P"
  by (simp add: with_point_def)

lemma finite_with_point: "server_ok t \<Longrightarrow> finite (with_point P t)"
  by (rule finite_subset [of _ "{..<ts_next_session_id t}"]) (auto simp: server_ok_def with_point_def)

lemma server_ok_initial: "server_ok (new_tcp_server config)"
  by (simp add: server_ok_def new_tcp_server_def with_point_def)

text \<open>A session thread moves from one point to another.\<close>

lemma server_ok_move:
  assumes "server_ok t" and "ts_sessions t i = Some p"
    and "n = (if q \<in> counted_points \<and> p \<notin> counted_points then ts_connections t + 1
              else if q \<notin> counted_points \<and> p \<in> counted_points then ts_connections t - 1 else ts_connections t)"
    and "x = (if q \<in> registered then ts_sockets t else ts_sockets t - {i})"
    and "p \<in> registered \<or> q \<notin> registered"
    and "ts_closed t \<subseteq> c" and "q = S_reading \<Longrightarrow> ts_running t"
  shows "server_ok ((at_point i q t)\<lparr>ts_connections := n, ts_sockets := x, ts_closed := c\<rparr>)"
proof -
  note fin = finite_with_point [OF assms(1)]
  note mem = in_with_point [OF assms(2)]
  have dom: "i < ts_next_session_id t" "dom (ts_sessions t) \<subseteq> {..<ts_next_session_id t}"
    using assms(1,2) by (auto simp: server_ok_def)
  have sockets: "x = with_point registered (at_point i q t)"
    using assms(1,4,5) mem [of registered] by (auto simp: server_ok_def)
  have "card x \<le> card (ts_sockets t)"
    using assms(4) fin [of registered] assms(1) by (auto simp: server_ok_def intro: card_mono)
  then have card: "card x \<le> ts_max_connections t"
    using server_okD(3) [OF assms(1)] by linarith
  have count: "n = card (with_point counted_points (at_point i q t))"
    using assms(1,3) mem [of counted_points] fin [of counted_points]
    by (auto simp: server_ok_def insert_absorb)
  note ok = server_okD [OF assms(1)]
  let ?t = "(at_point i q t)\<lparr>ts_connections := n, ts_sockets := x, ts_closed := c\<rparr>"
  have reading: "with_point {S_reading} ?t \<subseteq> c"
    if "ts_stop t \<in> {Stop_closed, Stop_joined, Stop_returned}"
  proof -
    have "q \<noteq> S_reading" using that ok(5) assms(7) by auto
    then show ?thesis using ok(6) [OF that] assms(6) by auto
  qed
  have empty: "x = {}" if "ts_stop t = Stop_returned"
    using that ok(8) assms(4) by simp
  have eq: "with_point P ?t = with_point P (at_point i q t)" for P
    by (simp only: with_point_cong)
  have points: "with_point registered ?t = x" "card (with_point counted_points ?t) = n"
    by (simp_all only: eq sockets [symmetric] count [symmetric])
  show ?thesis
    unfolding server_ok_def points
  proof (intro conjI)
    show "dom (ts_sessions ?t) \<subseteq> {..<ts_next_session_id ?t}"
      using dom by simp
    show "ts_stop ?t \<in> {Stop_closed, Stop_joined, Stop_returned} \<longrightarrow> with_point {S_reading} ?t \<subseteq> ts_closed ?t"
      using reading by simp
  qed (use ok(5,7,9) empty card in simp_all)
qed

lemma admit_ok:
  assumes "server_ok t" and "ts_accept t = A_accepted"
  shows "server_ok (admit started t)"
proof -
  let ?i = "ts_next_session_id t"
  have new: "ts_sessions t ?i = None" "?i \<notin> ts_sockets t" "?i \<notin> with_point P t" for P
    using server_okD(1,2) [OF assms(1)] by (auto simp: with_point_def)
  have fin: "finite (ts_sockets t)"
    using server_okD(2) [OF assms(1)] finite_with_point [OF assms(1)] by simp
  have base: "server_ok (t\<lparr>ts_next_session_id := Suc ?i, ts_accept := A_loop\<rparr>)"
    using assms by (auto simp: server_ok_def)
  show ?thesis
  proof (cases "ts_max_connections t \<le> card (ts_sockets t) \<or> \<not> started")
    case True
    then show ?thesis using base by (auto simp: admit_def Let_def)
  next
    case False
    then have eq: "admit started t = t\<lparr>ts_next_session_id := Suc ?i, ts_accept := A_loop,
        ts_sockets := insert ?i (ts_sockets t), ts_sessions := (ts_sessions t)(?i \<mapsto> S_new)\<rparr>"
      by (simp add: admit_def Let_def)
    define t' where "t' = admit started t"
    have fields: "ts_next_session_id t' = Suc ?i" "ts_accept t' = A_loop" "ts_sockets t' = insert ?i (ts_sockets t)"
      "ts_sessions t' = (ts_sessions t)(?i \<mapsto> S_new)" "ts_connections t' = ts_connections t" "ts_stop t' = ts_stop t"
      "ts_running t' = ts_running t" "ts_closed t' = ts_closed t" "ts_max_connections t' = ts_max_connections t"
      by (simp_all add: t'_def eq)
    have points: "with_point P t' = (if S_new \<in> P then insert ?i (with_point P t) else with_point P t)" for P
      using new(1) by (auto simp: fields with_point_def)
    have stop: "ts_stop t \<noteq> Stop_joined" "ts_stop t \<noteq> Stop_returned"
      using server_okD(7) [OF assms(1)] assms(2) by auto
    have room: "Suc (card (ts_sockets t)) \<le> ts_max_connections t"
      using False by simp
    note ok = server_okD [OF assms(1)]
    have dom: "dom (ts_sessions t') \<subseteq> {..<Suc ?i}"
      using ok(1) by (auto simp: fields less_Suc_eq)
    have "server_ok t'"
      unfolding server_ok_def points fields
    proof (intro conjI impI)
      show "insert ?i (ts_sockets t) = (if S_new \<in> registered then insert ?i (with_point registered t) else with_point registered t)"
        using ok(2) by (simp add: registered_def)
      show "card (insert ?i (ts_sockets t)) \<le> ts_max_connections t"
        using room fin new(2) by simp
      show "ts_connections t = card (if S_new \<in> counted_points then insert ?i (with_point counted_points t)
          else with_point counted_points t)"
        using ok(4) by (simp add: counted_points_def)
    qed (use ok dom stop in \<open>simp_all add: fields\<close>)
    then show ?thesis by (simp add: t'_def)
  qed
qed


lemma own_step_ok:
  "own_step t t' \<Longrightarrow> server_ok t \<Longrightarrow> server_ok t'"
proof (induction rule: own_step.induct)
  case (admitted t started)
  then show ?case using admit_ok admitted.prems by simp
next
  case (accept_exit t)
  then show ?case using accept_exit.prems by (auto simp: server_ok_def)
next
  case (counted t i)
  then show ?case
    using server_ok_move [OF counted.prems, of i S_new "ts_connections t + 1" S_test "ts_sockets t" "ts_closed t"]
    by (simp add: counted_points_def registered_def)
next
  case (tested t i)
  then show ?case
    using server_ok_move [OF tested.prems, of i S_test "ts_connections t" "if ts_running t then S_reading else S_ended"
        "ts_sockets t" "ts_closed t"]
    by (cases "ts_running t") (simp_all add: counted_points_def registered_def)
next
  case (read_failed t i)
  then show ?case
    using server_ok_move [OF read_failed.prems, of i S_reading "ts_connections t" S_ended "ts_sockets t" "ts_closed t"]
    by (simp add: counted_points_def registered_def)
next
  case (answered t i p)
  then show ?case
    using server_ok_move [OF answered.prems, of i S_executing "ts_connections t" p "ts_sockets t" "ts_closed t"]
    by (auto simp add: counted_points_def registered_def)
next
  case (socket_closed t i)
  then show ?case
    using server_ok_move [OF socket_closed.prems, of i S_ended "ts_connections t" S_closed "ts_sockets t" "insert i (ts_closed t)"]
    by (auto simp add: counted_points_def registered_def)
next
  case (erased t i)
  then show ?case
    using server_ok_move [OF erased.prems, of i S_closed "ts_connections t" S_erased "ts_sockets t - {i}" "ts_closed t"]
    by (simp add: counted_points_def registered_def)
next
  case (uncounted t i)
  have "i \<notin> ts_sockets t"
    using server_okD(2) [OF uncounted.prems] in_with_point [OF uncounted.hyps] by (simp add: registered_def)
  then show ?case
    using uncounted server_ok_move [OF uncounted.prems, of i S_erased "ts_connections t - 1" S_done "ts_sockets t" "ts_closed t"]
    by (simp add: counted_points_def registered_def)
next
  case (sockets_closed t)
  moreover have "with_point {S_reading} t \<subseteq> ts_sockets t"
    using server_okD(2) [OF sockets_closed.prems] by (auto simp: with_point_def registered_def)
  ultimately show ?case using sockets_closed.prems by (auto simp: server_ok_def)
next
  case (joined t)
  then show ?case using joined.prems by (auto simp: server_ok_def)
next
  case (returned t)
  then show ?case using returned.prems by (auto simp: server_ok_def)
qed

lemma server_step_ok:
  "server_step t t' \<Longrightarrow> server_ok t \<Longrightarrow> server_ok t'"
proof (induction rule: server_step.induct)
  case (own t t')
  then show ?case using own_step_ok own.prems by blast
next
  case (started t)
  then show ?case using started.prems by (auto simp: server_ok_def)
next
  case (stop_called t)
  then show ?case using stop_called.prems by (auto simp: server_ok_def)
next
  case (connection t)
  then show ?case using connection.prems by (auto simp: server_ok_def)
next
  case (connection_lost t)
  then show ?case using connection_lost.prems by (auto simp: server_ok_def)
next
  case (data_arrived t i)
  then show ?case
    using server_ok_move [OF data_arrived.prems, of i S_reading "ts_connections t" S_executing "ts_sockets t" "ts_closed t"]
    by (simp add: counted_points_def registered_def)
next
  case (peer_closed t i)
  then show ?case
    using server_ok_move [OF peer_closed.prems, of i S_reading "ts_connections t" S_ended "ts_sockets t" "ts_closed t"]
    by (simp add: counted_points_def registered_def)
qed

lemma server_reachable_ok: "server_reachable config t \<Longrightarrow> server_ok t"
  by (induction rule: server_reachable.induct) (auto simp: server_ok_initial intro: server_step_ok)

lemma max_connections_admit [simp]: "ts_max_connections (admit started t) = ts_max_connections t"
  by (simp add: admit_def Let_def)

lemma server_reachable_limit: "server_reachable config t \<Longrightarrow> ts_max_connections t = cfg_max_connections config"
proof (induction rule: server_reachable.induct)
  case initial
  then show ?case by (simp add: new_tcp_server_def)
next
  case (step t t')
  then show ?case by (auto elim!: server_stepE own_stepE)
qed


section \<open>Stopping\<close>

primrec session_rank :: "session_point \<Rightarrow> nat" where
  "session_rank S_new = 7" | "session_rank S_executing = 6" | "session_rank S_test = 5"
| "session_rank S_reading = 4" | "session_rank S_ended = 3" | "session_rank S_closed = 2"
| "session_rank S_erased = 1" | "session_rank S_done = 0"

primrec accept_rank :: "accept_point \<Rightarrow> nat" where
  "accept_rank A_accepted = 9" | "accept_rank A_loop = 1" | "accept_rank A_none = 0" | "accept_rank A_exited = 0"

primrec stop_rank :: "stop_point \<Rightarrow> nat" where
  "stop_rank Stop_flagged = 3" | "stop_rank Stop_closed = 2" | "stop_rank Stop_joined = 1"
| "stop_rank Stop_none = 0" | "stop_rank Stop_returned = 0"

definition rank_of :: "(nat \<rightharpoonup> session_point) \<Rightarrow> nat \<Rightarrow> nat" where
  "rank_of ss i = (case ss i of None \<Rightarrow> 0 | Some p \<Rightarrow> session_rank p)"

definition server_work :: "tcp_server \<Rightarrow> nat" where
  "server_work t = (\<Sum>i<ts_next_session_id t. rank_of (ts_sessions t) i) + accept_rank (ts_accept t) + stop_rank (ts_stop t)"

lemma rank_move:
  assumes "server_ok t" and "ts_sessions t i = Some p" and "session_rank q < session_rank p"
  shows "(\<Sum>j<ts_next_session_id t. rank_of ((ts_sessions t)(i \<mapsto> q)) j) < (\<Sum>j<ts_next_session_id t. rank_of (ts_sessions t) j)"
proof (rule sum_strict_mono_ex1)
  have "i < ts_next_session_id t" using server_okD(1) [OF assms(1)] assms(2) by auto
  then show "\<exists>j\<in>{..<ts_next_session_id t}. rank_of ((ts_sessions t)(i \<mapsto> q)) j < rank_of (ts_sessions t) j"
    using assms(2,3) by (intro bexI [of _ i]) (simp_all add: rank_of_def)
  show "\<forall>j\<in>{..<ts_next_session_id t}. rank_of ((ts_sessions t)(i \<mapsto> q)) j \<le> rank_of (ts_sessions t) j"
    using assms(2,3) by (auto simp: rank_of_def)
qed simp

lemma admit_work:
  assumes "server_ok t" and "ts_accept t = A_accepted"
  shows "server_work (admit started t) < server_work t"
proof -
  let ?n = "ts_next_session_id t"
  have "ts_sessions t ?n = None" using server_okD(1) [OF assms(1)] by auto
  moreover have "(\<Sum>j<?n. rank_of ((ts_sessions t)(?n \<mapsto> S_new)) j) = (\<Sum>j<?n. rank_of (ts_sessions t) j)"
    by (intro sum.cong) (auto simp: rank_of_def)
  ultimately show ?thesis
    using assms(2) by (simp add: admit_def server_work_def Let_def) (simp add: rank_of_def)
qed

lemma own_step_work:
  "own_step t t' \<Longrightarrow> server_ok t \<Longrightarrow> \<not> ts_running t \<Longrightarrow> server_work t' < server_work t \<and> \<not> ts_running t'"
proof (induction rule: own_step.induct)
  case (admitted t started)
  then show ?case using admit_work by (simp add: admit_def Let_def)
qed (auto simp: server_work_def intro: rank_move)

lemma own_step_stop:
  "own_step t t' \<Longrightarrow> ts_stop t \<noteq> Stop_none \<Longrightarrow> ts_stop t' \<noteq> Stop_none"
  by (induction rule: own_step.induct) (simp_all add: admit_def Let_def)

lemma registered_progress:
  assumes "server_ok t" and "ts_sessions t i = Some p" and "p \<in> registered"
    and "ts_stop t \<in> {Stop_closed, Stop_joined}"
  shows "\<exists>t'. own_step t t'"
proof (cases p)
  case S_reading
  then have "i \<in> ts_closed t"
    using server_okD(6) [OF assms(1)] assms(2,4) by (auto simp: with_point_def)
  then show ?thesis using own_step.read_failed assms(2) S_reading by blast
next
  case S_executing
  then show ?thesis using own_step.answered [of t i S_test] assms(2) by blast
qed (use assms(2,3) own_step.counted own_step.tested own_step.socket_closed own_step.erased registered_def in
    blast)+

lemma stop_progress:
  assumes "server_ok t" and "ts_stop t \<in> {Stop_flagged, Stop_closed, Stop_joined}"
  shows "\<exists>t'. own_step t t'"
proof -
  have nr: "\<not> ts_running t" and na: "ts_accept t \<noteq> A_none"
    using server_okD(5,9) [OF assms(1)] assms(2) by auto
  consider "ts_stop t = Stop_flagged" | "ts_stop t = Stop_closed" | "ts_stop t = Stop_joined"
    using assms(2) by auto
  then show ?thesis
  proof cases
    case 1
    then show ?thesis using own_step.sockets_closed by blast
  next
    case 2
    then show ?thesis
      using own_step.joined own_step.accept_exit own_step.admitted nr na by (cases "ts_accept t") blast+
  next
    case 3
    show ?thesis
    proof (cases "ts_sockets t = {}")
      case True
      then show ?thesis using own_step.returned 3 by blast
    next
      case False
      then obtain i p where "ts_sessions t i = Some p" "p \<in> registered"
        using server_okD(2) [OF assms(1)] by (auto simp: with_point_def)
      then show ?thesis using registered_progress [OF assms(1)] 3 by blast
    qed
  qed
qed

lemma own_run_bound:
  "(own_step ^^ k) t t' \<Longrightarrow> server_ok t \<Longrightarrow> ts_stop t \<noteq> Stop_none \<Longrightarrow>
     server_ok t' \<and> ts_stop t' \<noteq> Stop_none \<and> k + server_work t' \<le> server_work t"
proof (induction k arbitrary: t')
  case (Suc k)
  then obtain u where u: "(own_step ^^ k) t u" "own_step u t'" by auto
  with Suc have "server_ok u" "ts_stop u \<noteq> Stop_none" "k + server_work u \<le> server_work t" by auto
  then show ?case
    using own_step_ok own_step_stop own_step_work [of u t'] server_okD(5) [of u] u(2) by fastforce
qed simp


section \<open>Properties\<close>

text \<open>
  C10. A client may pipeline its commands, as many as it likes over the life of the connection: whatever
  way their bytes are cut into packets, the session executes them one after the other in the order they
  were sent, and writes exactly one response per command, in the same order, each the reply of
  \<open>execute\<close>; nothing is left in the buffer and no further response is written. The condition is that
  the frame of any one command and any one packet (at most 8192 bytes in the code) together are within
  \<open>max_request_size\<close>, because the parser applies that limit to everything it has buffered and not yet
  taken out. The total length of the traffic is not limited.
\<close>

theorem session_answers_in_order:
  assumes "new_connection config w [] = Inr c" and "cfg_max_request_size config < 2 ^ 63"
    and "list_all (command_ok (cfg_max_request_size config)) cmds"
    and "concat ds = concat (map encode_array cmds)"
    and "\<forall>args\<in>set cmds. \<forall>d\<in>set ds. length (encode_array args) + length d \<le> cfg_max_request_size config"
    and "run_state (execute_all api svc cmds new_session) w = ((map Inr responses, session), w')"
  shows "session_loop api svc (map (\<lambda>d. (True, Inr d)) ds) c =
    c\<lparr>cn_session := session, cn_world := w', cn_sent := responses\<rparr>"
proof -
  have c: "cn_parser c = \<lparr>max_request_size = cfg_max_request_size config, max_depth = 16, buffer = ''''\<rparr>"
    "cn_session c = new_session" "cn_world c = w" "cn_sent c = []" "cn_writes c = []"
    using assms(1) by (auto simp: new_connection_def new_parser_def split: if_splits)
  have "list_all (\<lambda>args. args \<noteq> []) cmds"
    using assms(3) by (simp add: list_all_iff command_ok_def)
  moreover have "receive ds (cn_parser c) = (map command_value cmds, Inr (cn_parser c))"
    using assms(2-5) by (intro receive_commands) (simp_all add: c)
  ultimately have "serve api svc (map (\<lambda>d. (True, Inr d)) ds) c =
      (Disconnected, c\<lparr>cn_parser := cn_parser c, cn_session := session, cn_world := w', cn_sent := cn_sent c @ responses\<rparr>)"
    using assms(6) by (intro serve_commands) (simp_all add: c)
  then show ?thesis by (simp add: session_loop_def c(4))
qed

definition example_stream :: string where
  "example_stream = encode_array [''PING''] @ encode_array [''AUTH'', ''secret'']"

theorem session_answers_in_order_witness:
  "\<exists>c. new_connection (node1_config\<lparr>cfg_requirepass := ''secret''\<rparr>) example_idle [] = Inr c \<and>
     cn_sent (session_loop (node_api 0) example_service
       [(True, Inr (take 5 example_stream)), (True, Inr (drop 5 example_stream))] c) =
     [''+PONG'' @ CRLF, ''+OK'' @ CRLF]"
proof -
  let ?config = "node1_config\<lparr>cfg_requirepass := ''secret''\<rparr>"
  let ?cmds = "[[''PING''], [''AUTH'', ''secret'']]"
  let ?ds = "[take 5 example_stream, drop 5 example_stream]"
  have up: "uppercase_ascii ''PING'' = ''PING''" "uppercase_ascii ''AUTH'' = ''AUTH''"
    by code_simp+
  have size: "cfg_max_request_size ?config = 1048576"
    by (simp add: node1_config_def default_config_def)
  have 1: "new_connection ?config example_idle [] =
      Inr \<lparr>cn_parser = \<lparr>max_request_size = 1048576, max_depth = 16, buffer = ''''\<rparr>, cn_session = new_session,
        cn_world = example_idle, cn_sent = [], cn_writes = []\<rparr>"
    by (simp add: new_connection_def new_parser_def size)
  have 2: "cfg_max_request_size ?config < 2 ^ 63" by (simp add: size)
  have 3: "list_all (command_ok (cfg_max_request_size ?config)) ?cmds" by (simp add: size command_ok_def)
  have 4: "concat ?ds = concat (map encode_array ?cmds)"
    using example_stream_def by (simp del: take_append drop_append)
  have 5: "\<forall>args\<in>set ?cmds. \<forall>d\<in>set ?ds. length (encode_array args) + length d \<le> cfg_max_request_size ?config"
    unfolding size by (simp add: example_stream_def encode_array_def encode_bulk_string_def to_string_nat.simps)
  have 6: "run_state (execute_all (node_api 0) example_service ?cmds new_session) example_idle =
      ((map Inr [''+PONG'' @ CRLF, ''+OK'' @ CRLF], \<lparr>authenticated = True\<rparr>), example_idle)"
    by (simp add: execute_def up encode_simple_string_def contains_newline_def password_check_exact new_session_def
        example_service_def new_CommandService_def)
  show ?thesis
    using session_answers_in_order [OF 1 2 3 4 5 6] 1 by simp
qed

text \<open>
  C23. The connection limit and the connection counter are exact at every moment of every
  interleaving of the accept thread, the session threads, \<^theory_text>\<open>stop\<close> and the peers: at most
  \<open>max_connections\<close> sockets are registered, each belongs to a live session thread, and
  \<open>client_connections\<close> counts the sessions that have announced themselves and not yet left.
\<close>

theorem connection_limit_holds:
  assumes "server_reachable config t"
  shows "card (ts_sockets t) \<le> cfg_max_connections config \<and>
    ts_sockets t = {i. \<exists>p. ts_sessions t i = Some p \<and> p \<noteq> S_erased \<and> p \<noteq> S_done} \<and>
    ts_connections t = card {i. \<exists>p. ts_sessions t i = Some p \<and> p \<noteq> S_new \<and> p \<noteq> S_done}"
proof -
  note ok = server_okD [OF server_reachable_ok [OF assms]]
  have "p \<in> registered \<longleftrightarrow> p \<noteq> S_erased \<and> p \<noteq> S_done" "p \<in> counted_points \<longleftrightarrow> p \<noteq> S_new \<and> p \<noteq> S_done" for p
    by (cases p; simp add: registered_def counted_points_def)+
  then show ?thesis
    using ok(2-4) server_reachable_limit [OF assms] by (simp add: with_point_def Bex_def conj_commute)
qed


text \<open>A server that accepts one connection and is then stopped while the session is ending.\<close>

definition one_session :: "Config \<Rightarrow> bool \<Rightarrow> accept_point \<Rightarrow> nat set \<Rightarrow> session_point \<Rightarrow> nat set \<Rightarrow> stop_point \<Rightarrow> tcp_server" where
  "one_session config running acc sockets p closed stop = \<lparr>ts_max_connections = cfg_max_connections config,
     ts_running = running, ts_accept = acc, ts_sockets = sockets, ts_next_session_id = 2, ts_sessions = [1 \<mapsto> p],
     ts_closed = closed, ts_connections = 1, ts_stop = stop\<rparr>"

lemma one_session_stopped:
  assumes "1 \<le> cfg_max_connections config"
  shows "server_reachable config (one_session config False A_loop {1} S_test {} Stop_flagged)"
proof -
  let ?t = "new_tcp_server config"
  have "server_reachable config (?t\<lparr>ts_running := True, ts_accept := A_loop\<rparr>)"
    using server_reachable.step [OF server_reachable.initial server_step.started] by (simp add: new_tcp_server_def)
  then have "server_reachable config (?t\<lparr>ts_running := True, ts_accept := A_accepted\<rparr>)"
    using server_reachable.step [OF _ server_step.connection] by fastforce
  then have "server_reachable config (admit True (?t\<lparr>ts_running := True, ts_accept := A_accepted\<rparr>))"
    using server_reachable.step [OF _ server_step.own [OF own_step.admitted]] by fastforce
  then have "server_reachable config (?t\<lparr>ts_running := True, ts_accept := A_loop, ts_next_session_id := 2,
      ts_sockets := {1}, ts_sessions := [1 \<mapsto> S_new]\<rparr>)"
    using assms by (simp add: admit_def new_tcp_server_def numeral_2_eq_2)
  then have "server_reachable config (?t\<lparr>ts_running := True, ts_accept := A_loop, ts_next_session_id := 2,
      ts_sockets := {1}, ts_sessions := [1 \<mapsto> S_test], ts_connections := 1\<rparr>)"
    using server_reachable.step [OF _ server_step.own [OF own_step.counted [of _ 1]]]
    by (fastforce simp: new_tcp_server_def)
  then show ?thesis
    using server_reachable.step [OF _ server_step.stop_called]
    by (fastforce simp: new_tcp_server_def one_session_def)
qed

lemma one_session_own:
  "own_step (one_session config False A_loop {1} S_test {} Stop_flagged) (one_session config False A_loop {1} S_ended {} Stop_flagged)"
  "own_step (one_session config False A_loop {1} S_ended {} Stop_flagged) (one_session config False A_loop {1} S_closed {1} Stop_flagged)"
  "own_step (one_session config False A_loop {1} S_closed {1} Stop_flagged) (one_session config False A_loop {1} S_closed {1} Stop_closed)"
  "own_step (one_session config False A_loop {1} S_closed {1} Stop_closed) (one_session config False A_exited {1} S_closed {1} Stop_closed)"
  "own_step (one_session config False A_exited {1} S_closed {1} Stop_closed) (one_session config False A_exited {1} S_closed {1} Stop_joined)"
  "own_step (one_session config False A_exited {1} S_closed {1} Stop_joined) (one_session config False A_exited {} S_erased {1} Stop_joined)"
  "own_step (one_session config False A_exited {} S_erased {1} Stop_joined) (one_session config False A_exited {} S_erased {1} Stop_returned)"
  using own_step.tested [of "one_session config False A_loop {1} S_test {} Stop_flagged" 1]
    own_step.socket_closed [of "one_session config False A_loop {1} S_ended {} Stop_flagged" 1]
    own_step.sockets_closed [of "one_session config False A_loop {1} S_closed {1} Stop_flagged"]
    own_step.accept_exit [of "one_session config False A_loop {1} S_closed {1} Stop_closed"]
    own_step.joined [of "one_session config False A_exited {1} S_closed {1} Stop_closed"]
    own_step.erased [of "one_session config False A_exited {1} S_closed {1} Stop_joined" 1]
    own_step.returned [of "one_session config False A_exited {} S_erased {1} Stop_joined"]
  by (simp_all add: one_session_def)

lemma one_session_returned:
  assumes "1 \<le> cfg_max_connections config"
  shows "server_reachable config (one_session config False A_exited {} S_erased {1} Stop_returned)"
proof -
  have reach: "own_step u t \<Longrightarrow> server_reachable config u \<Longrightarrow> server_reachable config t" for u t
    using server_reachable.step server_step.own by blast
  note own = one_session_own [of config]
  show ?thesis
    by (rule reach [OF own(7) reach [OF own(6) reach [OF own(5) reach [OF own(4) reach [OF own(3)
          reach [OF own(2) reach [OF own(1) one_session_stopped [OF assms]]]]]]]])
qed

theorem connection_limit_holds_witness:
  "card (ts_sockets (one_session node1_config False A_loop {1} S_test {} Stop_flagged)) \<le> cfg_max_connections node1_config \<and>
   ts_connections (one_session node1_config False A_loop {1} S_test {} Stop_flagged) = 1"
proof -
  have 1: "1 \<le> cfg_max_connections node1_config"
    by (simp add: node1_config_def default_config_def)
  show ?thesis
    using connection_limit_holds [OF one_session_stopped [OF 1], THEN conjunct1]
    by (rule conjI) (simp add: one_session_def)
qed

text \<open>
  C22. \<^theory_text>\<open>stop\<close> always comes to its end without the help of any peer. From the moment the flag is
  cleared, the threads of the server can only take finitely many further steps, and when they can
  take no more, \<^theory_text>\<open>stop\<close> has returned, the accept thread is gone, no socket is registered, and
  every session thread has ended. No session can be blocked in a read, because each was either
  closed by \<^theory_text>\<open>stop\<close> or started late enough to see the flag.
\<close>

theorem stop_finishes:
  assumes "server_reachable config t" and "ts_stop t \<noteq> Stop_none"
  shows "(\<forall>k t'. (own_step ^^ k) t t' \<longrightarrow> k \<le> server_work t) \<and>
    (\<forall>t'. own_step\<^sup>*\<^sup>* t t' \<and> (\<nexists>t''. own_step t' t'') \<longrightarrow>
       ts_stop t' = Stop_returned \<and> ts_accept t' = A_exited \<and> ts_sockets t' = {} \<and>
       ran (ts_sessions t') \<subseteq> {S_done})"
proof (intro conjI allI impI)
  note ok = server_reachable_ok [OF assms(1)]
  show "k \<le> server_work t" if "(own_step ^^ k) t t'" for k t'
    using own_run_bound [OF that ok assms(2)] by simp
  fix t' assume run: "own_step\<^sup>*\<^sup>* t t' \<and> (\<nexists>t''. own_step t' t'')"
  then have ok': "server_ok t'" and stop: "ts_stop t' \<noteq> Stop_none"
    using own_run_bound [OF _ ok assms(2)] by (auto dest!: rtranclp_imp_relpowp)
  show returned: "ts_stop t' = Stop_returned"
    using stop_progress [OF ok'] stop run by (cases "ts_stop t'") auto
  show "ts_accept t' = A_exited" and empty: "ts_sockets t' = {}"
    using server_okD(7,8) [OF ok'] returned by auto
  show "ran (ts_sessions t') \<subseteq> {S_done}"
  proof
    fix p assume "p \<in> ran (ts_sessions t')"
    then obtain i where i: "ts_sessions t' i = Some p" by (auto simp: ran_def)
    then have "p \<notin> registered"
      using empty server_okD(2) [OF ok'] in_with_point [OF i, of registered] by auto
    moreover have "p \<noteq> S_erased"
      using own_step.uncounted i run by blast
    ultimately show "p \<in> {S_done}" by (cases p) (simp_all add: registered_def)
  qed
qed

theorem stop_finishes_witness:
  "\<exists>t. server_reachable node1_config t \<and> ts_stop t = Stop_flagged \<and> ts_sessions t 1 = Some S_test \<and>
     (\<forall>k t'. (own_step ^^ k) t t' \<longrightarrow> k \<le> server_work t)"
proof -
  let ?t = "one_session node1_config False A_loop {1} S_test {} Stop_flagged"
  have 1: "server_reachable node1_config ?t"
    by (rule one_session_stopped) (simp add: node1_config_def default_config_def)
  have 2: "ts_stop ?t \<noteq> Stop_none"
    by (simp add: one_session_def)
  show ?thesis
    using stop_finishes [OF 1 2] 1 by (intro exI [of _ ?t]) (simp add: one_session_def)
qed

text \<open>
  C40. Against the comment that session threads are joined during shutdown, \<^theory_text>\<open>stop\<close> can return while a
  session thread is still running: it has removed its socket from the table, which is all that
  \<^theory_text>\<open>stop\<close> waits for, but has not yet called \<open>client_disconnected\<close> on the command service, which the
  owner of the server is now free to destroy.
\<close>

theorem stop_returns_before_session_ends:
  assumes "1 \<le> cfg_max_connections config"
  shows "\<exists>t. server_reachable config t \<and> ts_stop t = Stop_returned \<and> ts_sessions t 1 = Some S_erased \<and>
    ts_connections t = 1"
  using one_session_returned [OF assms] by (auto simp: one_session_def)

theorem stop_returns_before_session_ends_witness:
  "\<exists>t. server_reachable node1_config t \<and> ts_stop t = Stop_returned \<and> ts_sessions t 1 = Some S_erased"
proof -
  have "1 \<le> cfg_max_connections node1_config"
    by (simp add: node1_config_def default_config_def)
  from stop_returns_before_session_ends [OF this] show ?thesis by blast
qed

end
