(* ===== verification/Server_Main.thy ===== *)
theory Server_Main
  imports Logger Raft_Lifecycle Tcp_Server
begin

text \<open>
  The server process, \<^verbatim>\<open>src/src/main.cpp\<close>: it loads the configuration, opens the logger, starts the
  node and then the client server, polls until a signal arrives or the storage has failed, stops the
  client server and then the node, and turns the outcome into the exit code. What the other threads do
  to the objects of the node while the process is polling, and while the client server stops, is a
  parameter; the steps of a stopping server are in \<open>Tcp_Server\<close>. Log lines are left out.

  The theorem: the exit code tells the outcomes apart. In particular the process exits with 0 only
  after both the server and the node have been stopped in that order, with the log flushed and the
  state checkpointed, and a storage failure is never reported as success.
\<close>

text \<open>
  Everything outside the process. A round of the polling loop is the value of \<^theory_text>\<open>stop_requested\<close>;
  \<open>os_meanwhile\<close> is what happened to the node between two rounds.
\<close>

record 'snap surroundings =
  os_environment :: "string \<Rightarrow> string option"
  os_config :: "string option"
  os_log_directory :: "exn option"
  os_log_opened :: bool
  os_entries :: entry_api
  os_snapshots :: "'snap snapshot_api"
  os_launcher :: "'snap launcher"
  os_calls :: "'snap calls"
  os_listen :: "string option list"
  os_rounds :: "bool list"
  os_meanwhile :: "'snap node_objects \<times> world \<Rightarrow> 'snap node_objects \<times> world"
  os_server_stopped :: "'snap node_objects \<times> world \<Rightarrow> 'snap node_objects \<times> world"

definition storage_error :: "'snap node_objects \<Rightarrow> int" where
  "storage_error ob = fatal_storage_error (no_state_manager ob)"

text \<open>The polling loop; a signal arrives at the latest when the rounds are used up.\<close>

fun poll_loop :: "('snap node_objects \<times> world \<Rightarrow> 'snap node_objects \<times> world) \<Rightarrow> bool list \<Rightarrow>
    ('snap, unit) objects_prog" where
  "poll_loop others [] = retP ()"
| "poll_loop others (stop_requested # rounds) =
     bindP (get_objects storage_error) (\<lambda>fatal.
     if \<not> stop_requested \<and> fatal = 0
     then bindP (modifyP others) (\<lambda>_. poll_loop others rounds)
     else retP ())"

text \<open>
  The destructor of the node stops it. An exception that leaves a destructor terminates the process.
\<close>

definition terminate :: "('s, 'a) prog" where
  "terminate s = (Died, s)"

definition destroy_node :: "'snap launcher \<Rightarrow> ('snap, unit) objects_prog" where
  "destroy_node lib = catchP (stop lib) (\<lambda>_. terminate)"

definition serve_until_stopped :: "'snap surroundings \<Rightarrow> Config \<Rightarrow> ('snap, int) objects_prog" where
  "serve_until_stopped os c =
     bindP (start (os_launcher os) (os_entries os) (os_snapshots os)) (\<lambda>_.
     bindP (liftP (fst (tcp_start (os_listen os) (new_tcp_server c)))) (\<lambda>_.
     bindP (poll_loop (os_meanwhile os) (os_rounds os)) (\<lambda>_.
     bindP (get_objects storage_error) (\<lambda>fatal.
     bindP (modifyP (os_server_stopped os)) (\<lambda>_.
     bindP (stop (os_launcher os)) (\<lambda>_.
     retP fatal))))))"

text \<open>The body with the destructor of the node behind it.\<close>

definition run_node :: "'snap surroundings \<Rightarrow> Config \<Rightarrow> ('snap, int) objects_prog" where
  "run_node os c =
     bindP (catchP (serve_until_stopped os c) (\<lambda>e. bindP (destroy_node (os_launcher os)) (\<lambda>_. throwP e))) (\<lambda>fatal.
     bindP (destroy_node (os_launcher os)) (\<lambda>_. retP fatal))"

definition load_settings :: "'snap surroundings \<Rightarrow> string \<Rightarrow> exn + Config \<times> Logger" where
  "load_settings os p =
     bindE (Config_load (os_environment os) p (os_config os)) (\<lambda>c.
     bindE (parse_log_level (cfg_log_level c)) (\<lambda>level.
     bindE (new_Logger (cfg_log_path c) level (os_log_directory os) (os_log_opened os) '''') (\<lambda>g.
     Inr (c, g))))"

definition server_main :: "'snap surroundings \<Rightarrow> string list \<Rightarrow> world \<Rightarrow> nat option \<times> world" where
  "server_main os argv w =
     (case argv of
        [p] \<Rightarrow>
          (case bindE (load_settings os p) (\<lambda>(c, g). bindE (new_RaftNode c True (os_calls os)) (\<lambda>ob. Inr (c, ob))) of
             Inl e \<Rightarrow> (Some 1, w)
           | Inr (c, ob) \<Rightarrow>
               (case run_node os c (ob, w) of
                  (Ret fatal, (_, w')) \<Rightarrow> (Some (if fatal = 0 then 0 else 3), w')
                | (Throw e, (_, w')) \<Rightarrow> (Some 1, w')
                | (Died, (_, w')) \<Rightarrow> (None, w')))
      | _ \<Rightarrow> (Some 2, w))"

lemma stop_Ret_released:
  assumes "stop lib s = (Ret (), (ob, w))"
  shows "\<not> no_launcher ob"
proof (cases "no_launcher (fst s)")
  case True
  then obtain ob\<^sub>1 w\<^sub>1 where "release_objects (ob\<^sub>1, w\<^sub>1) = (Ret (), (ob, w))"
    using assms by (auto simp: stop_def bindP_Ret_iff get_objects_def)
  from release_objects_cases [OF this] show ?thesis by (simp add: released_def)
next
  case False
  then show ?thesis using assms by (auto simp: stop_def get_objects_def bindP_def)
qed

lemma stop_stopped: "\<not> no_launcher ob \<Longrightarrow> stop lib (ob, w) = (Ret (), (ob, w))"
  by (simp add: stop_def get_objects_def bindP_def)

text \<open>A run that returns has stopped the node after the last look at the storage error.\<close>

lemma run_node_Ret:
  assumes "run_node os c s = (Ret fatal, (ob', w'))"
  shows "\<exists>ob\<^sub>1 w\<^sub>1. storage_error ob\<^sub>1 = fatal \<and>
    stop (os_launcher os) (os_server_stopped os (ob\<^sub>1, w\<^sub>1)) = (Ret (), (ob', w'))"
proof -
  obtain ob w where serve: "serve_until_stopped os c s = (Ret fatal, (ob, w))"
      and rest: "destroy_node (os_launcher os) (ob, w) = (Ret (), (ob', w'))"
    using assms by (auto simp: run_node_def bindP_Ret_iff catch_rethrow_Ret_iff)
  from serve obtain ob\<^sub>1 w\<^sub>1 where stop: "storage_error ob\<^sub>1 = fatal"
      "stop (os_launcher os) (os_server_stopped os (ob\<^sub>1, w\<^sub>1)) = (Ret (), (ob, w))"
    by (auto simp: serve_until_stopped_def bindP_Ret_iff get_objects_def)
  have "(ob', w') = (ob, w)"
    using rest stop_stopped [OF stop_Ret_released [OF stop(2)]] by (simp add: destroy_node_def catchP_def)
  then show ?thesis using stop by blast
qed

text \<open>
  The exit code: 2 exactly when the command line does not name one file; 0 or 3 only when \<open>stop()\<close> has
  returned, as the last thing that touched the files, and 3 exactly when the storage had failed
  before.
\<close>

theorem exit_code_tells_outcome:
  assumes "server_main os argv w = (code, w')"
  shows "(code = Some 2 \<longleftrightarrow> length argv \<noteq> 1) \<and>
    (code = Some 0 \<or> code = Some 3 \<longrightarrow>
       (\<exists>ob\<^sub>1 w\<^sub>1 ob\<^sub>2. stop (os_launcher os) (os_server_stopped os (ob\<^sub>1, w\<^sub>1)) = (Ret (), (ob\<^sub>2, w')) \<and>
          (code = Some 0 \<longleftrightarrow> storage_error ob\<^sub>1 = 0)))"
proof (cases "\<exists>p. argv = [p]")
  case False
  then have "code = Some 2" "length argv \<noteq> 1"
    using assms by (auto simp: server_main_def length_Suc_conv split: list.splits)
  then show ?thesis by simp
next
  case True
  then show ?thesis
    using assms run_node_Ret
    by (fastforce simp: server_main_def split: list.splits sum.splits prod.splits outcome.splits if_splits)
qed

text \<open>A configuration that loads never fails because of its log level.\<close>

lemma settings_level:
  assumes "Config_load env p input = Inr c"
  shows "\<exists>level. parse_log_level (cfg_log_level c) = Inr level"
proof -
  obtain st where "validate st = Inr ()" "c = st"
    using assms by (auto simp: Config_load_def exn_simps split: option.splits)
  then show ?thesis using valid_level_parses by (simp add: validate_iff)
qed

end
