(* ===== verification/Spec2Isabelle.thy ===== *)
theory Spec2Isabelle
  imports Kv_Persistence File_Log_Store Barrier_Reads Cli Benchmark Server_Main
begin

text \<open>
  Verification library of StrongKV, a replicated key-value server in C++17 over the NuRaft consensus
  library. Paths are relative to the repository.

  \<^bold>\<open>The program.\<close> A client (\<^verbatim>\<open>src/src/client\<close>) sends RESP2 arrays over TCP. The server
  (\<^verbatim>\<open>src/src/server/tcp_server.cpp\<close>) runs one thread per connection, cuts the bytes into values
  (\<^verbatim>\<open>src/src/protocol\<close>) and passes each command to the command service, which checks the password
  (\<^verbatim>\<open>src/src/security\<close>) and calls the node. The node (\<^verbatim>\<open>src/src/raft\<close>) puts writes into batches that
  NuRaft replicates, and serves reads under a leader lease or behind a committed barrier. NuRaft calls
  the log store and the state manager (\<^verbatim>\<open>src/src/storage\<close>) to persist its log, term and vote, and the
  state machine (\<^verbatim>\<open>src/src/state_machine\<close>) to apply committed entries and to handle snapshots. All files
  are written through \<^verbatim>\<open>src/src/storage/file_util.cpp\<close> and the codec of \<^verbatim>\<open>src/src/common\<close>.

  \<^bold>\<open>The theories\<close>, in the order of their imports.

  \<^item> \<open>Prelude\<close>, \<open>Decimal\<close>, \<open>Ordered_Map\<close>: exceptions as values of a sum, bytes and words, decimal
    text, \<^theory_text>\<open>std::map\<close> as a sorted association list behind the locales \<open>finite_map\<close> and
    \<open>finite_map_ext\<close>.
  \<^item> \<open>Binary_Codec\<close>, \<open>Command\<close>: the writer, the bounds-checked reader and the checksum of
    \<^verbatim>\<open>binary_codec.cpp\<close>; the envelopes of \<^verbatim>\<open>command.cpp\<close>. The locale \<open>field_codec\<close> states what a
    reader promises about a writer. A byte string decodes to a command exactly when the command
    encodes to it.
  \<^item> \<open>Posix_World\<close>, \<open>File_Util\<close>: programs over a world of files with synced prefixes, of names whose
    renames become durable when their directory is synced, and a script of system call outcomes;
    \<^verbatim>\<open>file_util.cpp\<close>. Atomic replacement at every failure and crash point; the locale \<open>durable_value\<close> for
    a value kept in a file of its own, interpreted by the vote, the cluster configuration and the
    checkpoint: once a save has returned, a power loss can undo neither the content nor the rename.
  \<^item> \<open>Kv_State_Machine\<close>, \<open>Kv_Persistence\<close>: \<^verbatim>\<open>kv_state_machine.cpp\<close>. Applying a command refines an
    abstract machine with mathematical counters and one remembered request per client; retries have
    no effect; results wait for their request; checkpoints, snapshots and their transfer.
  \<^item> \<open>File_Log_Store\<close>: \<^verbatim>\<open>file_log_store.cpp\<close>. The store refines a list of entries with a durable
    prefix; a crash during a batch loses nothing that was durable.
  \<^item> \<open>File_State_Manager\<close>: \<^verbatim>\<open>file_state_manager.cpp\<close>. A vote is never forgotten.
  \<^item> \<open>Config\<close>, \<open>Password\<close>, \<open>Logger\<close>: \<^verbatim>\<open>config.cpp\<close>, \<^verbatim>\<open>password.cpp\<close>, \<^verbatim>\<open>logger.cpp\<close>. What loads is
    valid, and the text form of a valid configuration loads to it.
  \<^item> \<open>Resp\<close>: \<^verbatim>\<open>resp.cpp\<close>. The locales \<open>stable_parser\<close> and \<open>incremental_parser\<close> give the independence of
    the cut into packets; every value within the limits round trips.
  \<^item> \<open>Raft_Node\<close>, \<open>Raft_Workers\<close>, \<open>Barrier_Reads\<close>, \<open>Raft_Lifecycle\<close>: \<^verbatim>\<open>raft_node.cpp\<close>. The operations of
    the node, the interleaving of its threads as the step relations \<open>node_step\<close> and \<open>thread_step\<close>, and
    \<open>start()\<close> and \<open>stop()\<close> over the storage objects. Each proposal gets the result of its own command;
    a read behind a barrier sees everything acknowledged before, also what this node had not applied
    yet; while a read is served under the lease no majority can elect another leader; a request is
    answered at most once, and exactly once after a stop; an orderly stop loses nothing.
  \<^item> \<open>Command_Service\<close>, \<open>Tcp_Server\<close>: \<^verbatim>\<open>command_service.cpp\<close>, \<^verbatim>\<open>tcp_server.cpp\<close>. The service uses the node
    through the locale \<open>node_interface\<close>, which the node of \<open>Raft_Workers\<close> provides. A session that is
    not authenticated reaches nothing; replies are single frames; pipelined commands are answered in
    order; the connection limit holds and \<open>stop()\<close> finishes.
  \<^item> \<open>Client\<close>, \<open>Cli\<close>, \<open>Benchmark\<close>: \<^verbatim>\<open>client.cpp\<close> and \<^verbatim>\<open>src/tools\<close>. Every retry of a write is the same
    request, so a write takes effect once, whatever the network and the redirects do.
  \<^item> \<open>Server_Main\<close>: \<^verbatim>\<open>main.cpp\<close>. The order of starting and stopping, and the exit codes.

  \<^bold>\<open>State and operations.\<close> A class is a record with its members, an enumeration a datatype with its
  constants, an operation one definition of the same name; machine integers that can wrap are words.
  Exceptions are the type \<open>exn\<close>, one constructor per class the code throws or catches. Objects that
  use files are programs over \<open>world\<close>: a normal return, an exception, or the death of the process.
  Operations that hold one mutex for their whole body are functions on the state; where a body
  releases a lock, every critical section is a step of its own.

  \<^bold>\<open>Parameters.\<close> NuRaft is outside the repository. Its answers to the node are a sequence of
  \<open>instant\<close>s, so they may change, and entries may be committed, between any two calls; its launcher
  is a pair of arbitrary programs over the objects of the node; the serialized forms of its log
  entries, snapshots, cluster configuration and server state are functions with the hypotheses
  \<open>entry_api_ok\<close>, \<open>snapshot_api_ok\<close>, \<open>meta_api_ok\<close> and \<open>buffer_api_ok\<close>: what was serialized is read back.
  What the theorems need of consensus itself is stated as \<open>batch_committed\<close> (a committed batch is applied
  at the indexes it was given), \<open>stable_cluster\<close> (the reported servers do not change during a lease read)
  and \<open>replicates\<close> (the machine applies a growing prefix of one log, and an accepted append lies behind
  everything committed before).
  Sockets are lists of outcomes. Every theorem with such a hypothesis has a witness on a concrete
  instance.

  \<^bold>\<open>Bounds and termination.\<close> Loops over data are total functions with a measure. The retry loop of the
  client and the RESP nesting are bounded by the limits of the code (three attempts more than there
  are seeds, the depth limit of the parser); no other fuel is used. A list of outcomes that is used up means that the remaining
  calls succeed (files) or fail (sockets); a theorem about all lists is one about every finite pattern
  of failures. The threads of the node and of the server are shown to run out of steps by measures.

  \<^bold>\<open>Not modelled.\<close> The Windows branches; elapsed time (the pauses and waiting times are steps that may
  happen at any moment, and the comparison of passwords is not timed); log lines, apart from the
  logger itself and the event callback; file descriptors apart from their paths; the order of
  allocation failures.

  \<^bold>\<open>Simplifications of the environment.\<close> \<open>write\<close> and \<open>fsync\<close> are taken to behave as POSIX documents them. A
  power loss may undo every rename since the last sync of the directory, and it keeps a prefix of the
  bytes appended since the last sync of a file: a later page that survives without an earlier one, which
  \<open>load_wal_locked\<close> answers with its error for a checksum mismatch before the tail, does not occur.
  \<open>ftruncate\<close> is durable at once. The durability of new directories and of temporary names is not recorded. The
  session numbers and the connection counter of the TCP server, fixed-width atomics in the code, are
  natural numbers, and the sum the benchmark takes modulo 100 is an integer without a limit.
\<close>

end
